(* ===== verification/Prelude.thy ===== *)
theory Prelude
  imports Main "HOL-Library.Word" "HOL-Library.Monad_Syntax"
begin

unbundle bit_operations_syntax

text \<open>
  The prelude of the development: names of the machine types, checked access to a byte
  array, the little-endian view of a \<open>uint32_t\<close>, C strings in fixed-size
  buffers, and the generic list and word lemmas every component uses.

  Undefined behaviour is a value: every access through a pointer is an access at an
  offset of an allocation, and an access outside of the allocation is \<open>None\<close>.
\<close>

named_theorems mem_simps \<open>checked memory accesses\<close>
named_theorems unat_simps \<open>natural-number values of unsigned C arithmetic\<close>

type_synonym u8 = "8 word"
type_synonym u16 = "16 word"
type_synonym u32 = "32 word"
type_synonym u64 = "64 word"
type_synonym bytes = "u8 list"

text \<open>Integer division of C truncates towards zero.\<close>

definition c_div :: "int \<Rightarrow> int \<Rightarrow> int" where
  "c_div a b = sgn a * sgn b * (\<bar>a\<bar> div \<bar>b\<bar>)"

lemma c_div_nonneg: "0 \<le> a \<Longrightarrow> 0 < b \<Longrightarrow> c_div a b = a div b"
  by (cases "a = 0") (auto simp: c_div_def)

section \<open>Words\<close>

lemma unat_add_no_wrap [unat_simps]:
  "unat (a :: u32) + unat b < 4294967296 \<Longrightarrow> unat (a + b) = unat a + unat b"
  by (simp add: unat_word_ariths)

lemma unat_mult_no_wrap [unat_simps]:
  "unat (a :: u32) * unat b < 4294967296 \<Longrightarrow> unat (a * b) = unat a * unat b"
  by (simp add: unat_word_ariths)

lemma unat_sub_le [unat_simps]:
  "unat (b :: u32) \<le> unat a \<Longrightarrow> unat (a - b) = unat a - unat b"
  by (simp add: unat_sub word_le_nat_alt)

lemma unat_u32_lt: "unat (a :: u32) < 4294967296"
  using unsigned_less [of a, where 'a = nat] by simp

lemma unat_of_nat_u32 [unat_simps]: "n < 4294967296 \<Longrightarrow> unat (word_of_nat n :: u32) = n"
  by (simp add: unat_of_nat)

lemma u32_succ_no_wrap: "(i :: u32) < n \<Longrightarrow> unat (i + 1) = unat i + 1"
proof -
  assume "i < n"
  then have "unat i < unat n" by (simp add: word_less_nat_alt)
  then have "unat i + 1 < 4294967296" using unat_u32_lt [of n] by simp
  then show ?thesis by (simp add: unat_word_ariths)
qed

text \<open>The value a C \<open>(int)\<close> cast of a \<open>uint32_t\<close> has.\<close>

abbreviation to_int :: "u32 \<Rightarrow> int" where
  "to_int w \<equiv> sint w"

lemma to_int_small:
  assumes "unat (w :: u32) < 2147483648"
  shows "to_int w = int (unat w)"
proof -
  have u: "uint w = int (unat w)" by simp
  have "uint w < 2147483648" using assms u by linarith
  then have "signed_take_bit 31 (uint w) = uint w"
    by (intro signed_take_bit_int_eq_self) (simp_all add: order_trans [OF _ uint_ge_0])
  with u show ?thesis by (simp add: sint_uint)
qed

section \<open>Lists\<close>

lemma take_drop_append_exact:
  "length xs = n \<Longrightarrow> take n (xs @ ys) = xs \<and> drop n (xs @ ys) = ys"
  by simp

lemma concat_uniform_length:
  "(\<And>x. x \<in> set xs \<Longrightarrow> length (f x) = w) \<Longrightarrow> length (concat (map f xs)) = w * length xs"
  by (induction xs) auto

lemma drop_concat_uniform:
  "(\<And>x. length (f x) = w) \<Longrightarrow> k < length xs \<Longrightarrow>
   drop (k * w) (concat (map f xs)) = f (xs ! k) @ concat (map f (drop (Suc k) xs))"
proof (induction xs arbitrary: k)
  case Nil
  then show ?case by simp
next
  case (Cons x xs)
  then show ?case by (cases k) auto
qed

lemma mult_le_if_less: "(j :: nat) < k \<Longrightarrow> j * w + w \<le> k * w"
  by (metis Suc_leI add.commute mult_Suc mult_le_mono1)

section \<open>Checked access to an allocation\<close>

definition get_bytes :: "bytes \<Rightarrow> nat \<Rightarrow> nat \<Rightarrow> bytes option" where
  "get_bytes mem off n = (if off + n \<le> length mem then Some (take n (drop off mem)) else None)"

definition put_bytes :: "bytes \<Rightarrow> nat \<Rightarrow> bytes \<Rightarrow> bytes option" where
  "put_bytes mem off bs =
     (if off + length bs \<le> length mem
      then Some (take off mem @ bs @ drop (off + length bs) mem) else None)"

lemma put_bytes_length [mem_simps]: "put_bytes mem off bs = Some mem' \<Longrightarrow> length mem' = length mem"
  by (auto simp: put_bytes_def split: if_splits)

lemma get_put_same [mem_simps]:
  "put_bytes mem off bs = Some mem' \<Longrightarrow> get_bytes mem' off (length bs) = Some bs"
  by (auto simp: put_bytes_def get_bytes_def split: if_splits)

lemma get_put_before [mem_simps]:
  "put_bytes mem off bs = Some mem' \<Longrightarrow> o' + n \<le> off \<Longrightarrow> get_bytes mem' o' n = get_bytes mem o' n"
  by (auto simp: put_bytes_def get_bytes_def drop_take min_absorb1 split: if_splits)

lemma get_put_after [mem_simps]:
  "put_bytes mem off bs = Some mem' \<Longrightarrow> off + length bs \<le> o' \<Longrightarrow>
   get_bytes mem' o' n = get_bytes mem o' n"
  by (auto simp: put_bytes_def get_bytes_def split: if_splits)

lemma get_bytes_length: "get_bytes mem off n = Some bs \<Longrightarrow> length bs = n"
  by (auto simp: get_bytes_def split: if_splits)

lemma get_bytes_sub:
  "get_bytes mem off n = Some bs \<Longrightarrow> i + m \<le> n \<Longrightarrow>
   get_bytes mem (off + i) m = Some (take m (drop i bs))"
  by (auto simp: get_bytes_def drop_take add.commute min_absorb1 split: if_splits)

lemma put_bytes_id:
  "get_bytes mem off (length bs) = Some bs \<Longrightarrow> put_bytes mem off bs = Some mem"
  by (auto simp: get_bytes_def put_bytes_def split: if_splits)
     (metis add.commute append_take_drop_id drop_drop)

text \<open>Adjacent writes are one write of the concatenation.\<close>

lemma put_bytes_append:
  "Option.bind (put_bytes mem off xs) (\<lambda>m. put_bytes m (off + length xs) ys) =
   put_bytes mem off (xs @ ys)"
  by (auto simp: put_bytes_def add.assoc add.commute [of "length ys"])

text \<open>A later write over the same range wins.\<close>

lemma put_bytes_overwrite:
  "length xs = length ys \<Longrightarrow>
   Option.bind (put_bytes mem off xs) (\<lambda>m. put_bytes m off ys) = put_bytes mem off ys"
  by (auto simp: put_bytes_def)

section \<open>The little-endian view of a uint32_t\<close>

definition le32 :: "u32 \<Rightarrow> bytes" where
  "le32 w = [ucast w, ucast (drop_bit 8 w), ucast (drop_bit 16 w), ucast (drop_bit 24 w)]"

fun un32 :: "bytes \<Rightarrow> u32" where
  "un32 (a # b # c # d # _) =
     ucast a OR push_bit 8 (ucast b) OR push_bit 16 (ucast c) OR push_bit 24 (ucast d)"
| "un32 _ = 0"

lemma le32_length [simp]: "length (le32 w) = 4"
  by (simp add: le32_def)

lemma un32_le32 [simp]: "un32 (le32 w @ bs) = w"
  unfolding le32_def
proof (simp, rule bit_word_eqI)
  fix n assume "n < LENGTH(32)"
  then have n: "n < 32" by simp
  consider "n < 8" | "8 \<le> n" "n < 16" | "16 \<le> n" "n < 24" | "24 \<le> n" by linarith
  then show "bit (ucast (ucast w :: u8) OR push_bit 8 (ucast (ucast (drop_bit 8 w) :: u8)) OR
        push_bit 16 (ucast (ucast (drop_bit 16 w) :: u8)) OR
        push_bit 24 (ucast (ucast (drop_bit 24 w) :: u8)) :: u32) n = bit w n"
    by cases (use n in \<open>auto simp: bit_simps\<close>)
qed

lemma un32_le32_nil [simp]: "un32 (le32 w) = w"
  using un32_le32 [of w "[]"] by simp

definition get_u32 :: "bytes \<Rightarrow> nat \<Rightarrow> u32 option" where
  "get_u32 mem off = map_option un32 (get_bytes mem off 4)"

definition put_u32 :: "bytes \<Rightarrow> nat \<Rightarrow> u32 \<Rightarrow> bytes option" where
  "put_u32 mem off v = put_bytes mem off (le32 v)"

section \<open>C strings in fixed-size buffers\<close>

text \<open>The string a buffer holds: everything before the first NUL.\<close>

abbreviation NUL :: char where
  "NUL \<equiv> CHR 0x00"

definition cstr :: "string \<Rightarrow> string" where
  "cstr buf = takeWhile (\<lambda>c. c \<noteq> NUL) buf"

text \<open>
  \<open>strncpy(dst, src, n)\<close>: the first \<open>n\<close> characters of the string at
  \<open>src\<close>, padded with NULs up to \<open>n\<close>; bytes of \<open>dst\<close> from
  \<open>n\<close> on are kept.
\<close>

definition c_strncpy :: "string \<Rightarrow> string \<Rightarrow> nat \<Rightarrow> string" where
  "c_strncpy dst src n = take n (cstr src @ replicate n NUL) @ drop n dst"

text \<open>\<open>snprintf(dst, n, ...)\<close> with the formatted text \<open>s\<close>, for \<open>n > 0\<close>.\<close>

definition c_snprintf :: "string \<Rightarrow> nat \<Rightarrow> string \<Rightarrow> string" where
  "c_snprintf dst n s =
     (let t = take (n - 1) s in t @ [NUL] @ drop (length t + 1) dst)"

text \<open>A well-formed string buffer of \<open>n\<close> bytes: its last byte is a NUL.\<close>

definition cbuf_ok :: "nat \<Rightarrow> string \<Rightarrow> bool" where
  "cbuf_ok n buf \<longleftrightarrow> length buf = n \<and> 0 < n \<and> last buf = NUL"

lemma cstr_no_nul: "NUL \<notin> set s \<Longrightarrow> cstr (s @ NUL # t) = s"
  by (induction s) (auto simp: cstr_def)

lemma cstr_idem [simp]: "cstr (cstr s) = cstr s"
  by (simp add: cstr_def takeWhile_idem)

lemma nul_notin_cstr: "NUL \<notin> set (cstr s)"
  by (auto simp: cstr_def dest: set_takeWhileD)

lemma cstr_id: "NUL \<notin> set s \<Longrightarrow> cstr s = s"
  by (auto simp: cstr_def takeWhile_eq_all_conv)

lemma cbuf_okE:
  assumes "cbuf_ok n buf"
  obtains ys where "buf = ys @ [NUL]" "length ys = n - 1" "0 < n"
  using assms unfolding cbuf_ok_def
  by (metis One_nat_def append_butlast_last_id length_0_conv length_butlast less_irrefl)

lemma cstr_length_less: "cbuf_ok n buf \<Longrightarrow> length (cstr buf) < n"
proof (elim cbuf_okE)
  fix ys assume buf: "buf = ys @ [NUL]" "length ys = n - 1" "0 < n"
  have "cstr (ys @ [NUL]) = cstr ys"
    by (induction ys) (simp_all add: cstr_def)
  with buf(1) have "cstr buf = cstr ys" by simp
  also have "length (cstr ys) \<le> length ys"
    unfolding cstr_def by (rule length_takeWhile_le)
  finally show ?thesis using buf(2,3) by simp
qed

lemma c_strncpy_length: "n \<le> length dst \<Longrightarrow> length (c_strncpy dst src n) = length dst"
  by (simp add: c_strncpy_def)

lemma c_strncpy_eq:
  "cbuf_ok m dst \<Longrightarrow> n = m - 1 \<Longrightarrow>
   c_strncpy dst src n = take n (cstr src) @ replicate (n - length (cstr src)) NUL @ [NUL]"
  by (elim cbuf_okE) (simp add: c_strncpy_def)

lemma c_strncpy_ok: "cbuf_ok m dst \<Longrightarrow> n = m - 1 \<Longrightarrow> cbuf_ok m (c_strncpy dst src n)"
  by (frule (1) c_strncpy_eq [where src = src]) (auto simp: cbuf_ok_def neq_Nil_conv)

text \<open>The copy is the source string cut at \<open>n\<close> characters.\<close>

lemma nul_notin_take_cstr [simp]: "NUL \<notin> set (take n (cstr src))"
  using nul_notin_cstr in_set_takeD by fastforce

lemma cstr_strncpy:
  assumes "cbuf_ok m dst" and "n = m - 1"
  shows "cstr (c_strncpy dst src n) = take n (cstr src)"
proof -
  have "c_strncpy dst src n = take n (cstr src) @ NUL # replicate (n - length (cstr src)) NUL"
    using c_strncpy_eq [OF assms, of src] by (simp add: replicate_append_same)
  then show ?thesis by (simp add: cstr_no_nul)
qed

lemma c_snprintf_ok:
  "cbuf_ok n dst \<Longrightarrow> cbuf_ok n (c_snprintf dst n s)"
  by (auto simp: cbuf_ok_def c_snprintf_def Let_def)

lemma cstr_snprintf:
  "NUL \<notin> set s \<Longrightarrow> cstr (c_snprintf dst n s) = take (n - 1) s"
  using in_set_takeD [of NUL "n - 1" s]
  by (simp add: c_snprintf_def Let_def) (subst cstr_no_nul, auto)

end
