(* ===== verification/Codec.thy ===== *)
theory Codec
  imports Prelude
begin

text \<open>
  The interface of a fixed-width wire format: an encoder into \<open>width\<close> bytes and a
  decoder that reads a value from the front of a byte string, which is what the C code does
  when it casts a \<open>char *\<close> to a pointer to a packed struct. The clients of the
  interface are the message structs, the message arrays of the senders and the frames of the
  TCP stream.
\<close>

locale codec =
  fixes enc :: "'a \<Rightarrow> bytes" and dec :: "bytes \<Rightarrow> 'a" and width :: nat
  assumes enc_length: "length (enc x) = width"
    and dec_enc: "dec (enc x @ rest) = x"
begin

lemma dec_enc_exact: "dec (enc x) = x"
  using dec_enc [of x "[]"] by simp

lemma enc_inject: "enc x = enc y \<longleftrightarrow> x = y"
  by (metis dec_enc_exact)

text \<open>A stream of encodings has at most one reading.\<close>

lemma enc_append_inject: "enc x @ r = enc y @ s \<longleftrightarrow> x = y \<and> r = s"
proof
  assume eq: "enc x @ r = enc y @ s"
  then have "x = y" by (metis dec_enc)
  with eq show "x = y \<and> r = s" by simp
qed simp

text \<open>Element \<open>k\<close> of an array of encodings is at offset \<open>k * width\<close>.\<close>

lemma dec_array: "k < length xs \<Longrightarrow> dec (drop (k * width) (concat (map enc xs))) = xs ! k"
  by (simp add: drop_concat_uniform enc_length dec_enc)

lemma array_length: "length (concat (map enc xs)) = width * length xs"
  by (rule concat_uniform_length) (rule enc_length)

text \<open>What was stored at an offset is what a read of the same offset gives.\<close>

lemma load_store:
  "put_bytes mem off (enc x) = Some mem' \<Longrightarrow> map_option dec (get_bytes mem' off width) = Some x"
  using get_put_same [of mem off "enc x" mem'] by (simp add: enc_length dec_enc_exact)

end

text \<open>Two structs one after the other are a struct of both.\<close>

locale codec_pair =
  fst: codec ea da wa + snd: codec eb db wb
  for ea :: "'a \<Rightarrow> bytes" and da :: "bytes \<Rightarrow> 'a" and wa :: nat
    and eb :: "'b \<Rightarrow> bytes" and db :: "bytes \<Rightarrow> 'b" and wb :: nat

sublocale codec_pair \<subseteq>
  both: codec "\<lambda>(x, y). ea x @ eb y" "\<lambda>bs. (da bs, db (drop wa bs))" "wa + wb"
  by unfold_locales
     (auto simp: fst.enc_length snd.enc_length fst.dec_enc snd.dec_enc split: prod.splits)

text \<open>A \<open>uint32_t\<close> in memory.\<close>

interpretation u32c: codec le32 un32 4
  by unfold_locales simp_all

interpretation u32x2: codec_pair le32 un32 4 le32 un32 4
  by unfold_locales

end
