(* ===== verification/MsgStruct.thy ===== *)
theory MsgStruct
  imports Codec
begin

text \<open>
  The wire structures of \<open>msg_struct.h\<close> and the alignment check of
  \<open>macro.h\<close>. The structs are packed (\<open>pragma pack(1)\<close>), so a struct in memory
  is its fields one after the other, each a \<open>uint32_t\<close> in the byte order of the host;
  the model fixes little-endian, the order of the x86-64 and AArch64 hosts the programs are
  built for, on both ends.
\<close>

record nb_msg_hdr_t =
  msg_id :: u32
  payload_len :: u32

record nb_msg_data_t =
  msg_user_id :: u32
  msg_sequence :: u32

abbreviation sizeof_hdr :: nat where "sizeof_hdr \<equiv> 8"
abbreviation sizeof_data :: nat where "sizeof_data \<equiv> 8"
abbreviation sizeof_ptr :: nat where "sizeof_ptr \<equiv> 8"

definition enc_hdr :: "nb_msg_hdr_t \<Rightarrow> bytes" where
  "enc_hdr h = le32 (msg_id h) @ le32 (payload_len h)"

definition dec_hdr :: "bytes \<Rightarrow> nb_msg_hdr_t" where
  "dec_hdr bs = \<lparr>msg_id = un32 bs, payload_len = un32 (drop 4 bs)\<rparr>"

definition enc_data :: "nb_msg_data_t \<Rightarrow> bytes" where
  "enc_data d = le32 (msg_user_id d) @ le32 (msg_sequence d)"

definition dec_data :: "bytes \<Rightarrow> nb_msg_data_t" where
  "dec_data bs = \<lparr>msg_user_id = un32 bs, msg_sequence = un32 (drop 4 bs)\<rparr>"

definition strict_check_msg_struct :: "nat \<Rightarrow> bool" where
  "strict_check_msg_struct sz \<longleftrightarrow> sz mod sizeof_ptr = 0"

interpretation hdr: codec enc_hdr dec_hdr sizeof_hdr
  by unfold_locales (simp_all add: enc_hdr_def dec_hdr_def)

interpretation data: codec enc_data dec_data sizeof_data
  by unfold_locales (simp_all add: enc_data_def dec_data_def)

interpretation msg: codec_pair enc_hdr dec_hdr sizeof_hdr enc_data dec_data sizeof_data
  by unfold_locales

lemmas enc_lengths [simp] = hdr.enc_length data.enc_length

text \<open>
  A message as the senders build it: header, user id and sequence number, then padding
  up to the message size.
\<close>

definition enc_msg :: "nb_msg_hdr_t \<Rightarrow> nb_msg_data_t \<Rightarrow> bytes \<Rightarrow> bytes" where
  "enc_msg h d pad = enc_hdr h @ enc_data d @ pad"

lemma enc_msg_length: "length (enc_msg h d pad) = 16 + length pad"
  by (simp add: enc_msg_def)

lemma dec_hdr_enc_msg [simp]: "dec_hdr (enc_msg h d pad) = h"
  by (simp add: enc_msg_def hdr.dec_enc)

lemma dec_data_enc_msg [simp]: "dec_data (drop 8 (enc_msg h d pad)) = d"
  by (simp add: enc_msg_def data.dec_enc)

text \<open>
  Both structs pass the compile-time check, and a header followed by a data block is read
  back from the front of any byte string it was written to.
\<close>

lemma msg_struct_layout:
  "strict_check_msg_struct sizeof_hdr \<and> strict_check_msg_struct sizeof_data \<and>
   length (enc_hdr h @ enc_data d) = 16 \<and>
   dec_hdr (enc_hdr h @ enc_data d @ rest) = h \<and>
   dec_data (drop sizeof_hdr (enc_hdr h @ enc_data d @ rest)) = d"
  using msg.both.enc_length [of "(h, d)"] msg.both.dec_enc [of "(h, d)" rest]
  by (simp add: strict_check_msg_struct_def)

end
