(* ===== verification/World.thy ===== *)
theory World
  imports MsgStruct
begin

text \<open>
  What the program shares with its environment: time, socket addresses, and the calls it
  makes. A call to the libraries the program is built on (mugglec, haclog, the socket layer)
  is an \<open>effect\<close>, appended to the trace of the \<open>world\<close> in the order
  the code makes it; what the environment answers is a field of \<open>env\<close>, indexed by
  how many answers of that kind were consumed before, so that a whole run is a function of
  the environment.
\<close>

section \<open>Time and addresses\<close>

record timespec =
  tv_sec :: int
  tv_nsec :: int

text \<open>
  A \<open>struct sockaddr\<close> is read through the struct its family selects. The families
  are the Linux values of \<open>AF_INET\<close> and \<open>AF_INET6\<close>.
\<close>

datatype sockaddr =
    SockaddrIn u16 u32                    \<comment> \<open>\<open>sin_port\<close>, \<open>sin_addr\<close>\<close>
  | SockaddrIn6 u16 u32 "128 word" u32    \<comment> \<open>port, flow info, address, scope id\<close>
  | SockaddrOther u16 bytes               \<comment> \<open>family, bytes\<close>

abbreviation AF_INET :: u16 where "AF_INET \<equiv> 2"
abbreviation AF_INET6 :: u16 where "AF_INET6 \<equiv> 10"

section \<open>Log levels and records\<close>

datatype log_level = L_TRACE | L_DEBUG | L_INFO | L_WARNING | L_ERROR | L_FATAL

text \<open>\<open>nb_ts_record_t\<close> of \<open>record.h\<close>.\<close>

record nb_ts_record_t =
  r_ts :: timespec
  r_user_id :: u32
  r_id :: u32
  r_msg_size :: u32
  r_action :: string

section \<open>Effects\<close>

datatype ctx_type = CtxTcpListen | CtxTcpClient | CtxUdp

type_synonym ctx = nat   \<comment> \<open>the identity of a \<open>muggle_socket_context_t\<close>\<close>

text \<open>
  The calls whose arguments the properties speak about have a constructor of their own; every
  other call of a library function is \<open>Call f args\<close> with the C name of the
  function and the arguments that matter.
\<close>

datatype arg = AStr string | AInt int | ANat nat | ATyp ctx_type | ASa sockaddr

datatype effect =
    Log log_level string              \<comment> \<open>\<open>NB_LOG_*\<close> with its format string\<close>
  | AssertFailed string               \<comment> \<open>\<open>NB_ASSERT\<close> of a false condition\<close>
  | Stdout string
  | Stderr string
  | FilePut string                    \<comment> \<open>\<open>fprintf\<close> to the record file\<close>
  | RingMove nb_ts_record_t           \<comment> \<open>\<open>muggle_ma_ring_move\<close> of the slot's record\<close>
  | SockWrite ctx bytes               \<comment> \<open>\<open>muggle_socket_ctx_write\<close>\<close>
  | SockSendto ctx bytes sockaddr     \<comment> \<open>\<open>muggle_socket_ctx_sendto\<close>\<close>
  | SockShutdown ctx                  \<comment> \<open>\<open>muggle_socket_ctx_shutdown\<close>\<close>
  | AsyncConnect                      \<comment> \<open>the detached thread of \<open>nb_tcp_async_connect\<close>\<close>
  | EvloopExit                        \<comment> \<open>\<open>muggle_evloop_exit\<close>\<close>
  | ChanWrite "bytes option"          \<comment> \<open>\<open>muggle_channel_write\<close>, \<open>None\<close> for NULL\<close>
  | Call string "arg list"

section \<open>World and environment\<close>

record world =
  trace :: "effect list"
  n_clk :: nat              \<comment> \<open>clock reads so far\<close>
  n_wr :: nat               \<comment> \<open>socket writes so far\<close>
  n_open :: nat             \<comment> \<open>attempts to open a socket so far\<close>
  ring_slot :: nb_ts_record_t   \<comment> \<open>the slot the last \<open>muggle_ma_ring_alloc\<close> gave\<close>

record env =
  clk :: "nat \<Rightarrow> timespec"        \<comment> \<open>what the \<open>k\<close>-th clock read gives\<close>
  wr :: "nat \<Rightarrow> int"              \<comment> \<open>what the \<open>k\<close>-th write or sendto returns\<close>
  opened :: "nat \<Rightarrow> int option"   \<comment> \<open>the fd of the \<open>k\<close>-th attempt, \<open>None\<close> for
                                   \<open>MUGGLE_INVALID_SOCKET\<close>\<close>

definition emit :: "effect \<Rightarrow> world \<Rightarrow> world" where
  "emit e w = w\<lparr>trace := trace w @ [e]\<rparr>"

definition emits :: "effect list \<Rightarrow> world \<Rightarrow> world" where
  "emits es w = w\<lparr>trace := trace w @ es\<rparr>"

definition read_clock :: "env \<Rightarrow> world \<Rightarrow> timespec \<times> world" where
  "read_clock en w = (clk en (n_clk w), w\<lparr>n_clk := n_clk w + 1\<rparr>)"

definition sock_write :: "env \<Rightarrow> ctx \<Rightarrow> bytes \<Rightarrow> world \<Rightarrow> int \<times> world" where
  "sock_write en c bs w = (wr en (n_wr w), emit (SockWrite c bs) (w\<lparr>n_wr := n_wr w + 1\<rparr>))"

definition sock_sendto :: "env \<Rightarrow> ctx \<Rightarrow> bytes \<Rightarrow> sockaddr \<Rightarrow> world \<Rightarrow> int \<times> world" where
  "sock_sendto en c bs sa w =
     (wr en (n_wr w), emit (SockSendto c bs sa) (w\<lparr>n_wr := n_wr w + 1\<rparr>))"

text \<open>
  \<open>NB_ASSERT\<close> is a macro of the logging library. The model records a failed
  assertion and goes on, which is what a build without assertions does; a build with
  assertions behaves the same on every run without an \<open>AssertFailed\<close>.
\<close>

definition nb_assert :: "bool \<Rightarrow> string \<Rightarrow> world \<Rightarrow> world" where
  "nb_assert b txt w = (if b then w else emit (AssertFailed txt) w)"

definition world0 :: world where
  "world0 = \<lparr>trace = [], n_clk = 0, n_wr = 0, n_open = 0,
     ring_slot = \<lparr>r_ts = \<lparr>tv_sec = 0, tv_nsec = 0\<rparr>, r_user_id = 0, r_id = 0, r_msg_size = 0,
       r_action = ''''\<rparr>\<rparr>"

lemma world0_simps [simp]:
  "trace world0 = []" "n_clk world0 = 0" "n_wr world0 = 0" "n_open world0 = 0"
  by (simp_all add: world0_def)

section \<open>Observations on a trace\<close>

fun committed :: "effect list \<Rightarrow> nb_ts_record_t list" where
  "committed [] = []"
| "committed (RingMove r # es) = r # committed es"
| "committed (_ # es) = committed es"

fun written_to :: "ctx \<Rightarrow> effect list \<Rightarrow> bytes list" where
  "written_to c [] = []"
| "written_to c (SockWrite c' bs # es) =
     (if c' = c then bs # written_to c es else written_to c es)"
| "written_to c (_ # es) = written_to c es"

text \<open>What was written to any connection.\<close>

fun all_written :: "effect list \<Rightarrow> bytes list" where
  "all_written [] = []"
| "all_written (SockWrite c bs # es) = bs # all_written es"
| "all_written (_ # es) = all_written es"

fun all_sent :: "effect list \<Rightarrow> bytes list" where
  "all_sent [] = []"
| "all_sent (SockSendto c bs sa # es) = bs # all_sent es"
| "all_sent (_ # es) = all_sent es"

fun sent_to :: "ctx \<Rightarrow> sockaddr \<Rightarrow> effect list \<Rightarrow> bytes list" where
  "sent_to c sa [] = []"
| "sent_to c sa (SockSendto c' bs sa' # es) =
     (if c' = c \<and> sa' = sa then bs # sent_to c sa es else sent_to c sa es)"
| "sent_to c sa (_ # es) = sent_to c sa es"

text \<open>How often a library function was called.\<close>

fun calls :: "string \<Rightarrow> effect list \<Rightarrow> nat" where
  "calls f [] = 0"
| "calls f (Call g args # es) = (if g = f then Suc (calls f es) else calls f es)"
| "calls f (_ # es) = calls f es"

lemma calls_append [simp]: "calls f (xs @ ys) = calls f xs + calls f ys"
  by (induction f xs rule: calls.induct) auto

fun is_assert_failed :: "effect \<Rightarrow> bool" where
  "is_assert_failed (AssertFailed _) = True"
| "is_assert_failed _ = False"

definition asserts_ok :: "effect list \<Rightarrow> bool" where
  "asserts_ok es \<longleftrightarrow> \<not> list_ex is_assert_failed es"

lemma committed_append [simp]: "committed (xs @ ys) = committed xs @ committed ys"
  by (induction xs rule: committed.induct) auto

lemma written_to_append [simp]: "written_to c (xs @ ys) = written_to c xs @ written_to c ys"
  by (induction c xs rule: written_to.induct) auto

lemma all_sent_append [simp]: "all_sent (xs @ ys) = all_sent xs @ all_sent ys"
  by (induction xs rule: all_sent.induct) auto

lemma all_written_append [simp]: "all_written (xs @ ys) = all_written xs @ all_written ys"
  by (induction xs rule: all_written.induct) auto

lemma sent_to_append [simp]: "sent_to c sa (xs @ ys) = sent_to c sa xs @ sent_to c sa ys"
  by (induction c sa xs rule: sent_to.induct) auto

lemma asserts_ok_append [simp]: "asserts_ok (xs @ ys) \<longleftrightarrow> asserts_ok xs \<and> asserts_ok ys"
  by (simp add: asserts_ok_def)

lemma asserts_ok_Nil [simp]: "asserts_ok []"
  by (simp add: asserts_ok_def)

lemma asserts_ok_Cons [simp]: "asserts_ok (e # es) \<longleftrightarrow> \<not> is_assert_failed e \<and> asserts_ok es"
  by (simp add: asserts_ok_def)

lemma committed_concat [simp]: "committed (concat ess) = concat (map committed ess)"
  by (induction ess) auto

lemma written_to_concat [simp]: "written_to c (concat ess) = concat (map (written_to c) ess)"
  by (induction ess) auto

lemma asserts_ok_concat [simp]: "asserts_ok (concat ess) \<longleftrightarrow> (\<forall>es\<in>set ess. asserts_ok es)"
  by (induction ess) auto

lemma emit_simps [simp]:
  "trace (emit e w) = trace w @ [e]" "n_clk (emit e w) = n_clk w" "n_wr (emit e w) = n_wr w"
  "n_open (emit e w) = n_open w" "ring_slot (emit e w) = ring_slot w"
  by (simp_all add: emit_def)

lemma emits_simps [simp]:
  "trace (emits es w) = trace w @ es" "n_clk (emits es w) = n_clk w" "n_wr (emits es w) = n_wr w"
  "n_open (emits es w) = n_open w" "ring_slot (emits es w) = ring_slot w"
  by (simp_all add: emits_def)

lemma nb_assert_True [simp]: "nb_assert True t w = w"
  by (simp add: nb_assert_def)

lemma nb_assert_simps [simp]:
  "trace (nb_assert b t w) = trace w @ (if b then [] else [AssertFailed t])"
  "n_clk (nb_assert b t w) = n_clk w" "n_wr (nb_assert b t w) = n_wr w"
  by (simp_all add: nb_assert_def)

lemma emits_Nil [simp]: "emits [] w = w"
  by (simp add: emits_def)

lemma emits_emits [simp]: "emits ys (emits xs w) = emits (xs @ ys) w"
  by (simp add: emits_def)

lemma emits_eq: "emits es w = emits es' w \<longleftrightarrow> es = es'"
  by (metis emits_simps(1) same_append_eq)

lemma emit_emits: "emit e w = emits [e] w"
  by (simp add: emits_def emit_def)

end
