(* ===== verification/NbLog.thy ===== *)
theory NbLog
  imports World
begin

text \<open>
  \<open>log.c\<close>. The numbers of the levels are constants of the logging library
  (\<open>NB_LOG_LEVEL_INFO\<close> is \<open>HACLOG_LEVEL_INFO\<close>), so they are a parameter
  \<open>lv\<close> of every definition that uses them. The results rely on two facts:
  different levels have different numbers, without which the \<open>switch\<close> of
  \<open>nb_log_level_to_str\<close> would have a duplicate case and not compile, and a level is
  not negative, which makes -1 usable as the error value.
\<close>

definition levels_ok :: "(log_level \<Rightarrow> int) \<Rightarrow> bool" where
  "levels_ok lv \<longleftrightarrow> inj lv \<and> (\<forall>l. 0 \<le> lv l)"

text \<open>Levels are ordered by severity; numbers that grow with it are admissible.\<close>

fun severity :: "log_level \<Rightarrow> nat" where
  "severity L_TRACE = 0" | "severity L_DEBUG = 1" | "severity L_INFO = 2"
| "severity L_WARNING = 3" | "severity L_ERROR = 4" | "severity L_FATAL = 5"

lemma severity_inj: "severity l = severity l' \<longleftrightarrow> l = l'"
  by (cases l; cases l') simp_all

instantiation log_level :: linorder
begin

definition less_eq_log_level :: "log_level \<Rightarrow> log_level \<Rightarrow> bool" where
  "l \<le> l' \<longleftrightarrow> severity l \<le> severity l'"

definition less_log_level :: "log_level \<Rightarrow> log_level \<Rightarrow> bool" where
  "l < l' \<longleftrightarrow> severity l < severity l'"

instance
  by intro_classes (auto simp: less_eq_log_level_def less_log_level_def severity_inj [symmetric])

end

lemma levels_ok_strict_mono: "strict_mono lv \<Longrightarrow> 0 \<le> lv L_TRACE \<Longrightarrow> levels_ok lv"
proof -
  assume m: "strict_mono lv" and "0 \<le> lv L_TRACE"
  then have "0 \<le> lv l" for l
    using strict_mono_less_eq [OF m, of L_TRACE l] by (simp add: less_eq_log_level_def)
  with strict_mono_imp_inj_on [OF m] show "levels_ok lv" by (simp add: levels_ok_def)
qed

definition nb_log_str_to_level :: "(log_level \<Rightarrow> int) \<Rightarrow> string \<Rightarrow> int" where
  "nb_log_str_to_level lv s =
     (if s = ''TRACE'' \<or> s = ''trace'' then lv L_TRACE
      else if s = ''DEBUG'' \<or> s = ''debug'' then lv L_DEBUG
      else if s = ''INFO'' \<or> s = ''info'' then lv L_INFO
      else if s = ''WARNING'' \<or> s = ''warning'' \<or> s = ''WARN'' \<or> s = ''warn'' then lv L_WARNING
      else if s = ''ERROR'' \<or> s = ''error'' then lv L_ERROR
      else if s = ''FATAL'' \<or> s = ''fatal'' then lv L_FATAL
      else -1)"

definition nb_log_level_to_str :: "(log_level \<Rightarrow> int) \<Rightarrow> int \<Rightarrow> string" where
  "nb_log_level_to_str lv level =
     (if level = lv L_TRACE then ''TRACE''
      else if level = lv L_DEBUG then ''DEBUG''
      else if level = lv L_INFO then ''INFO''
      else if level = lv L_WARNING then ''WARNING''
      else if level = lv L_ERROR then ''ERROR''
      else if level = lv L_FATAL then ''FATAL''
      else ''(unknown)'')"

text \<open>
  The state of the module is the static \<open>s_log_bind_cpu\<close>. What the library answers
  (do the handlers initialise, can the thread be bound) is an argument.
\<close>

definition nb_log_add_console_handler :: "bool \<Rightarrow> int \<Rightarrow> world \<Rightarrow> bool \<times> world" where
  "nb_log_add_console_handler init_ok level w =
     (if \<not> init_ok then (False, emit (Stderr ''failed init console handler'') w)
      else (True, emit (Call ''haclog_context_add_handler'' [AStr ''console'', AInt level]) w))"

definition nb_log_add_file_handle :: "bool \<Rightarrow> int \<Rightarrow> string \<Rightarrow> world \<Rightarrow> bool \<times> world" where
  "nb_log_add_file_handle init_ok level filepath w =
     (if \<not> init_ok then (False, emit (Stderr ''failed init file handler'') w)
      else (True, emit (Call ''haclog_context_add_handler'' [AStr ''file'', AInt level, AStr filepath]) w))"

definition nb_log_bind_cpu :: "int \<Rightarrow> int \<Rightarrow> world \<Rightarrow> world" where
  "nb_log_bind_cpu s_log_bind_cpu ret w =
     (if s_log_bind_cpu < 0 then w
      else let w = emit (Call ''muggle_cpu_set_thread_affinity'' [AInt s_log_bind_cpu]) w
           in if ret \<noteq> 0 then emit (Stderr ''failed log thread bind CPU: err=%s'') w else w)"

definition nb_log_init ::
  "bool \<Rightarrow> bool \<Rightarrow> int \<Rightarrow> int \<Rightarrow> string \<Rightarrow> int \<Rightarrow> int \<Rightarrow> world \<Rightarrow> bool \<times> int \<times> world" where
  "nb_log_init console_ok file_ok console_level file_level filepath log_bind_cpu s_log_bind_cpu w =
     (let (ok1, w1) = (if 0 \<le> console_level then nb_log_add_console_handler console_ok console_level w
                       else (True, w))
      in if \<not> ok1 then (False, s_log_bind_cpu, emit (Stderr ''failed add console log handler'') w1)
      else let (ok2, w2) = (if 0 \<le> file_level then nb_log_add_file_handle file_ok file_level filepath w1
                            else (True, w1))
      in if \<not> ok2 then (False, s_log_bind_cpu, emit (Stderr ''failed add file log handler'') w2)
      else (True, log_bind_cpu, emit (Call ''haclog_backend_run'' []) (emit (Call ''haclog_context_set_before_run_cb'' []) w2)))"

definition nb_log_init_thread_ctx :: "world \<Rightarrow> world" where
  "nb_log_init_thread_ctx w = emit (Call ''haclog_thread_context_init'' []) w"

definition nb_log_cleanup_thread_ctx :: "world \<Rightarrow> world" where
  "nb_log_cleanup_thread_ctx w = emit (Call ''haclog_thread_context_cleanup'' []) w"

section \<open>Lemmas\<close>

definition level_names :: "string list" where
  "level_names = [''TRACE'', ''trace'', ''DEBUG'', ''debug'', ''INFO'', ''info'', ''WARNING'',
     ''warning'', ''WARN'', ''warn'', ''ERROR'', ''error'', ''FATAL'', ''fatal'']"

lemma levels_ok_eq [simp]: "levels_ok lv \<Longrightarrow> lv a = lv b \<longleftrightarrow> a = b"
  by (auto simp: levels_ok_def inj_eq)

lemma levels_ok_nonneg: "levels_ok lv \<Longrightarrow> 0 \<le> lv l"
  by (simp add: levels_ok_def)

lemma if_rangeI: "x \<in> A \<Longrightarrow> y \<in> A \<Longrightarrow> (if b then x else y) \<in> A"
  by simp

lemma str_to_level_range:
  "nb_log_str_to_level lv s \<in> insert (-1) (range lv)"
  unfolding nb_log_str_to_level_def by (intro if_rangeI) (simp_all only: insert_iff rangeI simp_thms)

lemma str_to_level_nonneg:
  "levels_ok lv \<Longrightarrow> nb_log_str_to_level lv s \<noteq> -1 \<Longrightarrow> 0 \<le> nb_log_str_to_level lv s"
  using str_to_level_range [of lv s] by (auto simp: levels_ok_nonneg)

lemma lv_not_error [simp]: "levels_ok lv \<Longrightarrow> lv l \<noteq> -1"
  by (metis levels_ok_nonneg neg_0_le_iff_le not_one_le_zero)

lemma str_to_level_unknown: "s \<notin> set level_names \<Longrightarrow> nb_log_str_to_level lv s = -1"
  by (simp add: level_names_def nb_log_str_to_level_def)

lemma str_to_level_known: "s \<in> set level_names \<Longrightarrow> nb_log_str_to_level lv s \<in> range lv"
  unfolding level_names_def list.set
  by (elim insertE emptyE) (simp_all add: nb_log_str_to_level_def)

lemma str_to_level_error_iff:
  "levels_ok lv \<Longrightarrow> nb_log_str_to_level lv s = -1 \<longleftrightarrow> s \<notin> set level_names"
  using str_to_level_unknown [of s lv] str_to_level_known [of s lv]
  by (metis lv_not_error rangeE)

lemma level_to_str_lv [simp]:
  "levels_ok lv \<Longrightarrow> nb_log_level_to_str lv (lv l) =
     (case l of L_TRACE \<Rightarrow> ''TRACE'' | L_DEBUG \<Rightarrow> ''DEBUG'' | L_INFO \<Rightarrow> ''INFO''
      | L_WARNING \<Rightarrow> ''WARNING'' | L_ERROR \<Rightarrow> ''ERROR'' | L_FATAL \<Rightarrow> ''FATAL'')"
  by (cases l) (simp_all add: nb_log_level_to_str_def)

section \<open>Properties\<close>

text \<open>The text of a level, given back on the command line, selects the same level; a number that is
  no level is printed as unknown; and the conversion fails (with -1) on exactly the texts that
  are not one of the fourteen names.\<close>

theorem log_level_roundtrip:
  assumes "levels_ok lv"
  shows "nb_log_str_to_level lv (nb_log_level_to_str lv (lv l)) = lv l \<and>
    (nb_log_level_to_str lv i = ''(unknown)'' \<longleftrightarrow> i \<notin> range lv) \<and>
    (nb_log_str_to_level lv s = -1 \<longleftrightarrow> s \<notin> set level_names)"
proof (intro conjI)
  show "nb_log_str_to_level lv (nb_log_level_to_str lv (lv l)) = lv l"
    using assms by (cases l) (simp_all add: nb_log_str_to_level_def)
  show "nb_log_level_to_str lv i = ''(unknown)'' \<longleftrightarrow> i \<notin> range lv"
  proof
    assume "nb_log_level_to_str lv i = ''(unknown)''"
    then show "i \<notin> range lv" using assms by (auto split: log_level.splits)
  next
    assume "i \<notin> range lv"
    then have "i \<noteq> lv l" for l by blast
    then show "nb_log_level_to_str lv i = ''(unknown)''" by (simp add: nb_log_level_to_str_def)
  qed
  show "nb_log_str_to_level lv s = -1 \<longleftrightarrow> s \<notin> set level_names"
    using assms by (rule str_to_level_error_iff)
qed

definition demo_lv :: "log_level \<Rightarrow> int" where
  "demo_lv = case_log_level 0 1 2 3 4 5"

lemma demo_levels_ok [simp]: "levels_ok demo_lv"
  by (rule levels_ok_strict_mono)
    (auto simp: strict_mono_def less_log_level_def demo_lv_def split: log_level.splits)

theorem log_level_roundtrip_witness:
  "nb_log_str_to_level demo_lv (nb_log_level_to_str demo_lv 3) = 3 \<and>
   nb_log_str_to_level demo_lv ''warn '' = -1"
  using log_level_roundtrip [OF demo_levels_ok, of L_WARNING 0 "''warn ''"]
  by (simp add: demo_lv_def level_names_def)

end
