(* ===== verification/Cformat.thy ===== *)
theory Cformat
  imports Prelude
begin

text \<open>
  The conversions of \<open>printf\<close> the program uses: \<open>%u\<close>, \<open>%lu\<close>,
  \<open>%llu\<close>, \<open>%d\<close> and \<open>%02d\<close>; a reader for the decimal numbers; and
  splitting of a line at commas, as a reader of the record file does.
\<close>

definition digit :: "nat \<Rightarrow> char" where
  "digit d = char_of (48 + d)"

fun fmt_u :: "nat \<Rightarrow> string" where
  "fmt_u n = (if n < 10 then [digit n] else fmt_u (n div 10) @ [digit (n mod 10)])"

declare fmt_u.simps [simp del]

definition fmt_d :: "int \<Rightarrow> string" where
  "fmt_d i = (if i < 0 then CHR ''-'' # fmt_u (nat (- i)) else fmt_u (nat i))"

text \<open>\<open>%02d\<close>: at least two characters, padded with a zero after the sign.\<close>

definition fmt_02d :: "int \<Rightarrow> string" where
  "fmt_02d i = (if 0 \<le> i \<and> i < 10 then CHR ''0'' # fmt_d i else fmt_d i)"

definition undigit :: "char \<Rightarrow> nat" where
  "undigit c = of_char c - 48"

definition read_u :: "string \<Rightarrow> nat" where
  "read_u s = foldl (\<lambda>n c. 10 * n + undigit c) 0 s"

lemma undigit_digit: "d < 10 \<Longrightarrow> undigit (digit d) = d"
  by (simp add: undigit_def digit_def)

lemma read_u_fmt_u: "read_u (fmt_u n) = n"
proof (induction n rule: fmt_u.induct)
  case (1 n)
  then show ?case
    by (subst fmt_u.simps) (auto simp: read_u_def undigit_digit)
qed

lemma fmt_u_inject: "fmt_u m = fmt_u n \<longleftrightarrow> m = n"
  by (metis read_u_fmt_u)

text \<open>Every character of a number is a decimal digit.\<close>

lemma digit_range: "d < 10 \<Longrightarrow> of_char (digit d) \<in> {48..57 :: nat}"
  by (simp add: digit_def)

lemma fmt_u_digits: "c \<in> set (fmt_u n) \<Longrightarrow> of_char c \<in> {48..57 :: nat}"
proof (induction n rule: fmt_u.induct)
  case (1 n)
  from "1.prems" show ?case
    by (subst (asm) fmt_u.simps)
       (use "1.IH" digit_range [of n] digit_range [of "n mod 10"] in \<open>auto split: if_splits\<close>)
qed

lemma fmt_u_nonempty [simp]: "fmt_u n \<noteq> []"
  by (subst fmt_u.simps) simp

lemma fmt_u_no_special:
  "CHR '','' \<notin> set (fmt_u n)" "CHR 0x0A \<notin> set (fmt_u n)" "NUL \<notin> set (fmt_u n)"
  using fmt_u_digits [of "CHR '',''" n] fmt_u_digits [of "CHR 0x0A" n] fmt_u_digits [of NUL n]
  by auto

lemma fmt_d_no_NUL [simp]: "NUL \<notin> set (fmt_d i)"
  by (auto simp: fmt_d_def fmt_u_no_special)

lemma fmt_02d_no_NUL [simp]: "NUL \<notin> set (fmt_02d i)"
  by (auto simp: fmt_02d_def)

section \<open>Separated fields and lines\<close>

fun split_on :: "char \<Rightarrow> string \<Rightarrow> string list" where
  "split_on x [] = [[]]"
| "split_on x (c # cs) =
     (if c = x then [] # split_on x cs
      else (case split_on x cs of [] \<Rightarrow> [[c]] | f # fs \<Rightarrow> (c # f) # fs))"

abbreviation split_commas :: "string \<Rightarrow> string list" where "split_commas \<equiv> split_on (CHR '','')"
abbreviation split_lines :: "string \<Rightarrow> string list" where "split_lines \<equiv> split_on (CHR 0x0A)"

lemma split_on_not_Nil [simp]: "split_on x s \<noteq> []"
  by (cases s) (auto split: list.split)

lemma split_on_append: "split_on x (s @ x # rest) = split_on x s @ split_on x rest"
  by (induction s) (auto split: list.split)

lemma split_on_single: "x \<notin> set f \<Longrightarrow> split_on x f = [f]"
  by (induction f) auto

lemma split_on_field: "x \<notin> set f \<Longrightarrow> split_on x (f @ x # rest) = f # split_on x rest"
  by (simp add: split_on_append split_on_single)

lemma split_on_empty [simp]: "split_on x s = [[]] \<longleftrightarrow> s = []"
  by (cases s) (auto split: list.split)

text \<open>The text ends in the separator when its last field is empty.\<close>

lemma last_split_on: "last (split_on x s) = [] \<longleftrightarrow> s = [] \<or> last s = x"
  by (induction s) (auto split: list.splits)

lemma split_on_blocks:
  "(\<And>f. f \<in> set fs \<Longrightarrow> x \<notin> set f) \<Longrightarrow> split_on x (concat (map (\<lambda>f. f @ [x]) fs)) = fs @ [[]]"
  by (induction fs) (simp_all add: split_on_field)

end
