(* ===== verification/SysArgs.thy ===== *)
theory SysArgs
  imports NbLog Cformat "HOL-Library.Sublist"
begin

text \<open>
  \<open>sys_args.c\<close>: the options of the command line. \<open>getopt_long\<close> is
  outside of the repository; the loop of \<open>nb_parse_args\<close> runs over the list of
  pairs \<open>(c, optarg)\<close> its calls return, the end of the list standing for -1.
  \<open>muggle_str_toi\<close> and \<open>muggle_str_tou\<close> are parameters too: what they
  leave in the destination, given the text and the value that was there.
  \<open>MUGGLE_SOCKET_ADDR_STRLEN\<close> is the parameter \<open>asl\<close>.
\<close>

section \<open>The arguments\<close>

abbreviation NETBENCH_CPU_FREQ_POWERSAVE :: int where "NETBENCH_CPU_FREQ_POWERSAVE \<equiv> 0"
abbreviation NETBENCH_CPU_FREQ_PERFORMANCE :: int where "NETBENCH_CPU_FREQ_PERFORMANCE \<equiv> 1"

record nb_sys_args_t =
  log_console_level :: int
  log_file_level :: int
  log_path :: string
  log_bind_cpu :: int
  record_path :: string
  record_bind_cpu :: int
  serv_host :: string
  serv_port :: string
  conn_host :: string
  conn_port :: string
  bind_host :: string
  bind_port :: string
  cpu_freq :: int
  cpu_bind :: int
  user_id :: u32
  round_num :: u32
  num_per_round :: u32
  round_interval_ms :: u32
  msg_size :: u32
  cli_wait :: u32

record str_conv =
  str_toi :: "string \<Rightarrow> int \<Rightarrow> int"
  str_tou :: "string \<Rightarrow> u32 \<Rightarrow> u32"

abbreviation OPT_VAL_LOG_CONSOLE :: int where "OPT_VAL_LOG_CONSOLE \<equiv> 1000"
abbreviation OPT_VAL_LOG_FILE :: int where "OPT_VAL_LOG_FILE \<equiv> 1001"
abbreviation OPT_VAL_LOG_PATH :: int where "OPT_VAL_LOG_PATH \<equiv> 1002"
abbreviation OPT_VAL_LOG_BIND_CPU :: int where "OPT_VAL_LOG_BIND_CPU \<equiv> 1003"
abbreviation OPT_VAL_RECORD_PATH :: int where "OPT_VAL_RECORD_PATH \<equiv> 1004"
abbreviation OPT_VAL_RECORD_BIND_CPU :: int where "OPT_VAL_RECORD_BIND_CPU \<equiv> 1005"
abbreviation OPT_VAL_SERVER_HOST :: int where "OPT_VAL_SERVER_HOST \<equiv> 1006"
abbreviation OPT_VAL_SERVER_PORT :: int where "OPT_VAL_SERVER_PORT \<equiv> 1007"
abbreviation OPT_VAL_CONN_HOST :: int where "OPT_VAL_CONN_HOST \<equiv> 1008"
abbreviation OPT_VAL_CONN_PORT :: int where "OPT_VAL_CONN_PORT \<equiv> 1009"
abbreviation OPT_VAL_BIND_HOST :: int where "OPT_VAL_BIND_HOST \<equiv> 1010"
abbreviation OPT_VAL_BIND_PORT :: int where "OPT_VAL_BIND_PORT \<equiv> 1011"
abbreviation OPT_VAL_CPU_FREQ :: int where "OPT_VAL_CPU_FREQ \<equiv> 1012"
abbreviation OPT_VAL_CPU_BIND :: int where "OPT_VAL_CPU_BIND \<equiv> 1013"
abbreviation OPT_VAL_USER_ID :: int where "OPT_VAL_USER_ID \<equiv> 1014"
abbreviation OPT_VAL_ROUND :: int where "OPT_VAL_ROUND \<equiv> 1015"
abbreviation OPT_VAL_NUM_PER_ROUND :: int where "OPT_VAL_NUM_PER_ROUND \<equiv> 1016"
abbreviation OPT_VAL_ROUND_INTERVAL :: int where "OPT_VAL_ROUND_INTERVAL \<equiv> 1017"
abbreviation OPT_VAL_MSG_SIZE :: int where "OPT_VAL_MSG_SIZE \<equiv> 1018"
abbreviation OPT_VAL_CLI_WAIT :: int where "OPT_VAL_CLI_WAIT \<equiv> 1019"
abbreviation OPT_HELP :: int where "OPT_HELP \<equiv> 104"   \<comment> \<open>\<open>'h'\<close>\<close>

section \<open>The table of long options\<close>

text \<open>An entry: the name (\<open>None\<close> is the NULL that ends a table), argument required, value.\<close>

definition long_options :: "(string option \<times> bool \<times> int) list" where
  "long_options =
     [(Some ''help'', False, OPT_HELP),
      (Some ''log.console'', True, OPT_VAL_LOG_CONSOLE),
      (Some ''log.file'', True, OPT_VAL_LOG_FILE),
      (Some ''log.path'', True, OPT_VAL_LOG_PATH),
      (Some ''log.bind_cpu'', True, OPT_VAL_LOG_BIND_CPU),
      (Some ''record.path'', True, OPT_VAL_RECORD_PATH),
      (Some ''record.bind_cpu'', True, OPT_VAL_RECORD_BIND_CPU),
      (Some ''server.host'', True, OPT_VAL_SERVER_HOST),
      (Some ''server.port'', True, OPT_VAL_SERVER_PORT),
      (Some ''conn.host'', True, OPT_VAL_CONN_HOST),
      (Some ''conn.port'', True, OPT_VAL_CONN_PORT),
      (Some ''bind.host'', True, OPT_VAL_BIND_HOST),
      (Some ''bind.port'', True, OPT_VAL_BIND_PORT),
      (Some ''cpu.freq'', True, OPT_VAL_CPU_FREQ),
      (Some ''cpu.bind'', True, OPT_VAL_CPU_BIND),
      (Some ''user.id'', True, OPT_VAL_USER_ID),
      (Some ''round.num'', True, OPT_VAL_ROUND),
      (Some ''round.num_per'', True, OPT_VAL_NUM_PER_ROUND),
      (Some ''round.interval'', True, OPT_VAL_ROUND_INTERVAL),
      (Some ''msg.size'', True, OPT_VAL_MSG_SIZE),
      (Some ''cli.wait'', True, OPT_VAL_CLI_WAIT)]"

section \<open>nb_parse_args\<close>

text \<open>The lines of the usage text; \<open>%s\<close> is the name of the program.\<close>

definition usage_lines :: "string list" where
  "usage_lines =
     [''Usage: %s <options>'',
      ''    -h, --help            show help information'',
      ''      , --log.console     log console level'',
      ''      , --log.file        log file level'',
      ''      , --log.path        log output path'',
      ''      , --log.bind_cpu    log output thread bind cpu'',
      ''      , --record.path     record filepath'',
      ''      , --record.bind_cpu record output thread bind cpu'',
      ''      , --server.host     server host'',
      ''      , --server.port     server port'',
      ''      , --conn.host       conn host'',
      ''      , --conn.port       conn port'',
      ''      , --bind.host       bind host'',
      ''      , --bind.port       bind port'',
      ''      , --cpu.freq        cpu freq: powersave | performance'',
      ''      , --cpu.bind        cpu bind'',
      ''      , --user.id         user id'',
      ''      , --round.num       total round number'',
      ''      , --round.num_per   number order per round'',
      ''      , --round.interval  interval between round (ms)'',
      ''      , --msg.size        network message size (include custom head & data)'',
      ''      , --cli.wait        after connect, wait how many seconds before send'']"

definition str_usage :: string where
  "str_usage = concat (map (\<lambda>l. l @ [CHR 0x0A]) usage_lines)"

definition zero_args :: "nat \<Rightarrow> nb_sys_args_t" where
  "zero_args asl =
     \<lparr>log_console_level = 0, log_file_level = 0, log_path = replicate 128 NUL, log_bind_cpu = 0,
      record_path = replicate 128 NUL, record_bind_cpu = 0,
      serv_host = replicate asl NUL, serv_port = replicate 16 NUL,
      conn_host = replicate asl NUL, conn_port = replicate 16 NUL,
      bind_host = replicate asl NUL, bind_port = replicate 16 NUL,
      cpu_freq = 0, cpu_bind = 0, user_id = 0, round_num = 0, num_per_round = 0,
      round_interval_ms = 0, msg_size = 0, cli_wait = 0\<rparr>"

definition default_args :: "(log_level \<Rightarrow> int) \<Rightarrow> nat \<Rightarrow> nb_sys_args_t" where
  "default_args lv asl =
     (let a = zero_args asl in
      a\<lparr>log_console_level := lv L_INFO, log_file_level := lv L_DEBUG,
        log_path := c_strncpy (log_path a) '''' (128 - 1),
        log_bind_cpu := -1,
        record_path := c_strncpy (record_path a) '''' (128 - 1),
        record_bind_cpu := -1,
        serv_host := c_strncpy (serv_host a) '''' (asl - 1),
        serv_port := c_strncpy (serv_port a) '''' (16 - 1),
        conn_host := c_strncpy (conn_host a) '''' (asl - 1),
        conn_port := c_strncpy (conn_port a) '''' (16 - 1),
        bind_host := c_strncpy (bind_host a) '''' (asl - 1),
        bind_port := c_strncpy (bind_port a) '''' (16 - 1),
        cpu_freq := NETBENCH_CPU_FREQ_POWERSAVE, cpu_bind := -1,
        user_id := 1, round_num := 1000, num_per_round := 1, round_interval_ms := 1,
        msg_size := 0, cli_wait := 0\<rparr>)"

datatype opt_step =
    Continue nb_sys_args_t
  | Reject string nb_sys_args_t      \<comment> \<open>\<open>return false\<close> after a message\<close>
  | ExitSuccess                      \<comment> \<open>\<open>exit(EXIT_SUCCESS)\<close> after the usage text\<close>

definition parse_opt ::
  "(log_level \<Rightarrow> int) \<Rightarrow> nat \<Rightarrow> str_conv \<Rightarrow> int \<Rightarrow> string \<Rightarrow> nb_sys_args_t \<Rightarrow> opt_step" where
  "parse_opt lv asl sc c optarg a =
     (if c = OPT_HELP then ExitSuccess
      else if c = OPT_VAL_LOG_CONSOLE then
        (let level = nb_log_str_to_level lv optarg
         in if level = -1 then Reject ''failed convert '%s' to log level'' a
            else Continue (a\<lparr>log_console_level := level\<rparr>))
      else if c = OPT_VAL_LOG_FILE then
        (let level = nb_log_str_to_level lv optarg
         in if level = -1 then Reject ''failed convert '%s' to log level'' a
            else Continue (a\<lparr>log_file_level := level\<rparr>))
      else if c = OPT_VAL_LOG_PATH then
        Continue (a\<lparr>log_path := c_strncpy (log_path a) optarg (128 - 1)\<rparr>)
      else if c = OPT_VAL_LOG_BIND_CPU then
        Continue (a\<lparr>log_bind_cpu := str_toi sc optarg (log_bind_cpu a)\<rparr>)
      else if c = OPT_VAL_RECORD_PATH then
        Continue (a\<lparr>record_path := c_strncpy (record_path a) optarg (128 - 1)\<rparr>)
      else if c = OPT_VAL_RECORD_BIND_CPU then
        Continue (a\<lparr>record_bind_cpu := str_toi sc optarg (record_bind_cpu a)\<rparr>)
      else if c = OPT_VAL_SERVER_HOST then
        Continue (a\<lparr>serv_host := c_strncpy (serv_host a) optarg (asl - 1)\<rparr>)
      else if c = OPT_VAL_SERVER_PORT then
        Continue (a\<lparr>serv_port := c_strncpy (serv_port a) optarg (16 - 1)\<rparr>)
      else if c = OPT_VAL_CONN_HOST then
        Continue (a\<lparr>conn_host := c_strncpy (conn_host a) optarg (asl - 1)\<rparr>)
      else if c = OPT_VAL_CONN_PORT then
        Continue (a\<lparr>conn_port := c_strncpy (conn_port a) optarg (16 - 1)\<rparr>)
      else if c = OPT_VAL_BIND_HOST then
        Continue (a\<lparr>bind_host := c_strncpy (bind_host a) optarg (asl - 1)\<rparr>)
      else if c = OPT_VAL_BIND_PORT then
        Continue (a\<lparr>bind_port := c_strncpy (bind_port a) optarg (16 - 1)\<rparr>)
      else if c = OPT_VAL_CPU_FREQ then
        (if optarg = ''powersave'' then Continue (a\<lparr>cpu_freq := NETBENCH_CPU_FREQ_POWERSAVE\<rparr>)
         else if optarg = ''performance''
         then Continue (a\<lparr>cpu_freq := NETBENCH_CPU_FREQ_PERFORMANCE\<rparr>)
         else Reject ''invalid cpu freq: cpu_freq=%s'' a)
      else if c = OPT_VAL_CPU_BIND then
        Continue (a\<lparr>cpu_bind := str_toi sc optarg (cpu_bind a)\<rparr>)
      else if c = OPT_VAL_USER_ID then
        Continue (a\<lparr>user_id := str_tou sc optarg (user_id a)\<rparr>)
      else if c = OPT_VAL_ROUND then
        Continue (a\<lparr>round_num := str_tou sc optarg (round_num a)\<rparr>)
      else if c = OPT_VAL_NUM_PER_ROUND then
        Continue (a\<lparr>num_per_round := str_tou sc optarg (num_per_round a)\<rparr>)
      else if c = OPT_VAL_ROUND_INTERVAL then
        Continue (a\<lparr>round_interval_ms := str_tou sc optarg (round_interval_ms a)\<rparr>)
      else if c = OPT_VAL_MSG_SIZE then
        Continue (a\<lparr>msg_size := str_tou sc optarg (msg_size a)\<rparr>)
      else if c = OPT_VAL_CLI_WAIT then
        Continue (a\<lparr>cli_wait := str_tou sc optarg (cli_wait a)\<rparr>)
      else Continue a)"

fun parse_opts ::
  "(log_level \<Rightarrow> int) \<Rightarrow> nat \<Rightarrow> str_conv \<Rightarrow> (int \<times> string) list \<Rightarrow> nb_sys_args_t \<Rightarrow> opt_step" where
  "parse_opts lv asl sc [] a = Continue a"
| "parse_opts lv asl sc ((c, optarg) # rest) a =
     (case parse_opt lv asl sc c optarg a of
        Continue a' \<Rightarrow> parse_opts lv asl sc rest a'
      | Reject m a' \<Rightarrow> Reject m a'
      | ExitSuccess \<Rightarrow> ExitSuccess)"

datatype args_result = ParseTrue nb_sys_args_t | ParseFalse nb_sys_args_t | ParseExit

definition nb_parse_args ::
  "(log_level \<Rightarrow> int) \<Rightarrow> nat \<Rightarrow> str_conv \<Rightarrow> (int \<times> string) list \<Rightarrow> world \<Rightarrow> args_result \<times> world" where
  "nb_parse_args lv asl sc opts w =
     (case parse_opts lv asl sc opts (default_args lv asl) of
        Continue a \<Rightarrow> (ParseTrue a, w)
      | Reject m a \<Rightarrow> (ParseFalse a, emit (Stderr m) w)
      | ExitSuccess \<Rightarrow> (ParseExit, emit (Stdout str_usage) w))"

section \<open>nb_args_fillup_empty and nb_args_output\<close>

record tm =
  tm_year :: int
  tm_mon :: int
  tm_mday :: int
  tm_hour :: int
  tm_min :: int
  tm_sec :: int

definition path_text :: "string \<Rightarrow> string \<Rightarrow> tm \<Rightarrow> string \<Rightarrow> string" where
  "path_text dir name t ext =
     dir @ name @ ''.'' @ fmt_d (tm_year t + 1900) @ fmt_02d (tm_mon t + 1) @ fmt_02d (tm_mday t) @
     ''T'' @ fmt_02d (tm_hour t) @ fmt_02d (tm_min t) @ fmt_02d (tm_sec t) @ ext"

definition nb_args_fillup_empty :: "tm \<Rightarrow> nb_sys_args_t \<Rightarrow> string \<Rightarrow> nb_sys_args_t" where
  "nb_args_fillup_empty t a name =
     (let a = (if cstr (log_path a) = ''''
               then a\<lparr>log_path := c_snprintf (log_path a) 128 (path_text ''logs/'' name t ''.log'')\<rparr>
               else a)
      in if cstr (record_path a) = ''''
         then a\<lparr>record_path :=
                  c_snprintf (record_path a) 128 (path_text ''records/'' name t ''.csv'')\<rparr>
         else a)"

definition out_line :: "string \<Rightarrow> string \<Rightarrow> string" where
  "out_line key val = key @ '': '' @ val @ [CHR 0x0A]"

definition nb_args_output :: "(log_level \<Rightarrow> int) \<Rightarrow> nb_sys_args_t \<Rightarrow> world \<Rightarrow> world" where
  "nb_args_output lv a w = emit (Stdout
     (''-------- input args --------'' @ [CHR 0x0A] @
      out_line ''log.console_level'' (nb_log_level_to_str lv (log_console_level a)) @
      out_line ''log.file_level'' (nb_log_level_to_str lv (log_file_level a)) @
      out_line ''log.path'' (cstr (log_path a)) @
      out_line ''log.bind_cpu'' (fmt_d (log_bind_cpu a)) @
      out_line ''record.path'' (cstr (record_path a)) @
      out_line ''record.bind_cpu'' (fmt_d (record_bind_cpu a)) @
      out_line ''server.host'' (cstr (serv_host a)) @
      out_line ''server.port'' (cstr (serv_port a)) @
      out_line ''conn.host'' (cstr (conn_host a)) @
      out_line ''conn.port'' (cstr (conn_port a)) @
      out_line ''bind.host'' (cstr (bind_host a)) @
      out_line ''bind.port'' (cstr (bind_port a)) @
      out_line ''cpu.freq''
        (if cpu_freq a = NETBENCH_CPU_FREQ_POWERSAVE then ''powersave'' else ''performance'') @
      out_line ''cpu.bind'' (fmt_d (cpu_bind a)) @
      out_line ''user.id'' (fmt_u (unat (user_id a))) @
      out_line ''round.num'' (fmt_u (unat (round_num a))) @
      out_line ''round.num_per'' (fmt_u (unat (num_per_round a))) @
      out_line ''round.interval'' (fmt_u (unat (round_interval_ms a)) @ '' (ms)'') @
      out_line ''msg.size'' (fmt_u (unat (msg_size a))) @
      out_line ''cli.wait'' (fmt_u (unat (cli_wait a)) @ '' (s)'') @
      ''----------------------------'' @ [CHR 0x0A])) w"

section \<open>The invariant of the argument block\<close>

definition args_ok :: "(log_level \<Rightarrow> int) \<Rightarrow> nat \<Rightarrow> nb_sys_args_t \<Rightarrow> bool" where
  "args_ok lv asl a \<longleftrightarrow>
     cbuf_ok 128 (log_path a) \<and> cbuf_ok 128 (record_path a) \<and>
     cbuf_ok asl (serv_host a) \<and> cbuf_ok 16 (serv_port a) \<and>
     cbuf_ok asl (conn_host a) \<and> cbuf_ok 16 (conn_port a) \<and>
     cbuf_ok asl (bind_host a) \<and> cbuf_ok 16 (bind_port a) \<and>
     cpu_freq a \<in> {NETBENCH_CPU_FREQ_POWERSAVE, NETBENCH_CPU_FREQ_PERFORMANCE} \<and>
     log_console_level a \<in> range lv \<and> log_file_level a \<in> range lv"

lemma cbuf_ok_zero: "0 < n \<Longrightarrow> cbuf_ok n (replicate n NUL)"
  by (simp add: cbuf_ok_def)

lemma default_args_ok: "0 < asl \<Longrightarrow> args_ok lv asl (default_args lv asl)"
  by (simp add: args_ok_def default_args_def zero_args_def Let_def c_strncpy_ok cbuf_ok_zero)

lemma level_range:
  "nb_log_str_to_level lv s \<noteq> -1 \<Longrightarrow> nb_log_str_to_level lv s \<in> range lv"
  using str_to_level_range [of lv s] by simp

definition step_all :: "(nb_sys_args_t \<Rightarrow> bool) \<Rightarrow> opt_step \<Rightarrow> bool" where
  "step_all P st = (case st of Continue a \<Rightarrow> P a | Reject m a \<Rightarrow> P a | ExitSuccess \<Rightarrow> True)"

lemma step_all_simps [simp]:
  "step_all P (if b then st1 else st2) = (if b then step_all P st1 else step_all P st2)"
  "step_all P (Continue a) = P a" "step_all P (Reject m a) = P a" "step_all P ExitSuccess"
  by (simp_all add: step_all_def)

lemma parse_opt_step_all:
  "args_ok lv asl a \<Longrightarrow> step_all (args_ok lv asl) (parse_opt lv asl sc c s a)"
  unfolding parse_opt_def Let_def by (simp add: args_ok_def c_strncpy_ok level_range)

lemma parse_opt_args_ok:
  "args_ok lv asl a \<Longrightarrow> parse_opt lv asl sc c s a = Continue a' \<Longrightarrow> args_ok lv asl a'"
  using parse_opt_step_all [of lv asl a sc c s] by simp

lemma parse_opts_step_all:
  "args_ok lv asl a \<Longrightarrow> step_all (args_ok lv asl) (parse_opts lv asl sc evs a)"
proof (induction lv asl sc evs a rule: parse_opts.induct)
  case (2 lv asl sc c s rest a)
  with parse_opt_step_all [of lv asl a sc c s] show ?case
    by (cases "parse_opt lv asl sc c s a") simp_all
qed simp

lemma fillup_args_ok: "args_ok lv asl a \<Longrightarrow> args_ok lv asl (nb_args_fillup_empty t a name)"
  by (simp add: nb_args_fillup_empty_def args_ok_def c_snprintf_ok Let_def)

lemma parse_opt_reject: "parse_opt lv asl sc c s a = Reject m a' \<Longrightarrow> a' = a"
  unfolding parse_opt_def Let_def by (simp split: if_splits)

section \<open>Which options are rejected, what a string option stores\<close>

definition bad_opt :: "int \<times> string \<Rightarrow> bool" where
  "bad_opt e \<longleftrightarrow>
     (fst e \<in> {OPT_VAL_LOG_CONSOLE, OPT_VAL_LOG_FILE} \<and> snd e \<notin> set level_names) \<or>
     (fst e = OPT_VAL_CPU_FREQ \<and> snd e \<notin> {''powersave'', ''performance''})"

definition stops :: "int \<times> string \<Rightarrow> bool" where
  "stops e \<longleftrightarrow> fst e = OPT_HELP \<or> bad_opt e"

lemma parse_opt_cases:
  assumes "levels_ok lv"
  shows "(\<exists>a'. parse_opt lv asl sc c s a = Continue a') \<longleftrightarrow> \<not> stops (c, s)"
    and "parse_opt lv asl sc c s a = ExitSuccess \<longleftrightarrow> c = OPT_HELP"
  using str_to_level_error_iff [OF assms, of s]
  unfolding parse_opt_def Let_def stops_def bad_opt_def by simp_all

lemma parse_opts_find:
  assumes "levels_ok lv"
  shows "case List.find stops evs of
     None \<Rightarrow> (\<exists>a'. parse_opts lv asl sc evs a = Continue a')
   | Some e \<Rightarrow> if fst e = OPT_HELP then parse_opts lv asl sc evs a = ExitSuccess
              else (\<exists>m a'. parse_opts lv asl sc evs a = Reject m a')"
proof (induction evs arbitrary: a)
  case Nil
  show ?case by simp
next
  case (Cons e evs)
  obtain c s where e: "e = (c, s)" by (cases e)
  show ?case
  proof (cases "stops e")
    case False
    then obtain a' where "parse_opt lv asl sc c s a = Continue a'"
      using parse_opt_cases(1) [OF assms] e by blast
    with e have "parse_opts lv asl sc (e # evs) a = parse_opts lv asl sc evs a'" by simp
    with False Cons.IH [of a'] show ?thesis by (simp only: find.simps if_False)
  next
    case True
    with e parse_opt_cases [OF assms, of asl sc c s a] show ?thesis
      by (cases "parse_opt lv asl sc c s a") auto
  qed
qed

text \<open>The string options: the field they set and the size of its buffer.\<close>

definition str_field :: "nat \<Rightarrow> int \<Rightarrow> ((nb_sys_args_t \<Rightarrow> string) \<times> nat) option" where
  "str_field asl = [OPT_VAL_LOG_PATH \<mapsto> (log_path, 128), OPT_VAL_RECORD_PATH \<mapsto> (record_path, 128),
     OPT_VAL_SERVER_HOST \<mapsto> (serv_host, asl), OPT_VAL_SERVER_PORT \<mapsto> (serv_port, 16),
     OPT_VAL_CONN_HOST \<mapsto> (conn_host, asl), OPT_VAL_CONN_PORT \<mapsto> (conn_port, 16),
     OPT_VAL_BIND_HOST \<mapsto> (bind_host, asl), OPT_VAL_BIND_PORT \<mapsto> (bind_port, 16)]"

fun last_opt :: "int \<Rightarrow> (int \<times> string) list \<Rightarrow> string option" where
  "last_opt c [] = None"
| "last_opt c ((c', s) # rest) =
     (case last_opt c rest of Some t \<Rightarrow> Some t | None \<Rightarrow> if c' = c then Some s else None)"

lemma str_field_cases:
  assumes "str_field asl c = Some (get, n)"
  obtains "c = OPT_VAL_LOG_PATH" "get = log_path" "n = 128"
  | "c = OPT_VAL_RECORD_PATH" "get = record_path" "n = 128"
  | "c = OPT_VAL_SERVER_HOST" "get = serv_host" "n = asl"
  | "c = OPT_VAL_SERVER_PORT" "get = serv_port" "n = 16"
  | "c = OPT_VAL_CONN_HOST" "get = conn_host" "n = asl"
  | "c = OPT_VAL_CONN_PORT" "get = conn_port" "n = 16"
  | "c = OPT_VAL_BIND_HOST" "get = bind_host" "n = asl"
  | "c = OPT_VAL_BIND_PORT" "get = bind_port" "n = 16"
  using assms unfolding str_field_def by (auto split: if_splits)

lemma default_args_string:
  "0 < asl \<Longrightarrow> str_field asl c = Some (get, n) \<Longrightarrow> cstr (get (default_args lv asl)) = ''''"
  by (erule str_field_cases)
     (simp_all add: default_args_def zero_args_def Let_def cstr_strncpy [OF cbuf_ok_zero] cstr_id)

lemma args_ok_str_field:
  "args_ok lv asl a \<Longrightarrow> str_field asl c = Some (get, n) \<Longrightarrow> cbuf_ok n (get a)"
  by (erule str_field_cases) (simp_all add: args_ok_def)

lemma parse_opt_str_field_step:
  assumes "str_field asl c = Some (get, n)" and "cbuf_ok n (get a)"
  shows "step_all (\<lambda>a'. cstr (get a') = (if c' = c then take (n - 1) (cstr s) else cstr (get a)))
      (parse_opt lv asl sc c' s a)"
  using assms unfolding parse_opt_def Let_def
  by (elim str_field_cases; hypsubst) (simp_all add: cstr_strncpy)

lemma parse_opt_str_field:
  assumes "str_field asl c = Some (get, n)" and "args_ok lv asl a"
    and "parse_opt lv asl sc c' s a = Continue a'"
  shows "cstr (get a') = (if c' = c then take (n - 1) (cstr s) else cstr (get a))"
  using parse_opt_str_field_step [OF assms(1) args_ok_str_field [OF assms(2,1)], of c' s lv sc] assms(3)
  by simp

lemma parse_opts_str_field:
  "args_ok lv asl a \<Longrightarrow> str_field asl c = Some (get, n) \<Longrightarrow>
   parse_opts lv asl sc evs a = Continue a' \<Longrightarrow>
    cstr (get a') = (case last_opt c evs of Some s \<Rightarrow> take (n - 1) (cstr s) | None \<Rightarrow> cstr (get a))"
proof (induction lv asl sc evs a rule: parse_opts.induct)
  case (1 lv asl sc a)
  then show ?case by simp
next
  case (2 lv asl sc c' s rest a)
  then obtain a1 where a1: "parse_opt lv asl sc c' s a = Continue a1"
    and rest: "parse_opts lv asl sc rest a1 = Continue a'"
    by (auto split: opt_step.splits)
  have ok1: "args_ok lv asl a1"
    using "2.prems"(1) a1 by (rule parse_opt_args_ok)
  from "2.IH" [OF a1 ok1 "2.prems"(2) rest] parse_opt_str_field [OF "2.prems"(2,1) a1]
  show ?case by (simp split: option.splits)
qed

section \<open>Properties\<close>

text \<open>C25: Whatever the command line, the argument block that parsing fills in is well formed, also when it
  is rejected half way, and stays so when empty paths are filled in: every text is terminated
  inside of its buffer, the CPU frequency is one of its two values, the log levels are levels.\<close>

theorem parse_args_well_formed:
  assumes "0 < asl"
  shows "case fst (nb_parse_args lv asl sc opts w) of
      ParseTrue a \<Rightarrow> args_ok lv asl a \<and> args_ok lv asl (nb_args_fillup_empty t a name)
    | ParseFalse a \<Rightarrow> args_ok lv asl a
    | ParseExit \<Rightarrow> True"
  using parse_opts_step_all [OF default_args_ok [OF assms], of lv sc opts] fillup_args_ok
  by (auto simp: nb_parse_args_def split: opt_step.split)

definition demo_sc :: str_conv where
  "demo_sc = \<lparr>str_toi = (\<lambda>s _. int (read_u s)), str_tou = (\<lambda>s _. word_of_nat (read_u s))\<rparr>"

definition demo_opts :: "(int \<times> string) list" where
  "demo_opts = [(OPT_VAL_CONN_PORT, ''1234567890123456789''), (OPT_VAL_MSG_SIZE, ''64''),
     (OPT_VAL_CPU_FREQ, ''performance'')]"

theorem parse_args_well_formed_witness:
  "case fst (nb_parse_args demo_lv 46 demo_sc demo_opts world0) of
     ParseTrue a \<Rightarrow> args_ok demo_lv 46 a | ParseFalse a \<Rightarrow> args_ok demo_lv 46 a | ParseExit \<Rightarrow> True"
  using parse_args_well_formed [where asl = 46 and lv = demo_lv and sc = demo_sc and opts = demo_opts and w = world0]
  by (auto split: args_result.splits)

text \<open>C26: Parsing stops at the first option that asks for help or has a log level or a CPU frequency that does
  not exist: help prints the usage text and leaves the program, the others print an error and
  fail. Without such an option it succeeds and prints nothing.\<close>

theorem parse_args_outcome:
  assumes "levels_ok lv"
  shows "case List.find stops opts of
      None \<Rightarrow> \<exists>a. nb_parse_args lv asl sc opts w = (ParseTrue a, w)
    | Some e \<Rightarrow> if fst e = OPT_HELP
        then nb_parse_args lv asl sc opts w = (ParseExit, emit (Stdout str_usage) w)
        else \<exists>m a. nb_parse_args lv asl sc opts w = (ParseFalse a, emit (Stderr m) w)"
  using parse_opts_find [OF assms, where evs = opts and asl = asl and sc = sc and a = "default_args lv asl"]
  by (auto simp: nb_parse_args_def split: option.splits) blast

theorem parse_args_outcome_witness:
  "nb_parse_args demo_lv 46 demo_sc [(OPT_VAL_LOG_FILE, ''warn''), (OPT_HELP, ''''), (OPT_VAL_LOG_FILE, ''x'')] world0 =
     (ParseExit, emit (Stdout str_usage) world0)"
  using parse_args_outcome [OF demo_levels_ok, where opts = "[(OPT_VAL_LOG_FILE, ''warn''), (OPT_HELP, ''''),
      (OPT_VAL_LOG_FILE, ''x'')]" and asl = 46 and sc = demo_sc and w = world0]
  by (simp add: stops_def bad_opt_def level_names_def)

text \<open>C27: A text option ends up in its own field, the last one given wins, and a text longer than the buffer
  is cut at its size less one; without the option the field is empty.\<close>

theorem parse_args_last_text_wins:
  assumes "0 < asl" and "str_field asl c = Some (get, n)"
    and "nb_parse_args lv asl sc opts w = (ParseTrue a, w')"
  shows "cstr (get a) = (case last_opt c opts of Some s \<Rightarrow> take (n - 1) (cstr s) | None \<Rightarrow> '''')"
proof -
  have "parse_opts lv asl sc opts (default_args lv asl) = Continue a"
    using assms(3) by (auto simp: nb_parse_args_def split: opt_step.splits)
  from parse_opts_str_field [OF default_args_ok [OF assms(1)] assms(2) this]
    default_args_string [OF assms(1,2), of lv]
  show ?thesis by (simp split: option.split)
qed

theorem parse_args_last_text_wins_witness:
  "\<exists>a. nb_parse_args demo_lv 46 demo_sc demo_opts world0 = (ParseTrue a, world0) \<and>
    cstr (conn_port a) = ''123456789012345'' \<and> cstr (bind_port a) = ''''"
proof -
  obtain a where a: "nb_parse_args demo_lv 46 demo_sc demo_opts world0 = (ParseTrue a, world0)"
    by (simp add: nb_parse_args_def demo_opts_def parse_opt_def)
  show ?thesis
    using parse_args_last_text_wins [OF _ _ a, of OPT_VAL_CONN_PORT conn_port 16]
      parse_args_last_text_wins [OF _ _ a, of OPT_VAL_BIND_PORT bind_port 16] a
    by (simp add: str_field_def demo_opts_def cstr_def)
qed

end
