(* ===== verification/NbRecord.thy ===== *)
theory NbRecord
  imports World Cformat
begin

text \<open>
  \<open>record.h\<close> and \<open>record.c\<close>: the file of timestamp records. A thread
  that records takes a slot of its ring (\<open>nb_record_prepare\<close>), fills the fields and
  publishes the slot (\<open>nb_record_commit\<close>); the backend thread of the ring calls back
  with each published record and the callback appends a line to the file. The ring and the
  file system are the environment.
\<close>

section \<open>The module's state\<close>

datatype record_cb = NbRecordDefaultCallback | NbTsRecordCallback

record nb_record_context_t =
  rec_fp :: "string option"        \<comment> \<open>the open file, by its path\<close>
  rec_cb :: record_cb
  rec_bind_cpu :: int              \<comment> \<open>\<open>s_record_bind_cpu\<close>\<close>

definition nb_record_get_instance :: nb_record_context_t where
  "nb_record_get_instance = \<lparr>rec_fp = None, rec_cb = NbRecordDefaultCallback, rec_bind_cpu = -1\<rparr>"

text \<open>What the file system answers.\<close>

record fs_env =
  fs_exists :: "string \<Rightarrow> bool"
  fs_dirname :: "string \<Rightarrow> string option"
  fs_mkdir :: "string \<Rightarrow> int"
  fs_fopen :: "string \<Rightarrow> bool"

section \<open>Operations\<close>

definition nb_record_default_callback :: "nat \<Rightarrow> nb_ts_record_t \<Rightarrow> world \<Rightarrow> world" where
  "nb_record_default_callback tid r w = w"

definition ts_record_line :: "u64 \<Rightarrow> nb_ts_record_t \<Rightarrow> string" where
  "ts_record_line tid r =
     fmt_u (unat tid) @ CHR '','' #
     fmt_u (unat (word_of_int (tv_sec (r_ts r)) :: u64)) @ CHR '','' #
     fmt_u (unat (word_of_int (tv_nsec (r_ts r)) :: u64)) @ CHR '','' #
     fmt_u (unat (r_user_id r)) @ CHR '','' # fmt_u (unat (r_id r)) @ CHR '','' #
     fmt_u (unat (r_msg_size r)) @ CHR '','' # r_action r @ [CHR 0x0A]"

definition nb_ts_record_callback :: "u64 \<Rightarrow> nb_ts_record_t \<Rightarrow> world \<Rightarrow> world" where
  "nb_ts_record_callback tid r w = emit (Call ''fflush'' []) (emit (FilePut (ts_record_line tid r)) w)"

definition nb_record_inner_callback ::
  "nb_record_context_t \<Rightarrow> u64 \<Rightarrow> nb_ts_record_t \<Rightarrow> world \<Rightarrow> world" where
  "nb_record_inner_callback c tid r w =
     (case rec_cb c of
        NbRecordDefaultCallback \<Rightarrow> nb_record_default_callback (unat tid) r w
      | NbTsRecordCallback \<Rightarrow> nb_ts_record_callback tid r w)"

definition nb_record_open_file :: "fs_env \<Rightarrow> string \<Rightarrow> world \<Rightarrow> string option \<times> world" where
  "nb_record_open_file fs filepath w =
     (case fs_dirname fs filepath of
        None \<Rightarrow> (None, emit (Log L_ERROR ''failed get dirname: filepath=%s'') w)
      | Some dirpath \<Rightarrow>
          (let (made, w) =
             (if \<not> fs_exists fs dirpath
              then (let w = emit (Call ''muggle_os_mkdir'' [AStr dirpath]) w
                    in if fs_mkdir fs dirpath \<noteq> 0
                       then (False, emit (Log L_ERROR ''failed mkdir: dirpath=%s'') w)
                       else (True, w))
              else (True, w))
           in if \<not> made then (None, w)
              else if \<not> fs_fopen fs filepath
              then (None, emit (Log L_ERROR ''failed open filepath: filepath=%s'') w)
              else (Some filepath, w)))"

definition nb_record_bind_cpu :: "nb_record_context_t \<Rightarrow> int \<Rightarrow> world \<Rightarrow> world" where
  "nb_record_bind_cpu c ret w =
     (if rec_bind_cpu c < 0 then w
      else let w = emit (Call ''muggle_cpu_set_thread_affinity'' [AInt (rec_bind_cpu c)]) w
           in if ret \<noteq> 0 then emit (Stderr ''failed record thread bind CPU: err=%s'') w else w)"

definition record_header :: string where
  "record_header = ''tid,sec,nsec,uid,id,size,action'' @ [CHR 0x0A]"

definition nb_record_init ::
  "fs_env \<Rightarrow> string \<Rightarrow> int \<Rightarrow> int \<Rightarrow> int \<Rightarrow> record_cb \<Rightarrow> nb_record_context_t \<Rightarrow> world \<Rightarrow>
   bool \<times> nb_record_context_t \<times> world" where
  "nb_record_init fs filepath capacity data_size bind_cpu fn c w =
     (let need_write_head = \<not> fs_exists fs filepath;
          (fp, w) = nb_record_open_file fs filepath w;
          c = c\<lparr>rec_fp := fp\<rparr>
      in if fp = None then (False, c, w)
      else
        let w = (if need_write_head then emits [FilePut record_header, Call ''fflush'' []] w else w);
            c = c\<lparr>rec_cb := fn\<rparr>;
            w = emits [Call ''muggle_ma_ring_ctx_set_capacity'' [AInt capacity],
                       Call ''muggle_ma_ring_ctx_set_data_size'' [AInt data_size],
                       Call ''muggle_ma_ring_ctx_set_callback'' []] w;
            c = c\<lparr>rec_bind_cpu := bind_cpu\<rparr>;
            w = emits [Call ''muggle_ma_ring_ctx_set_before_run_callback'' [],
                       Call ''muggle_ma_ring_backend_run'' []] w
        in (True, c, w))"

definition nb_record_init_thread_ctx :: "world \<Rightarrow> world" where
  "nb_record_init_thread_ctx w = emit (Call ''muggle_ma_ring_thread_ctx_init'' []) w"

definition nb_record_cleanup_thread_ctx :: "world \<Rightarrow> world" where
  "nb_record_cleanup_thread_ctx w = emit (Call ''muggle_ma_ring_thread_ctx_cleanup'' []) w"

text \<open>
  The slot of the ring is the world's \<open>ring_slot\<close>; what it holds after the
  allocation is not known, the model leaves the old record in it.
\<close>

definition nb_record_prepare :: "world \<Rightarrow> world" where
  "nb_record_prepare w = emit (Call ''muggle_ma_ring_alloc'' []) w"

definition nb_record_commit :: "world \<Rightarrow> world" where
  "nb_record_commit w = emit (RingMove (ring_slot w)) w"

text \<open>The macro \<open>NETBENCH_RECORD\<close>, field by field.\<close>

definition netbench_record ::
  "env \<Rightarrow> u32 \<Rightarrow> u32 \<Rightarrow> u32 \<Rightarrow> string \<Rightarrow> world \<Rightarrow> world" where
  "netbench_record en uid seq msgsize str_action w =
     (let w = nb_record_prepare w;
          (t, w) = read_clock en w;
          w = w\<lparr>ring_slot := (ring_slot w)\<lparr>r_ts := t\<rparr>\<rparr>;
          w = w\<lparr>ring_slot := (ring_slot w)\<lparr>r_user_id := uid\<rparr>\<rparr>;
          w = w\<lparr>ring_slot := (ring_slot w)\<lparr>r_id := seq\<rparr>\<rparr>;
          w = w\<lparr>ring_slot := (ring_slot w)\<lparr>r_msg_size := msgsize\<rparr>\<rparr>;
          w = w\<lparr>ring_slot := (ring_slot w)\<lparr>r_action := str_action\<rparr>\<rparr>
      in nb_record_commit w)"

section \<open>Lemmas\<close>

text \<open>The record the macro commits when the clock was read \<open>k\<close> times before.\<close>

definition rec_at :: "env \<Rightarrow> nat \<Rightarrow> u32 \<Rightarrow> u32 \<Rightarrow> u32 \<Rightarrow> string \<Rightarrow> nb_ts_record_t" where
  "rec_at en k uid seq sz act =
     \<lparr>r_ts = clk en k, r_user_id = uid, r_id = seq, r_msg_size = sz, r_action = act\<rparr>"

definition record_effects :: "nb_ts_record_t \<Rightarrow> effect list" where
  "record_effects r = [Call ''muggle_ma_ring_alloc'' [], RingMove r]"

lemma netbench_record_simps [simp]:
  "trace (netbench_record en uid seq sz act w) =
     trace w @ record_effects (rec_at en (n_clk w) uid seq sz act)"
  "n_clk (netbench_record en uid seq sz act w) = n_clk w + 1"
  "n_wr (netbench_record en uid seq sz act w) = n_wr w"
  "n_open (netbench_record en uid seq sz act w) = n_open w"
  "ring_slot (netbench_record en uid seq sz act w) = rec_at en (n_clk w) uid seq sz act"
  by (simp_all add: netbench_record_def nb_record_prepare_def nb_record_commit_def read_clock_def
      rec_at_def record_effects_def Let_def)

lemma record_effects_obs [simp]:
  "committed (record_effects r) = [r]" "written_to c (record_effects r) = []"
  "sent_to c sa (record_effects r) = []"
  "asserts_ok (record_effects r)"
  by (simp_all add: record_effects_def)

lemma nb_record_open_file_frame:
  "nb_record_open_file fs p w = (fp, w') \<Longrightarrow> fp = None \<or> fp = Some p"
  by (auto simp: nb_record_open_file_def Let_def split: option.splits if_splits)

text \<open>The lines of the file are read back field by field.\<close>

lemma u64_of_nonneg: "0 \<le> i \<Longrightarrow> i < 2 ^ 63 \<Longrightarrow> unat (word_of_int i :: u64) = nat i"
proof -
  assume "0 \<le> i" and "i < 2 ^ 63"
  then have "take_bit 64 i = i" by (intro take_bit_int_eq_self) simp_all
  then show ?thesis by (simp add: unsigned_of_int)
qed

lemma ts_record_line_fields:
  assumes "CHR '','' \<notin> set (r_action r)"
  shows "split_commas (butlast (ts_record_line tid r)) =
     [fmt_u (unat tid), fmt_u (unat (word_of_int (tv_sec (r_ts r)) :: u64)),
      fmt_u (unat (word_of_int (tv_nsec (r_ts r)) :: u64)), fmt_u (unat (r_user_id r)),
      fmt_u (unat (r_id r)), fmt_u (unat (r_msg_size r)), r_action r]"
  using assms
  by (simp add: ts_record_line_def butlast_append split_on_field split_on_single fmt_u_no_special)

text \<open>What a trace writes to the record file.\<close>

fun file_puts :: "effect list \<Rightarrow> string list" where
  "file_puts [] = []"
| "file_puts (FilePut s # es) = s # file_puts es"
| "file_puts (_ # es) = file_puts es"

lemma file_puts_append [simp]: "file_puts (xs @ ys) = file_puts xs @ file_puts ys"
  by (induction xs rule: file_puts.induct) auto

definition can_open :: "fs_env \<Rightarrow> string \<Rightarrow> bool" where
  "can_open fs p \<longleftrightarrow>
     (\<exists>d. fs_dirname fs p = Some d \<and> (fs_exists fs d \<or> fs_mkdir fs d = 0) \<and> fs_fopen fs p)"

text \<open>What opening the file does: logging, and at most making the directory.\<close>

definition open_effects :: "fs_env \<Rightarrow> string \<Rightarrow> effect list" where
  "open_effects fs p =
     (case fs_dirname fs p of
        None \<Rightarrow> [Log L_ERROR ''failed get dirname: filepath=%s'']
      | Some d \<Rightarrow>
          (if fs_exists fs d then [] else [Call ''muggle_os_mkdir'' [AStr d]]) @
          (if \<not> fs_exists fs d \<and> fs_mkdir fs d \<noteq> 0 then [Log L_ERROR ''failed mkdir: dirpath=%s'']
           else if \<not> fs_fopen fs p then [Log L_ERROR ''failed open filepath: filepath=%s''] else []))"

lemma open_file_effects:
  "nb_record_open_file fs p w = (if can_open fs p then Some p else None, emits (open_effects fs p) w)"
  by (simp add: nb_record_open_file_def can_open_def open_effects_def emit_emits Let_def split: option.split)

lemma open_effects_cases:
  "e \<in> set (open_effects fs p) \<Longrightarrow> (\<exists>l t. e = Log l t) \<or> (\<exists>d. e = Call ''muggle_os_mkdir'' [AStr d])"
  by (auto simp: open_effects_def split: option.splits if_splits)

lemma file_puts_open [simp]: "file_puts (open_effects fs p) = []"
  by (simp add: open_effects_def split: option.split)

text \<open>How the ring is set up, after the file is open and the header in it.\<close>

definition ring_setup :: "int \<Rightarrow> int \<Rightarrow> effect list" where
  "ring_setup cap sz =
     [Call ''muggle_ma_ring_ctx_set_capacity'' [AInt cap], Call ''muggle_ma_ring_ctx_set_data_size'' [AInt sz],
      Call ''muggle_ma_ring_ctx_set_callback'' [], Call ''muggle_ma_ring_ctx_set_before_run_callback'' [],
      Call ''muggle_ma_ring_backend_run'' []]"

lemma nb_record_init_effects:
  "\<exists>es c'. nb_record_init fs p cap sz cpu fn c w = (can_open fs p, c', emits es w) \<and>
    file_puts es = (if can_open fs p \<and> \<not> fs_exists fs p then [record_header] else []) \<and>
    (if can_open fs p
     then c' = \<lparr>rec_fp = Some p, rec_cb = fn, rec_bind_cpu = cpu\<rparr> \<and>
       (\<exists>pre. es = pre @ ring_setup cap sz \<and> (\<forall>f args. Call f args \<in> set pre \<longrightarrow> f \<in> {''muggle_os_mkdir'', ''fflush''}))
     else c' = c\<lparr>rec_fp := None\<rparr> \<and>
       (\<forall>e \<in> set es. (\<exists>l t. e = Log l t) \<or> (\<exists>d. e = Call ''muggle_os_mkdir'' [AStr d])))"
proof (cases "can_open fs p")
  case True
  let ?pre = "open_effects fs p @ (if fs_exists fs p then [] else [FilePut record_header, Call ''fflush'' []])"
  have "nb_record_init fs p cap sz cpu fn c w =
      (True, \<lparr>rec_fp = Some p, rec_cb = fn, rec_bind_cpu = cpu\<rparr>, emits (?pre @ ring_setup cap sz) w)"
    using True by (simp add: nb_record_init_def open_file_effects ring_setup_def)
  moreover have "f \<in> {''muggle_os_mkdir'', ''fflush''}" if "Call f args \<in> set ?pre" for f args
    using that open_effects_cases [of "Call f args" fs p] by (auto split: if_splits)
  ultimately show ?thesis
    using True by (intro exI [of _ "?pre @ ring_setup cap sz"] exI conjI) (auto simp: ring_setup_def)
next
  case False
  then have "nb_record_init fs p cap sz cpu fn c w = (False, c\<lparr>rec_fp := None\<rparr>, emits (open_effects fs p) w)"
    by (simp add: nb_record_init_def open_file_effects)
  with False open_effects_cases [of _ fs p] show ?thesis
    by (intro exI [of _ "open_effects fs p"] exI [of _ "c\<lparr>rec_fp := None\<rparr>"]) simp
qed

section \<open>Properties\<close>

text \<open>C29: The record module starts exactly when the directory of the file exists or can be made and the file
  opens. The header goes to the file once, when the file did not exist before, and nothing else is
  written; then callback and CPU are noted, and the ring is set up completely before its backend
  starts. A failed start leaves no file open and makes nothing but log lines and the directory: callback, CPU and
  ring are as before.\<close>

theorem nb_record_init_spec:
  "\<exists>es c'. nb_record_init fs p cap sz cpu fn c w = (can_open fs p, c', emits es w) \<and>
    file_puts es = (if can_open fs p \<and> \<not> fs_exists fs p then [record_header] else []) \<and>
    (if can_open fs p
     then c' = \<lparr>rec_fp = Some p, rec_cb = fn, rec_bind_cpu = cpu\<rparr> \<and>
       (\<exists>pre. es = pre @ ring_setup cap sz \<and> (\<forall>f args. Call f args \<in> set pre \<longrightarrow> f \<in> {''muggle_os_mkdir'', ''fflush''}))
     else c' = c\<lparr>rec_fp := None\<rparr> \<and>
       (\<forall>e \<in> set es. (\<exists>l t. e = Log l t) \<or> (\<exists>d. e = Call ''muggle_os_mkdir'' [AStr d])))"
  by (rule nb_record_init_effects)

text \<open>The directory has to be made, and the file opens or not.\<close>

definition demo_fs :: "bool \<Rightarrow> fs_env" where
  "demo_fs ok = \<lparr>fs_exists = (\<lambda>_. False), fs_dirname = (\<lambda>_. Some ''d''), fs_mkdir = (\<lambda>_. 0), fs_fopen = (\<lambda>_. ok)\<rparr>"

theorem nb_record_init_spec_witness:
  "(\<exists>es pre. nb_record_init (demo_fs True) ''d/r'' 8 64 2 NbTsRecordCallback nb_record_get_instance world0 =
      (True, \<lparr>rec_fp = Some ''d/r'', rec_cb = NbTsRecordCallback, rec_bind_cpu = 2\<rparr>, emits es world0) \<and>
    file_puts es = [record_header] \<and> es = pre @ ring_setup 8 64) \<and>
   (\<exists>es. nb_record_init (demo_fs False) ''d/r'' 8 64 2 NbTsRecordCallback nb_record_get_instance world0 =
      (False, nb_record_get_instance, emits es world0) \<and> file_puts es = [])"
proof -
  have "can_open (demo_fs True) ''d/r''" "\<not> can_open (demo_fs False) ''d/r''"
    "nb_record_get_instance\<lparr>rec_fp := None\<rparr> = nb_record_get_instance"
    by (simp_all add: can_open_def demo_fs_def nb_record_get_instance_def)
  moreover have "\<not> fs_exists (demo_fs ok) x" for ok x by (simp add: demo_fs_def)
  ultimately show ?thesis
    using nb_record_init_spec [of "demo_fs True" "''d/r''" 8 64 2 NbTsRecordCallback nb_record_get_instance world0]
      nb_record_init_spec [of "demo_fs False" "''d/r''" 8 64 2 NbTsRecordCallback nb_record_get_instance world0]
    by simp blast
qed

end
