(* ===== verification/NbInit.thy ===== *)
theory NbInit
  imports SysArgs NbRecord
begin

text \<open>
  \<open>nb_init_components\<close> of \<open>init.c\<close>: arguments, logging, records, sockets, in
  this order, each a reason to stop. What the environment answers is an \<open>init_env\<close>.
\<close>

record init_env =
  ie_tm :: tm                \<comment> \<open>the local time\<close>
  ie_console_ok :: bool      \<comment> \<open>\<open>haclog_console_handler_init\<close> returns 0\<close>
  ie_file_ok :: bool         \<comment> \<open>\<open>haclog_file_handler_init\<close> returns 0\<close>
  ie_fs :: fs_env
  ie_socklib :: int          \<comment> \<open>what \<open>muggle_socket_lib_init\<close> returns\<close>

datatype init_result =
    InitTrue nb_sys_args_t nb_record_context_t
  | InitFalse nb_record_context_t
  | InitExit                 \<comment> \<open>\<open>exit(EXIT_SUCCESS)\<close> of the help option\<close>

abbreviation sizeof_ts_record :: int where "sizeof_ts_record \<equiv> 40"

definition nb_init_components ::
  "(log_level \<Rightarrow> int) \<Rightarrow> nat \<Rightarrow> str_conv \<Rightarrow> (int \<times> string) list \<Rightarrow> string \<Rightarrow> init_env \<Rightarrow>
   nb_record_context_t \<Rightarrow> world \<Rightarrow> init_result \<times> world" where
  "nb_init_components lv asl sc opts name ie c w =
     (case nb_parse_args lv asl sc opts w of
        (ParseExit, w) \<Rightarrow> (InitExit, w)
      | (ParseFalse a, w) \<Rightarrow> (InitFalse c, emit (Stderr ''failed parse input arguments'') w)
      | (ParseTrue a, w) \<Rightarrow>
          (let a = nb_args_fillup_empty (ie_tm ie) a name;
               w = nb_args_output lv a w;
               (log_ok, s_log_bind_cpu, w) =
                 nb_log_init (ie_console_ok ie) (ie_file_ok ie) (log_console_level a)
                   (log_file_level a) (cstr (log_path a)) (log_bind_cpu a) (-1) w
           in if \<not> log_ok then (InitFalse c, emit (Stderr ''failed init log'') w)
           else
             let w = nb_log_init_thread_ctx w;
                 (rec_ok, c, w) =
                   nb_record_init (ie_fs ie) (cstr (record_path a)) 2048 sizeof_ts_record
                     (record_bind_cpu a) NbTsRecordCallback c w
             in if \<not> rec_ok
                then (InitFalse c, nb_log_cleanup_thread_ctx (emit (Log L_ERROR ''failed init record'') w))
             else
               let w = emit (Call ''muggle_socket_lib_init'' []) w
               in if ie_socklib ie \<noteq> 0
                  then (InitFalse c,
                        nb_log_cleanup_thread_ctx (emit (Log L_ERROR ''failed init socket library'') w))
                  else (InitTrue a c, emit (Log L_INFO ''muggle network benchmark: '') w)))"

section \<open>Lemmas\<close>

lemma fillup_paths:
  assumes "args_ok lv asl a" and "NUL \<notin> set name"
  shows "cstr (log_path (nb_args_fillup_empty t a name)) =
      (if cstr (log_path a) = '''' then take 127 (path_text ''logs/'' name t ''.log'')
       else cstr (log_path a))"
    and "cstr (record_path (nb_args_fillup_empty t a name)) =
      (if cstr (record_path a) = '''' then take 127 (path_text ''records/'' name t ''.csv'')
       else cstr (record_path a))"
  using assms
  by (simp_all add: nb_args_fillup_empty_def cstr_snprintf path_text_def)

text \<open>The parts leave the logging context of the thread alone.\<close>

definition ctx_neutral :: "effect list \<Rightarrow> bool" where
  "ctx_neutral es \<longleftrightarrow> calls ''haclog_thread_context_init'' es = 0 \<and>
     calls ''haclog_thread_context_cleanup'' es = 0"

lemma ctx_neutral_simps [simp]:
  "ctx_neutral []" "ctx_neutral (Stderr t # es) = ctx_neutral es"
  "ctx_neutral (Stdout t # es) = ctx_neutral es" "ctx_neutral (Log l t # es) = ctx_neutral es"
  "ctx_neutral (FilePut t # es) = ctx_neutral es"
  "ctx_neutral (xs @ ys) \<longleftrightarrow> ctx_neutral xs \<and> ctx_neutral ys"
  "f \<noteq> ''haclog_thread_context_init'' \<Longrightarrow> f \<noteq> ''haclog_thread_context_cleanup'' \<Longrightarrow>
   ctx_neutral (Call f args # es) = ctx_neutral es"
  by (auto simp: ctx_neutral_def)

lemma nb_log_init_neutral:
  "\<exists>ok s es. nb_log_init cok fok cl fl p bc s0 w = (ok, s, emits es w) \<and> ctx_neutral es"
  by (cases "0 \<le> cl"; cases cok; cases "0 \<le> fl"; cases fok)
     (auto simp: nb_log_init_def nb_log_add_console_handler_def nb_log_add_file_handle_def emit_emits emits_eq)

lemma nb_record_init_neutral:
  "\<exists>c' es. (\<forall>w. nb_record_init fs p cap sz cpu fn c w = (can_open fs p, c', emits es w)) \<and> ctx_neutral es \<and>
     rec_fp c' = (if can_open fs p then Some p else None)"
proof -
  have "ctx_neutral (open_effects fs p)"
    by (simp add: open_effects_def split: option.split)
  then show ?thesis
    by (cases "can_open fs p"; cases "fs_exists fs p")
       (simp_all add: nb_record_init_def open_file_effects emits_eq)
qed

section \<open>Properties\<close>

text \<open>What happens once the options are parsed: log, record file and socket library, in this order.\<close>

lemma init_after_options:
  assumes "parse_opts lv asl sc opts (default_args lv asl) = Continue a0"
    and "a = nb_args_fillup_empty (ie_tm ie) a0 name"
  shows "\<exists>ok c' e1 e2 e3. ctx_neutral e1 \<and> ctx_neutral e2 \<and> ctx_neutral e3 \<and>
    rec_fp c' = (if can_open (ie_fs ie) (cstr (record_path a)) then Some (cstr (record_path a)) else None) \<and>
    nb_init_components lv asl sc opts name ie c w =
      (if \<not> ok then (InitFalse c, emits (e1 @ e2 @ [Stderr ''failed init log'']) w)
       else if \<not> can_open (ie_fs ie) (cstr (record_path a))
       then (InitFalse c', emits (e1 @ e2 @ [Call ''haclog_thread_context_init'' []] @ e3 @
               [Log L_ERROR ''failed init record'', Call ''haclog_thread_context_cleanup'' []]) w)
       else if ie_socklib ie \<noteq> 0
       then (InitFalse c', emits (e1 @ e2 @ [Call ''haclog_thread_context_init'' []] @ e3 @
               [Call ''muggle_socket_lib_init'' [], Log L_ERROR ''failed init socket library'',
                Call ''haclog_thread_context_cleanup'' []]) w)
       else (InitTrue a c', emits (e1 @ e2 @ [Call ''haclog_thread_context_init'' []] @ e3 @
               [Call ''muggle_socket_lib_init'' [], Log L_INFO ''muggle network benchmark: '']) w))"
proof -
  obtain e1 where e1: "nb_args_output lv a w = emits e1 w" "ctx_neutral e1"
    by (auto simp: nb_args_output_def emit_emits emits_eq)
  obtain ok s e2 where e2: "nb_log_init (ie_console_ok ie) (ie_file_ok ie) (log_console_level a)
      (log_file_level a) (cstr (log_path a)) (log_bind_cpu a) (-1) (emits e1 w) = (ok, s, emits (e1 @ e2) w)"
    "ctx_neutral e2"
    using nb_log_init_neutral by (metis emits_emits)
  obtain c' e3 where e3: "\<And>w. nb_record_init (ie_fs ie) (cstr (record_path a)) 2048 sizeof_ts_record
      (record_bind_cpu a) NbTsRecordCallback c w = (can_open (ie_fs ie) (cstr (record_path a)), c', emits e3 w)"
    "ctx_neutral e3"
    "rec_fp c' = (if can_open (ie_fs ie) (cstr (record_path a)) then Some (cstr (record_path a)) else None)"
    using nb_record_init_neutral [of "ie_fs ie" "cstr (record_path a)" 2048 sizeof_ts_record
        "record_bind_cpu a" NbTsRecordCallback c] by blast
  show ?thesis
    unfolding nb_init_components_def nb_parse_args_def Let_def
    by (intro exI [of _ ok] exI [of _ c'] exI [of _ e1] exI [of _ e2] exI [of _ e3])
      (simp add: assms(1) assms(2) [symmetric] e1 e2 e3 nb_log_init_thread_ctx_def
        nb_log_cleanup_thread_ctx_def emit_emits)
qed

text \<open>C28: The initialisation leaves the logging context of the thread open when it succeeds, for \<open>main\<close> to
  clean up, and closes it on every failure after it was opened. A success means a well-formed
  argument block with a log path and a record path, and the record file open at that path.\<close>

theorem nb_init_components_spec:
  assumes "levels_ok lv" and "0 < asl" and "NUL \<notin> set name"
  shows "\<exists>r es. nb_init_components lv asl sc opts name ie c w = (r, emits es w) \<and>
    calls ''haclog_thread_context_init'' es = calls ''haclog_thread_context_cleanup'' es +
      (case r of InitTrue _ _ \<Rightarrow> 1 | _ \<Rightarrow> 0) \<and>
    (case r of
       InitTrue a c' \<Rightarrow> args_ok lv asl a \<and> cstr (log_path a) \<noteq> '''' \<and> cstr (record_path a) \<noteq> '''' \<and>
         rec_fp c' = Some (cstr (record_path a)) \<and> ie_socklib ie = 0 \<and>
         List.find stops opts = None
     | _ \<Rightarrow> True)"
proof (cases "parse_opts lv asl sc opts (default_args lv asl)")
  case ExitSuccess
  then show ?thesis
    by (intro exI [of _ InitExit] exI [of _ "[Stdout str_usage]"])
       (simp add: nb_init_components_def nb_parse_args_def emit_emits)
next
  case (Reject m a)
  then show ?thesis
    by (intro exI [of _ "InitFalse c"] exI [of _ "[Stderr m, Stderr ''failed parse input arguments'']"])
       (simp add: nb_init_components_def nb_parse_args_def emit_emits)
next
  case (Continue a0)
  let ?a = "nb_args_fillup_empty (ie_tm ie) a0 name"
  have a0: "args_ok lv asl a0"
    using parse_opts_step_all [OF default_args_ok [OF assms(2)], of lv sc opts] Continue by simp
  have find: "List.find stops opts = None"
    using parse_opts_find [OF assms(1), where evs = opts and asl = asl and sc = sc and a = "default_args lv asl"] Continue
    by (auto split: option.splits if_splits)
  have paths: "args_ok lv asl ?a" "cstr (log_path ?a) \<noteq> ''''" "cstr (record_path ?a) \<noteq> ''''"
    using fillup_args_ok [OF a0] fillup_paths [OF a0 assms(3), of "ie_tm ie"]
    by (auto simp: path_text_def)
  obtain ok c' e1 e2 e3 where neutral: "ctx_neutral e1" "ctx_neutral e2" "ctx_neutral e3"
    and fp: "rec_fp c' = (if can_open (ie_fs ie) (cstr (record_path ?a)) then Some (cstr (record_path ?a)) else None)"
    and start: "nb_init_components lv asl sc opts name ie c w =
      (if \<not> ok then (InitFalse c, emits (e1 @ e2 @ [Stderr ''failed init log'']) w)
       else if \<not> can_open (ie_fs ie) (cstr (record_path ?a))
       then (InitFalse c', emits (e1 @ e2 @ [Call ''haclog_thread_context_init'' []] @ e3 @
               [Log L_ERROR ''failed init record'', Call ''haclog_thread_context_cleanup'' []]) w)
       else if ie_socklib ie \<noteq> 0
       then (InitFalse c', emits (e1 @ e2 @ [Call ''haclog_thread_context_init'' []] @ e3 @
               [Call ''muggle_socket_lib_init'' [], Log L_ERROR ''failed init socket library'',
                Call ''haclog_thread_context_cleanup'' []]) w)
       else (InitTrue ?a c', emits (e1 @ e2 @ [Call ''haclog_thread_context_init'' []] @ e3 @
               [Call ''muggle_socket_lib_init'' [], Log L_INFO ''muggle network benchmark: '']) w))"
    using init_after_options [OF Continue refl, of ie name c w] by blast
  have n: "calls ''haclog_thread_context_init'' e = 0 \<and> calls ''haclog_thread_context_cleanup'' e = 0"
    if "e = e1 \<or> e = e2 \<or> e = e3" for e
    using that neutral by (auto simp: ctx_neutral_def)
  show ?thesis
    unfolding start using n [of e1] n [of e2] n [of e3] paths find fp
    by (cases ok; cases "can_open (ie_fs ie) (cstr (record_path ?a))"; cases "ie_socklib ie = 0")
       (simp_all add: emits_eq)
qed

definition demo_ie :: init_env where
  "demo_ie = \<lparr>ie_tm = \<lparr>tm_year = 124, tm_mon = 5, tm_mday = 20, tm_hour = 9, tm_min = 8, tm_sec = 7\<rparr>,
     ie_console_ok = True, ie_file_ok = True,
     ie_fs = \<lparr>fs_exists = (\<lambda>_. False), fs_dirname = (\<lambda>_. Some ''records''), fs_mkdir = (\<lambda>_. 0),
       fs_fopen = (\<lambda>_. True)\<rparr>, ie_socklib = -1\<rparr>"

theorem nb_init_components_spec_witness:
  "\<exists>r es. nb_init_components demo_lv 46 demo_sc demo_opts ''tcp_client'' demo_ie nb_record_get_instance world0 =
      (r, emits es world0) \<and> (\<forall>a c'. r \<noteq> InitTrue a c') \<and>
    calls ''haclog_thread_context_init'' es = calls ''haclog_thread_context_cleanup'' es"
  using nb_init_components_spec [of demo_lv 46 "''tcp_client''" demo_sc demo_opts demo_ie
      nb_record_get_instance world0]
  by (auto simp: demo_ie_def split: init_result.splits)

end
