(* ===== verification/RecordFile.thy ===== *)
theory RecordFile
  imports NbRecord
begin

text \<open>
  The record file as a whole: what the analysis of a benchmark reads back from it. The backend
  thread of the ring calls back once with every published record, in the order of publication;
  which thread published it is the ring's number.
\<close>

section \<open>The backend and the reader\<close>

fun backend_run :: "nb_record_context_t \<Rightarrow> (u64 \<times> nb_ts_record_t) list \<Rightarrow> world \<Rightarrow> world" where
  "backend_run c [] w = w"
| "backend_run c ((tid, r) # rs) w = backend_run c rs (nb_record_inner_callback c tid r w)"

text \<open>A reader that knows the header and the order of the fields.\<close>

definition read_record :: "string \<Rightarrow> (u64 \<times> nb_ts_record_t) option" where
  "read_record line =
     (case split_commas line of
        [t, s, n, u, i, z, act] \<Rightarrow>
          Some (word_of_nat (read_u t),
            \<lparr>r_ts = \<lparr>tv_sec = int (read_u s), tv_nsec = int (read_u n)\<rparr>, r_user_id = word_of_nat (read_u u),
             r_id = word_of_nat (read_u i), r_msg_size = word_of_nat (read_u z), r_action = act\<rparr>)
      | _ \<Rightarrow> None)"

definition read_record_file :: "string \<Rightarrow> (u64 \<times> nb_ts_record_t) list option" where
  "read_record_file s =
     (let ls = split_lines s
      in if hd ls = ''tid,sec,nsec,uid,id,size,action'' \<and> tl ls \<noteq> [] \<and> last ls = []
         then those (map read_record (butlast (tl ls))) else None)"

section \<open>Lemmas\<close>

definition printable :: "nb_ts_record_t \<Rightarrow> bool" where
  "printable r \<longleftrightarrow> CHR '','' \<notin> set (r_action r) \<and> CHR 0x0A \<notin> set (r_action r) \<and>
     0 \<le> tv_sec (r_ts r) \<and> tv_sec (r_ts r) < 2 ^ 63 \<and> 0 \<le> tv_nsec (r_ts r) \<and> tv_nsec (r_ts r) < 2 ^ 63"

lemma read_record_line: "printable r \<Longrightarrow> read_record (butlast (ts_record_line tid r)) = Some (tid, r)"
  by (simp add: read_record_def printable_def ts_record_line_fields read_u_fmt_u u64_of_nonneg)

lemma ts_record_line_one_line:
  "printable r \<Longrightarrow> CHR 0x0A \<notin> set (butlast (ts_record_line tid r))"
  "ts_record_line tid r = butlast (ts_record_line tid r) @ [CHR 0x0A]"
  by (auto simp: printable_def ts_record_line_def butlast_append fmt_u_no_special)

lemma those_append:
  "those xs = Some as \<Longrightarrow> those ys = Some bs \<Longrightarrow> those (xs @ ys) = Some (as @ bs)"
  by (induction xs arbitrary: as) (auto split: option.splits)

lemma those_Some: "those (map (\<lambda>x. Some (f x)) xs) = Some (map f xs)"
  by (induction xs) simp_all

text \<open>Appending lines to a file that can be read.\<close>

lemma read_record_file_append:
  assumes old: "read_record_file old = Some rs0" and rs: "\<And>tid r. (tid, r) \<in> set rs \<Longrightarrow> printable r"
  shows "read_record_file (old @ concat (map (\<lambda>(tid, r). ts_record_line tid r) rs)) = Some (rs0 @ rs)"
proof -
  let ?f = "\<lambda>(tid, r). butlast (ts_record_line tid r)"
  have ends: "last (split_lines old) = []" "tl (split_lines old) \<noteq> []"
    and h: "hd (split_lines old) = ''tid,sec,nsec,uid,id,size,action''"
    and rd: "those (map read_record (butlast (tl (split_lines old)))) = Some rs0"
    using old by (auto simp: read_record_file_def Let_def split: if_splits)
  from ends have "old \<noteq> []" "last old = CHR 0x0A" using last_split_on [of "CHR 0x0A" old] by auto
  then obtain b where b: "old = b @ [CHR 0x0A]" by (metis append_butlast_last_id)
  have lines: "concat (map (\<lambda>(tid, r). ts_record_line tid r) rs) =
      concat (map (\<lambda>f. f @ [CHR 0x0A]) (map ?f rs))"
    using ts_record_line_one_line(2) by (induction rs) (auto simp del: append_butlast_last_id)
  have "split_lines (concat (map (\<lambda>f. f @ [CHR 0x0A]) (map ?f rs))) = map ?f rs @ [[]]"
    using rs ts_record_line_one_line(1) by (intro split_on_blocks) auto
  with b have s: "split_lines (old @ concat (map (\<lambda>(tid, r). ts_record_line tid r) rs)) =
      split_lines b @ map ?f rs @ [[]]"
    unfolding lines by (simp add: split_on_append)
  have bs: "split_lines old = split_lines b @ [[]]" using split_on_append [of "CHR 0x0A" b "[]"] b by simp
  have "map read_record (map ?f rs) = map Some rs"
    using rs read_record_line by auto
  then have "those (map read_record (map ?f rs)) = Some rs"
    using those_Some [of id rs] by (simp del: map_map)
  with rd h show ?thesis
    unfolding read_record_file_def Let_def s
    by (simp add: bs those_append butlast_append)
qed

lemma read_record_file_header: "read_record_file record_header = Some []"
  using split_on_field [of "CHR 0x0A" "''tid,sec,nsec,uid,id,size,action''" "[]"]
  by (simp add: read_record_file_def record_header_def)

lemma backend_run_lines:
  assumes "rec_cb c = NbTsRecordCallback"
  shows "\<exists>es. backend_run c rs w = emits es w \<and> file_puts es = map (\<lambda>(tid, r). ts_record_line tid r) rs"
proof (induction rs arbitrary: w)
  case Nil
  show ?case by (intro exI [of _ "[]"]) simp
next
  case (Cons x rs)
  obtain tid r where x: "x = (tid, r)" by fastforce
  let ?es = "[FilePut (ts_record_line tid r), Call ''fflush'' []]"
  obtain es where "backend_run c rs (emits ?es w) = emits es (emits ?es w)"
    "file_puts es = map (\<lambda>(tid, r). ts_record_line tid r) rs" using Cons.IH by blast
  then show ?case
    by (intro exI [of _ "?es @ es"])
      (simp add: x nb_record_inner_callback_def assms nb_ts_record_callback_def emit_emits)
qed

section \<open>Properties\<close>

text \<open>C30: The record file reads back as what was recorded: whether it is new or holds the records
  of earlier runs, after the start of the module and any number of published records, the file
  has its header once, as its first line, and gives back the old records and then the new ones,
  in order, each with its thread, time, user id, sequence number, size and action.\<close>

theorem record_file_readback:
  assumes "can_open fs p"
    and "if fs_exists fs p then read_record_file old = Some rs0 else old = [] \<and> rs0 = []"
    and "\<And>tid r. (tid, r) \<in> set rs \<Longrightarrow> printable r"
  shows "\<exists>c' es es'. nb_record_init fs p cap sz cpu NbTsRecordCallback c w = (True, c', emits es w) \<and>
    backend_run c' rs (emits es w) = emits es' (emits es w) \<and>
    read_record_file (old @ concat (file_puts (es @ es'))) = Some (rs0 @ rs)"
proof -
  obtain es c' where i: "nb_record_init fs p cap sz cpu NbTsRecordCallback c w = (True, c', emits es w)"
    "file_puts es = (if fs_exists fs p then [] else [record_header])" "rec_cb c' = NbTsRecordCallback"
    using nb_record_init_effects [of fs p cap sz cpu NbTsRecordCallback c w] assms(1) by auto
  obtain es' where b: "backend_run c' rs (emits es w) = emits es' (emits es w)"
    "file_puts es' = map (\<lambda>(tid, r). ts_record_line tid r) rs"
    using backend_run_lines [OF i(3)] by blast
  have "read_record_file (old @ concat (file_puts es)) = Some rs0"
    using assms(2) read_record_file_header by (simp add: i(2) split: if_splits)
  from read_record_file_append [OF this assms(3)] b(2)
  have "read_record_file (old @ concat (file_puts (es @ es'))) = Some (rs0 @ rs)" by simp
  with i(1) b(1) show ?thesis by blast
qed


definition demo_fs :: fs_env where
  "demo_fs = \<lparr>fs_exists = (\<lambda>p. p = ''d'' \<or> p = ''d/r''), fs_dirname = (\<lambda>_. Some ''d''),
     fs_mkdir = (\<lambda>_. 0), fs_fopen = (\<lambda>_. True)\<rparr>"

definition demo_record :: "u32 \<Rightarrow> nb_ts_record_t" where
  "demo_record i = \<lparr>r_ts = \<lparr>tv_sec = 17, tv_nsec = 5\<rparr>, r_user_id = 1, r_id = i, r_msg_size = 16,
     r_action = ''server.rcv''\<rparr>"

theorem record_file_readback_witness:
  "\<exists>c' es es'. nb_record_init demo_fs ''d/r'' 1024 40 (- 1) NbTsRecordCallback nb_record_get_instance world0 =
      (True, c', emits es world0) \<and>
    backend_run c' [(9, demo_record 42), (8, demo_record 3)] (emits es world0) = emits es' (emits es world0) \<and>
    read_record_file (record_header @ ts_record_line 9 (demo_record 41) @ concat (file_puts (es @ es'))) =
      Some [(9, demo_record 41), (9, demo_record 42), (8, demo_record 3)]"
proof -
  have p: "printable (demo_record i)" for i by (simp add: printable_def demo_record_def)
  have "read_record_file (record_header @ ts_record_line 9 (demo_record 41)) = Some [(9, demo_record 41)]"
    using read_record_file_append [OF read_record_file_header, of "[(9, demo_record 41)]"] p by simp
  then have old: "if fs_exists demo_fs ''d/r''
      then read_record_file (record_header @ ts_record_line 9 (demo_record 41)) = Some [(9, demo_record 41)]
      else record_header @ ts_record_line 9 (demo_record 41) = [] \<and> [(9 :: u64, demo_record 41)] = []"
    by (simp add: demo_fs_def)
  have "can_open demo_fs ''d/r''" by (simp add: demo_fs_def can_open_def)
  from record_file_readback [OF this old, of "[(9, demo_record 42), (8, demo_record 3)]"] p
  show ?thesis by simp blast
qed

end
