(* ===== verification/Framing.thy ===== *)
theory Framing
  imports MsgStruct
begin

text \<open>
  The abstract specification of the message layer of a TCP connection: a byte string is
  cut into frames, each a header followed by as many bytes as the header says, and a rest
  that is not a whole frame. What the receivers rely on is the interface \<open>framer\<close>:
  nothing is lost or reordered, and the frames do not depend on how the network cuts the
  stream into chunks.
\<close>

section \<open>The interface\<close>

fun feed_chunks ::
  "(bytes \<Rightarrow> bytes list \<times> bytes) \<Rightarrow> bytes \<Rightarrow> bytes list \<Rightarrow> bytes list \<times> bytes" where
  "feed_chunks split pend [] = ([], pend)"
| "feed_chunks split pend (c # cs) =
     (let (fs, r) = split (pend @ c); (gs, r') = feed_chunks split r cs in (fs @ gs, r'))"

locale framer =
  fixes split :: "bytes \<Rightarrow> bytes list \<times> bytes"
  assumes split_concat: "concat (fst (split bs)) @ snd (split bs) = bs"
    and split_rest: "split (snd (split bs)) = ([], snd (split bs))"
    and split_append: "split (xs @ ys) =
      (fst (split xs) @ fst (split (snd (split xs) @ ys)), snd (split (snd (split xs) @ ys)))"
begin

lemma split_Nil: "snd (split []) = []" "concat (fst (split [])) = []"
  using split_concat [of "[]"] by simp_all

text \<open>Chunk by chunk or all at once: the same frames and the same rest.\<close>

lemma feed_whole: "split pend = ([], pend) \<Longrightarrow> feed_chunks split pend cs = split (pend @ concat cs)"
proof (induction cs arbitrary: pend)
  case Nil
  then show ?case by simp
next
  case (Cons c cs)
  have "feed_chunks split (snd (split (pend @ c))) cs = split (snd (split (pend @ c)) @ concat cs)"
    using split_rest by (rule Cons.IH)
  then show ?case
    using split_append [of "pend @ c" "concat cs"] by (simp add: case_prod_beta)
qed

lemma feed_chunking:
  "split pend = ([], pend) \<Longrightarrow> concat cs = concat ds \<Longrightarrow>
   feed_chunks split pend cs = feed_chunks split pend ds"
  by (simp add: feed_whole)

end

section \<open>Frames with a length in the header\<close>

definition frame_len :: "bytes \<Rightarrow> nat" where
  "frame_len bs = sizeof_hdr + unat (payload_len (dec_hdr bs))"

function split_frames :: "bytes \<Rightarrow> bytes list \<times> bytes" where
  "split_frames bs =
     (if length bs < sizeof_hdr \<or> length bs < frame_len bs then ([], bs)
      else let (fs, r) = split_frames (drop (frame_len bs) bs)
           in (take (frame_len bs) bs # fs, r))"
  by pat_completeness auto
termination
  by (relation "measure length") (auto simp: frame_len_def)

declare split_frames.simps [simp del]

definition is_frame :: "bytes \<Rightarrow> bool" where
  "is_frame f \<longleftrightarrow> sizeof_hdr \<le> length f \<and> length f = frame_len f"

definition incomplete :: "bytes \<Rightarrow> bool" where
  "incomplete r \<longleftrightarrow> length r < sizeof_hdr \<or> length r < frame_len r"

lemma un32_append: "4 \<le> length bs \<Longrightarrow> un32 (bs @ r) = un32 bs"
  by (induction bs rule: un32.induct) auto

lemma dec_hdr_append: "sizeof_hdr \<le> length bs \<Longrightarrow> dec_hdr (bs @ r) = dec_hdr bs"
  by (simp add: dec_hdr_def un32_append)

lemma dec_hdr_take: "sizeof_hdr \<le> n \<Longrightarrow> n \<le> length bs \<Longrightarrow> dec_hdr (take n bs) = dec_hdr bs"
  using dec_hdr_append [of "take n bs" "drop n bs"] by simp

lemma frame_len_append: "sizeof_hdr \<le> length bs \<Longrightarrow> frame_len (bs @ r) = frame_len bs"
  by (simp add: frame_len_def dec_hdr_append)

lemma split_incomplete: "incomplete bs \<Longrightarrow> split_frames bs = ([], bs)"
  by (subst split_frames.simps) (simp add: incomplete_def)

lemma split_frame: "is_frame f \<Longrightarrow>
  split_frames (f @ bs) = (f # fst (split_frames bs), snd (split_frames bs))"
  by (subst split_frames.simps) (auto simp: is_frame_def frame_len_append case_prod_beta)

lemma not_incomplete_frame:
  "\<not> incomplete bs \<Longrightarrow> is_frame (take (frame_len bs) bs)"
proof -
  assume "\<not> incomplete bs"
  then have "8 \<le> frame_len bs" "frame_len bs \<le> length bs"
    by (auto simp: incomplete_def frame_len_def)
  then show ?thesis by (simp add: is_frame_def frame_len_def dec_hdr_take)
qed

text \<open>Induction along the frames of a byte string.\<close>

lemma frames_induct [case_names rest frame]:
  assumes rest: "\<And>bs. incomplete bs \<Longrightarrow> P bs"
    and frame: "\<And>f bs. is_frame f \<Longrightarrow> P bs \<Longrightarrow> P (f @ bs)"
  shows "P bs"
proof (induction bs rule: measure_induct_rule [where f = length])
  case (less bs)
  show ?case
  proof (cases "incomplete bs")
    case True
    then show ?thesis by (rule rest)
  next
    case False
    then have "length (drop (frame_len bs) bs) < length bs"
      by (auto simp: incomplete_def frame_len_def)
    then have "P (take (frame_len bs) bs @ drop (frame_len bs) bs)"
      by (intro frame not_incomplete_frame [OF False] less.IH)
    then show ?thesis by simp
  qed
qed

interpretation frames: framer split_frames
proof unfold_locales
  fix bs :: bytes
  show "concat (fst (split_frames bs)) @ snd (split_frames bs) = bs"
    by (induction bs rule: frames_induct) (simp_all add: split_incomplete split_frame)
  show "split_frames (snd (split_frames bs)) = ([], snd (split_frames bs))"
    by (induction bs rule: frames_induct) (simp_all add: split_incomplete split_frame)
next
  fix xs ys :: bytes
  show "split_frames (xs @ ys) =
      (fst (split_frames xs) @ fst (split_frames (snd (split_frames xs) @ ys)),
       snd (split_frames (snd (split_frames xs) @ ys)))"
    by (induction xs rule: frames_induct) (simp_all add: split_incomplete split_frame)
qed

lemma split_frames_are_frames: "f \<in> set (fst (split_frames bs)) \<Longrightarrow> is_frame f"
  by (induction bs rule: frames_induct) (auto simp: split_incomplete split_frame)

lemma split_frames_length: "f \<in> set (fst (split_frames bs)) \<Longrightarrow> length f \<le> length bs"
  by (induction bs rule: frames_induct) (auto simp: split_incomplete split_frame)

lemma split_rest_incomplete: "incomplete (snd (split_frames bs))"
  by (induction bs rule: frames_induct) (auto simp: split_incomplete split_frame)

text \<open>Frames written one after the other are read back one after the other.\<close>

lemma split_concat_frames:
  "(\<And>f. f \<in> set fs \<Longrightarrow> is_frame f) \<Longrightarrow> incomplete r \<Longrightarrow> split_frames (concat fs @ r) = (fs, r)"
  by (induction fs) (simp_all add: split_incomplete split_frame)

lemma incomplete_Nil [simp]: "incomplete []"
  by (simp add: incomplete_def)

lemma is_frame_enc:
  "payload_len h = word_of_nat (length p) \<Longrightarrow> length p < 4294967296 \<Longrightarrow> is_frame (enc_hdr h @ p)"
  by (simp add: is_frame_def frame_len_def hdr.dec_enc unat_of_nat_u32)

end
