(* ===== verification/Session.thy ===== *)
theory Session
  imports World Framing
begin

text \<open>
  The TCP session of \<open>session.c\<close>: a receive buffer and the loop that cuts the
  byte stream into messages. The buffer is \<open>muggle_bytes_buffer_t\<close> of mugglec, a
  parameter of the model: a record of its operations, with the documented contract
  \<open>bytes_buffer_ok\<close>. The operations take and give C ints.
\<close>

abbreviation NET_BENCH_TCP_RECV_UNIT_SIZE :: nat where "NET_BENCH_TCP_RECV_UNIT_SIZE \<equiv> 65536"
abbreviation NET_BENCH_TCP_BUF_SIZE :: nat where "NET_BENCH_TCP_BUF_SIZE \<equiv> 2097152"

section \<open>The buffer interface\<close>

text \<open>
  A pointer into the buffer is given by the bytes at it: \<open>bb_reader_fc\<close> returns the
  memory from the pointer to the end of the contiguous region, at least the \<open>n\<close> bytes
  asked for. \<open>bb_writer_fc\<close> returns the position of the free region and
  \<open>bb_writer_move_n\<close> takes the bytes the socket read put there.
\<close>

record 'b bytes_buffer =
  bb_init :: "nat \<Rightarrow> 'b"                         \<comment> \<open>\<open>muggle_bytes_buffer_init\<close>\<close>
  bb_over :: "nat \<Rightarrow> 'b"                         \<comment> \<open>struct set up over given memory\<close>
  bb_writer_fc :: "'b \<Rightarrow> int \<Rightarrow> nat option"
  bb_writer_move_n :: "'b \<Rightarrow> nat \<Rightarrow> bytes \<Rightarrow> 'b option"
  bb_readable :: "'b \<Rightarrow> int"
  bb_fetch :: "'b \<Rightarrow> int \<Rightarrow> bytes option"
  bb_reader_fc :: "'b \<Rightarrow> int \<Rightarrow> bytes option"
  bb_reader_move :: "'b \<Rightarrow> int \<Rightarrow> 'b option"
  bb_read :: "'b \<Rightarrow> int \<Rightarrow> (bytes \<times> 'b) option"

definition bytes_buffer_ok :: "'b bytes_buffer \<Rightarrow> ('b \<Rightarrow> bool) \<Rightarrow> ('b \<Rightarrow> bytes) \<Rightarrow> bool" where
  "bytes_buffer_ok ops ok data \<longleftrightarrow>
     (\<forall>n. 0 < n \<longrightarrow> ok (bb_init ops n) \<and> data (bb_init ops n) = [] \<and>
                  ok (bb_over ops n) \<and> data (bb_over ops n) = []) \<and>
     (\<forall>b k p bs. ok b \<and> bb_writer_fc ops b k = Some p \<and> bs \<noteq> [] \<and> int (length bs) \<le> k \<longrightarrow>
        (\<exists>b'. bb_writer_move_n ops b p bs = Some b' \<and> ok b' \<and> data b' = data b @ bs)) \<and>
     (\<forall>b. ok b \<longrightarrow> bb_readable ops b = int (length (data b)) \<and> length (data b) < 2147483648) \<and>
     (\<forall>b n. ok b \<longrightarrow> bb_fetch ops b (int n) =
        (if n \<le> length (data b) then Some (take n (data b)) else None)) \<and>
     (\<forall>b n bs. ok b \<and> bb_reader_fc ops b (int n) = Some bs \<longrightarrow>
        n \<le> length (data b) \<and> n \<le> length bs \<and> take n bs = take n (data b)) \<and>
     (\<forall>b n. ok b \<and> n \<le> length (data b) \<longrightarrow>
        (\<exists>b'. bb_reader_move ops b (int n) = Some b' \<and> ok b' \<and> data b' = drop n (data b))) \<and>
     (\<forall>b n. ok b \<and> n \<le> length (data b) \<longrightarrow>
        (\<exists>b'. bb_read ops b (int n) = Some (take n (data b), b') \<and> ok b' \<and>
              data b' = drop n (data b)))"

lemma bb_newD:
  assumes "bytes_buffer_ok ops ok data" and "0 < n"
  shows "ok (bb_init ops n)" "data (bb_init ops n) = []"
    "ok (bb_over ops n)" "data (bb_over ops n) = []"
  using assms unfolding bytes_buffer_ok_def by blast+

lemma bb_writeD:
  "bytes_buffer_ok ops ok data \<Longrightarrow> ok b \<Longrightarrow> bb_writer_fc ops b k = Some p \<Longrightarrow> bs \<noteq> [] \<Longrightarrow>
   int (length bs) \<le> k \<Longrightarrow>
   \<exists>b'. bb_writer_move_n ops b p bs = Some b' \<and> ok b' \<and> data b' = data b @ bs"
  unfolding bytes_buffer_ok_def by blast

lemma bb_readableD:
  assumes "bytes_buffer_ok ops ok data" and "ok b"
  shows "bb_readable ops b = int (length (data b))" "length (data b) < 2147483648"
  using assms unfolding bytes_buffer_ok_def by blast+

lemma bb_fetchD:
  "bytes_buffer_ok ops ok data \<Longrightarrow> ok b \<Longrightarrow> bb_fetch ops b (int n) =
     (if n \<le> length (data b) then Some (take n (data b)) else None)"
  unfolding bytes_buffer_ok_def by blast

lemma bb_fcD:
  "bytes_buffer_ok ops ok data \<Longrightarrow> ok b \<Longrightarrow> bb_reader_fc ops b (int n) = Some bs \<Longrightarrow>
   n \<le> length (data b) \<and> n \<le> length bs \<and> take n bs = take n (data b)"
  unfolding bytes_buffer_ok_def by blast

lemma bb_moveD:
  "bytes_buffer_ok ops ok data \<Longrightarrow> ok b \<Longrightarrow> n \<le> length (data b) \<Longrightarrow>
   \<exists>b'. bb_reader_move ops b (int n) = Some b' \<and> ok b' \<and> data b' = drop n (data b)"
  unfolding bytes_buffer_ok_def by blast

lemma bb_readD:
  "bytes_buffer_ok ops ok data \<Longrightarrow> ok b \<Longrightarrow> n \<le> length (data b) \<Longrightarrow>
   \<exists>b'. bb_read ops b (int n) = Some (take n (data b), b') \<and> ok b' \<and> data b' = drop n (data b)"
  unfolding bytes_buffer_ok_def by blast

section \<open>The session\<close>

text \<open>The functions of the programs whose address \<open>nb_tcp_session_new\<close> is given.\<close>

datatype fn_nb_msg_callback =
    Fn_tcp_client_handle_message | Fn_tcp_server_handle_message | Fn_tcp_upstream_handle_message

record 'b nb_tcp_session_t =
  session_cb :: fn_nb_msg_callback   \<comment> \<open>\<open>cb\<close>\<close>
  mem_res :: bool              \<comment> \<open>\<open>mem_res.data\<close> is not NULL\<close>
  bytes_buf :: 'b
  msg_len_limit :: u32
  role :: u32

text \<open>
  \<open>huge_ok\<close>: does \<open>muggle_memory_res_init\<close> get its huge page;
  \<open>junk\<close>: the role field is not set here and holds what \<open>malloc\<close> returned.
\<close>

definition nb_tcp_session_new ::
  "'b bytes_buffer \<Rightarrow> fn_nb_msg_callback \<Rightarrow> bool \<Rightarrow> u32 \<Rightarrow> world \<Rightarrow> 'b nb_tcp_session_t \<times> world" where
  "nb_tcp_session_new ops cb huge_ok junk w =
     (let w = emits [Call ''malloc'' [],
                     Call ''muggle_memory_res_init'' [ANat NET_BENCH_TCP_BUF_SIZE]] w
      in if huge_ok
         then (\<lparr>session_cb = cb, mem_res = True, bytes_buf = bb_over ops NET_BENCH_TCP_BUF_SIZE,
                msg_len_limit = 0, role = junk\<rparr>, w)
         else (\<lparr>session_cb = cb, mem_res = False, bytes_buf = bb_init ops NET_BENCH_TCP_BUF_SIZE,
                msg_len_limit = 0, role = junk\<rparr>,
               emits [Log L_WARNING ''failed init memory resource with huge page, use memory from malloc'',
                      Call ''muggle_bytes_buffer_init'' [ANat NET_BENCH_TCP_BUF_SIZE]] w))"

definition nb_tcp_session_delete :: "'b nb_tcp_session_t \<Rightarrow> world \<Rightarrow> world" where
  "nb_tcp_session_delete s w =
     (let w = (if mem_res s then emit (Call ''muggle_memory_res_destroy'' []) w
               else emit (Call ''muggle_bytes_buffer_destroy'' []) w)
      in emit (Call ''free'' []) w)"

section \<open>nb_tcp_session_on_msg\<close>

text \<open>
  The first loop fills the buffer. \<open>rds\<close> is what the calls of
  \<open>muggle_socket_ctx_read\<close> return: the bytes of each successful read; an empty
  element, or the end of the list, is a result that is not positive. The result says
  whether the handler returned from inside of the loop, and the reads that were not made.
\<close>

fun read_loop ::
  "'b bytes_buffer \<Rightarrow> ctx \<Rightarrow> bytes list \<Rightarrow> 'b \<Rightarrow> world \<Rightarrow> bool \<times> bytes list \<times> 'b \<times> world" where
  "read_loop ops c rds b w =
     (case bb_writer_fc ops b (int NET_BENCH_TCP_RECV_UNIT_SIZE) of
        None \<Rightarrow> (False, rds, b, emit (Log L_ERROR ''bytes buffer full'') w)
      | Some p \<Rightarrow>
          (case rds of
             [] \<Rightarrow> (False, [], b, w)
           | bs # rest \<Rightarrow>
               if bs = [] then (False, rest, b, w)
               else case bb_writer_move_n ops b p bs of
                      None \<Rightarrow> (True, rest, b,
                        emits [AssertFailed ''0'', Log L_FATAL ''bytes buffer inner error!'',
                               SockShutdown c] w)
                    | Some b' \<Rightarrow> read_loop ops c rest b' w))"

declare read_loop.simps [simp del]

text \<open>
  The callback gets the memory at the message header (\<open>hdr\<close>; the payload starts 8
  bytes later) and the payload length; \<open>None\<close> is an access outside of the memory it
  was given. The second loop cuts messages off the buffer. It is a
  \<open>partial_function\<close>: \<open>None\<close> is a loop that does not end, \<open>Some None\<close>
  an access outside of an allocation.
\<close>

type_synonym msg_callback = "world \<Rightarrow> bytes \<Rightarrow> u32 \<Rightarrow> world option"

definition call_cb :: "msg_callback \<Rightarrow> bytes \<Rightarrow> world \<Rightarrow> world option" where
  "call_cb cb mem w = (if length mem < sizeof_hdr then None else cb w mem (payload_len (dec_hdr mem)))"

datatype 'b parse_result =
    Break "'b nb_tcp_session_t" world       \<comment> \<open>\<open>break\<close>\<close>
  | OutOfBounds                             \<comment> \<open>access outside of an allocation\<close>
  | Again "'b nb_tcp_session_t" world       \<comment> \<open>the next iteration\<close>

definition parse_step ::
  "'b bytes_buffer \<Rightarrow> msg_callback \<Rightarrow> ctx \<Rightarrow> 'b nb_tcp_session_t \<Rightarrow> world \<Rightarrow> 'b parse_result" where
  "parse_step ops cb c s w =
     (case bb_fetch ops (bytes_buf s) (int sizeof_hdr) of
        None \<Rightarrow> Break s w
      | Some hb \<Rightarrow>
          (let n = 8 + payload_len (dec_hdr hb)
           in if 0 < msg_len_limit s \<and> msg_len_limit s < n
              then Break s (emits [Log L_ERROR ''invalid message length: msg_id=%u, len=%u, msg_len_limit=%u'', SockShutdown c] w)
              else if word_of_int (bb_readable ops (bytes_buf s)) < n then Break s w
              else (case bb_reader_fc ops (bytes_buf s) (to_int n) of
                 Some mem \<Rightarrow>
                   (case call_cb cb mem w of
                      None \<Rightarrow> OutOfBounds
                    | Some w' \<Rightarrow>
                        (case bb_reader_move ops (bytes_buf s) (to_int n) of
                           None \<Rightarrow> Break s (emits [AssertFailed ''0'',
                             Log L_FATAL ''failed buffer reader move'', SockShutdown c] w')
                         | Some b' \<Rightarrow> Again (s\<lparr>bytes_buf := b'\<rparr>) w'))
               | None \<Rightarrow>
                   (let w = emit (Call ''malloc'' [ANat (unat n)]) w
                    in case bb_read ops (bytes_buf s) (to_int n) of
                      None \<Rightarrow> Break s (emits [AssertFailed ''0'',
                        Log L_FATAL ''failed buffer read'', SockShutdown c] w)
                    | Some (mem, b') \<Rightarrow>
                        (case call_cb cb mem w of
                           None \<Rightarrow> OutOfBounds
                         | Some w' \<Rightarrow> Again (s\<lparr>bytes_buf := b'\<rparr>) (emit (Call ''free'' []) w'))))))"

partial_function (option) parse_loop ::
  "'b bytes_buffer \<Rightarrow> msg_callback \<Rightarrow> ctx \<Rightarrow> 'b nb_tcp_session_t \<Rightarrow> world \<Rightarrow>
   ('b nb_tcp_session_t \<times> world) option option" where
  "parse_loop ops cb c s w =
     (case parse_step ops cb c s w of
        Break s' w' \<Rightarrow> Some (Some (s', w'))
      | OutOfBounds \<Rightarrow> Some None
      | Again s' w' \<Rightarrow> parse_loop ops cb c s' w')"

text \<open>\<open>call\<close> runs the function that a callback pointer of the session refers to.\<close>

definition nb_tcp_session_on_msg ::
  "'b bytes_buffer \<Rightarrow> (fn_nb_msg_callback \<Rightarrow> msg_callback) \<Rightarrow> ctx \<Rightarrow> bytes list \<Rightarrow> 'b nb_tcp_session_t \<Rightarrow> world \<Rightarrow>
   (bytes list \<times> 'b nb_tcp_session_t \<times> world) option option" where
  "nb_tcp_session_on_msg ops call c rds s w =
     (let (returned, rest, b, w) = read_loop ops c rds (bytes_buf s) w;
          s = s\<lparr>bytes_buf := b\<rparr>
      in if returned then Some (Some (rest, s, w))
         else map_option (map_option (\<lambda>(s, w). (rest, s, w))) (parse_loop ops (call (session_cb s)) c s w))"

section \<open>The receive loop\<close>

lemma read_loop_correct:
  assumes bb: "bytes_buffer_ok ops ok data"
  shows "ok b \<Longrightarrow> (\<And>bs. bs \<in> set rds \<Longrightarrow> length bs \<le> NET_BENCH_TCP_RECV_UNIT_SIZE) \<Longrightarrow>
    \<exists>us rest b' w'. read_loop ops c rds b w = (False, rest, b', w') \<and> ok b' \<and>
      data b' = data b @ concat us \<and> (rds = us @ rest \<or> rds = us @ [] # rest) \<and>
      (w' = w \<or> w' = emit (Log L_ERROR ''bytes buffer full'') w)"
proof (induction rds arbitrary: b)
  case Nil
  show ?case
    by (subst read_loop.simps) (use Nil in \<open>auto split: option.split\<close>)
next
  case (Cons bs rds)
  show ?case
  proof (cases "bb_writer_fc ops b (int NET_BENCH_TCP_RECV_UNIT_SIZE)")
    case None
    then show ?thesis
      by (subst read_loop.simps) (use Cons.prems(1) in \<open>auto intro: exI [of _ "[]"]\<close>)
  next
    case (Some p)
    show ?thesis
    proof (cases "bs = []")
      case True
      with Some show ?thesis
        by (subst read_loop.simps) (use Cons.prems(1) in \<open>auto intro: exI [of _ "[]"]\<close>)
    next
      case False
      obtain b1 where b1: "bb_writer_move_n ops b p bs = Some b1" "ok b1" "data b1 = data b @ bs"
        using bb_writeD [OF bb Cons.prems(1) Some False] Cons.prems(2) [of bs] by auto
      have "\<And>x. x \<in> set rds \<Longrightarrow> length x \<le> NET_BENCH_TCP_RECV_UNIT_SIZE"
        using Cons.prems(2) by simp
      then obtain us rest b' w' where IH: "read_loop ops c rds b1 w = (False, rest, b', w')" "ok b'"
        "data b' = data b1 @ concat us" "rds = us @ rest \<or> rds = us @ [] # rest"
        "w' = w \<or> w' = emit (Log L_ERROR ''bytes buffer full'') w"
        using Cons.IH [OF b1(2)] by blast
      have "read_loop ops c (bs # rds) b w = (False, rest, b', w')"
        by (subst read_loop.simps) (simp add: Some [simplified] False b1(1) IH(1))
      with IH b1(3) show ?thesis
        by (intro exI [of _ "bs # us"] exI [of _ rest] exI [of _ b'] exI [of _ w']) auto
    qed
  qed
qed

section \<open>The message loop\<close>

text \<open>A header whose length plus the header size does not fit 32 bits.\<close>

definition hdr_wraps :: "bytes \<Rightarrow> bool" where
  "hdr_wraps bs \<longleftrightarrow> sizeof_hdr \<le> length bs \<and> 4294967288 \<le> unat (payload_len (dec_hdr bs))"

lemma frame_len_word:
  "unat (payload_len (dec_hdr bs)) < 4294967288 \<Longrightarrow>
   unat (8 + payload_len (dec_hdr bs)) = frame_len bs"
  by (simp add: frame_len_def unat_add_no_wrap)

lemma parse_loop_incomplete:
  assumes bb: "bytes_buffer_ok ops ok data" and ok: "ok (bytes_buf s)" and lim: "msg_len_limit s = 0"
    and inc: "incomplete (data (bytes_buf s))" and nw: "\<not> hdr_wraps (data (bytes_buf s))"
  shows "parse_loop ops cb c s w = Some (Some (s, w))"
proof (cases "length (data (bytes_buf s)) < sizeof_hdr")
  case True
  then show ?thesis
    by (subst parse_loop.simps) (simp add: parse_step_def bb_fetchD [OF bb ok, of 8, simplified])
next
  case False
  let ?d = "data (bytes_buf s)"
  have hd: "dec_hdr (take 8 ?d) = dec_hdr ?d" using False by (simp add: dec_hdr_take)
  have small: "unat (payload_len (dec_hdr ?d)) < 4294967288"
    using nw False by (simp add: hdr_wraps_def)
  have lt: "length ?d < frame_len ?d" using inc False by (simp add: incomplete_def)
  have "unat (word_of_int (bb_readable ops (bytes_buf s)) :: u32) = length ?d"
    using bb_readableD [OF bb ok] by (simp add: unat_of_nat_u32)
  then have "(word_of_int (bb_readable ops (bytes_buf s)) :: u32) < 8 + payload_len (dec_hdr ?d)"
    using lt frame_len_word [OF small] by (simp add: word_less_nat_alt)
  then show ?thesis
    using False
    by (subst parse_loop.simps)
       (simp add: parse_step_def bb_fetchD [OF bb ok, of 8, simplified] hd lim Let_def)
qed

text \<open>A callback that depends on its frame only and stays inside of it.\<close>

definition frame_cb :: "msg_callback \<Rightarrow> (bytes \<Rightarrow> world \<Rightarrow> world) \<Rightarrow> bytes \<Rightarrow> bool" where
  "frame_cb cb g f \<longleftrightarrow>
     (\<forall>w mem. length f \<le> length mem \<and> take (length f) mem = f \<longrightarrow>
        cb w mem (payload_len (dec_hdr f)) = Some (g f w))"

lemma call_cb_frame:
  assumes "frame_cb cb g f" and "is_frame f" and "length f \<le> length mem" and "take (length f) mem = f"
  shows "call_cb cb mem w = Some (g f w)"
proof -
  have "dec_hdr mem = dec_hdr f"
    using assms(2-4) dec_hdr_append [of f "drop (length f) mem"]
    by (metis append_take_drop_id is_frame_def)
  with assms show ?thesis by (auto simp: call_cb_def frame_cb_def is_frame_def)
qed

lemma parse_step_frame:
  assumes bb: "bytes_buffer_ok ops ok data" and ok: "ok (bytes_buf s)" and lim: "msg_len_limit s = 0"
    and d: "data (bytes_buf s) = f @ bs" and f: "is_frame f"
  shows "parse_step ops cb c s w =
    (case bb_reader_fc ops (bytes_buf s) (int (length f)) of
       Some mem \<Rightarrow>
         (case call_cb cb mem w of
            None \<Rightarrow> OutOfBounds
          | Some w' \<Rightarrow>
              (case bb_reader_move ops (bytes_buf s) (int (length f)) of
                 None \<Rightarrow> Break s (emits [AssertFailed ''0'',
                   Log L_FATAL ''failed buffer reader move'', SockShutdown c] w')
               | Some b' \<Rightarrow> Again (s\<lparr>bytes_buf := b'\<rparr>) w'))
     | None \<Rightarrow>
         (let w = emit (Call ''malloc'' [ANat (length f)]) w
          in case bb_read ops (bytes_buf s) (int (length f)) of
            None \<Rightarrow> Break s (emits [AssertFailed ''0'',
              Log L_FATAL ''failed buffer read'', SockShutdown c] w)
          | Some (mem, b') \<Rightarrow>
              (case call_cb cb mem w of
                 None \<Rightarrow> OutOfBounds
               | Some w' \<Rightarrow> Again (s\<lparr>bytes_buf := b'\<rparr>) (emit (Call ''free'' []) w'))))"
proof -
  let ?b = "bytes_buf s" and ?n = "8 + payload_len (dec_hdr f)"
  have len: "length (f @ bs) < 2147483648" "8 \<le> length f" "length f = frame_len f"
    using bb_readableD(2) [OF bb ok] d f by (simp_all add: is_frame_def)
  have hd8: "dec_hdr (take 8 (f @ bs)) = dec_hdr f"
    using len(2) dec_hdr_append [of f bs] by (simp add: dec_hdr_take)
  have un: "unat ?n = length f"
    using len by (subst frame_len_word) (simp_all add: frame_len_def)
  have ti: "to_int ?n = int (length f)"
    using len(1) un to_int_small [of ?n] by simp
  have rd: "unat (word_of_int (bb_readable ops ?b) :: u32) = length (f @ bs)"
    using bb_readableD [OF bb ok] len(1) unat_of_nat_u32 [of "length (f @ bs)"]
    by (simp add: d del: length_append of_nat_add)
  have ge: "\<not> (word_of_int (bb_readable ops ?b) :: u32) < ?n"
    using un rd by (simp add: word_less_nat_alt)
  have "bb_fetch ops ?b 8 = Some (take 8 (f @ bs))"
    using bb_fetchD [OF bb ok, of 8] len(2) by (simp add: d)
  then obtain hb where "bb_fetch ops ?b 8 = Some hb" "dec_hdr hb = dec_hdr f"
    using hd8 by blast
  then show ?thesis
    by (simp add: parse_step_def lim ge ti un Let_def cong del: option.case_cong_weak)
qed

text \<open>
  A message that is not contiguous in the buffer is copied: \<open>cp\<close> says so of message \<open>f\<close>. The
  copy is allocated before the callback runs and freed after it.
\<close>

definition deliver :: "(bytes \<Rightarrow> world \<Rightarrow> world) \<Rightarrow> bool \<times> bytes \<Rightarrow> world \<Rightarrow> world" where
  "deliver g = (\<lambda>(cp, f) w.
     if cp then emit (Call ''free'' []) (g f (emit (Call ''malloc'' [ANat (length f)]) w)) else g f w)"

lemma parse_loop_frame:
  assumes bb: "bytes_buffer_ok ops ok data" and ok: "ok (bytes_buf s)" and lim: "msg_len_limit s = 0"
    and d: "data (bytes_buf s) = f @ bs" and f: "is_frame f" and cb: "frame_cb cb g f"
  shows "\<exists>b' cp. parse_loop ops cb c s w = parse_loop ops cb c (s\<lparr>bytes_buf := b'\<rparr>) (deliver g (cp, f) w) \<and>
    ok b' \<and> data b' = bs"
proof -
  let ?b = "bytes_buf s"
  note step = parse_step_frame [OF bb ok lim d f]
  obtain b1 where b1: "bb_reader_move ops ?b (int (length f)) = Some b1" "ok b1" "data b1 = bs"
    using bb_moveD [OF bb ok, of "length f"] by (auto simp: d)
  obtain b2 where b2: "bb_read ops ?b (int (length f)) = Some (f, b2)" "ok b2" "data b2 = bs"
    using bb_readD [OF bb ok, of "length f"] by (auto simp: d)
  show ?thesis
  proof (cases "bb_reader_fc ops ?b (int (length f))")
    case None
    have "call_cb cb f w = Some (g f w)" for w by (rule call_cb_frame [OF cb f]) simp_all
    then have "parse_loop ops cb c s w = parse_loop ops cb c (s\<lparr>bytes_buf := b2\<rparr>) (deliver g (True, f) w)"
      by (subst parse_loop.simps) (simp add: step None b2(1) deliver_def)
    with b2 show ?thesis by blast
  next
    case (Some mem)
    have "length f \<le> length mem" "take (length f) mem = f"
      using bb_fcD [OF bb ok Some] by (simp_all add: d)
    then have "call_cb cb mem w = Some (g f w)" by (rule call_cb_frame [OF cb f])
    then have "parse_loop ops cb c s w = parse_loop ops cb c (s\<lparr>bytes_buf := b1\<rparr>) (deliver g (False, f) w)"
      by (subst parse_loop.simps) (simp add: step Some b1(1) deliver_def)
    with b1 show ?thesis by blast
  qed
qed

text \<open>A callback that reads past a message copied out of the buffer.\<close>

lemma parse_loop_out_of_bounds:
  assumes bb: "bytes_buffer_ok ops ok data" and ok: "ok (bytes_buf s)" and lim: "msg_len_limit s = 0"
    and d: "data (bytes_buf s) = f @ bs" and f: "is_frame f"
    and fc: "bb_reader_fc ops (bytes_buf s) (int (length f)) = None" and cb: "\<And>w. call_cb cb f w = None"
  shows "parse_loop ops cb c s w = Some None"
proof -
  obtain b2 where "bb_read ops (bytes_buf s) (int (length f)) = Some (f, b2)"
    using bb_readD [OF bb ok, of "length f"] by (auto simp: d)
  then show ?thesis
    by (subst parse_loop.simps) (simp add: parse_step_frame [OF bb ok lim d f] fc cb)
qed

lemma parse_loop_frames:
  assumes bb: "bytes_buffer_ok ops ok data"
  shows "ok (bytes_buf s) \<Longrightarrow> msg_len_limit s = 0 \<Longrightarrow> data (bytes_buf s) = d \<Longrightarrow>
    \<not> hdr_wraps (snd (split_frames d)) \<Longrightarrow> (\<And>f. f \<in> set (fst (split_frames d)) \<Longrightarrow> frame_cb cb g f) \<Longrightarrow>
    \<exists>b' ms. parse_loop ops cb c s w = Some (Some (s\<lparr>bytes_buf := b'\<rparr>, fold (deliver g) ms w)) \<and>
      map snd ms = fst (split_frames d) \<and> ok b' \<and> data b' = snd (split_frames d)"
proof (induction d arbitrary: s w rule: frames_induct)
  case (rest d)
  then have "parse_loop ops cb c s w = Some (Some (s, w))"
    by (intro parse_loop_incomplete [OF bb]) (simp_all add: split_incomplete)
  with rest show ?case
    by (intro exI [of _ "bytes_buf s"] exI [of _ "[]"]) (simp add: split_incomplete)
next
  case (frame f d)
  have cb: "frame_cb cb g f"
    using frame.prems(5) [of f] frame.hyps by (simp add: split_frame)
  obtain b1 cp where b1: "parse_loop ops cb c s w =
      parse_loop ops cb c (s\<lparr>bytes_buf := b1\<rparr>) (deliver g (cp, f) w)" "ok b1" "data b1 = d"
    using parse_loop_frame [OF bb frame.prems(1-3) frame.hyps cb] by blast
  obtain b' ms where "parse_loop ops cb c (s\<lparr>bytes_buf := b1\<rparr>) (deliver g (cp, f) w) =
      Some (Some ((s\<lparr>bytes_buf := b1\<rparr>)\<lparr>bytes_buf := b'\<rparr>, fold (deliver g) ms (deliver g (cp, f) w)))"
    "map snd ms = fst (split_frames d)" "ok b'" "data b' = snd (split_frames d)"
    using frame.IH [of "s\<lparr>bytes_buf := b1\<rparr>" "deliver g (cp, f) w"] frame.prems(2,4,5) frame.hyps b1
    by (auto simp: split_frame)
  with b1 frame.hyps show ?case
    by (intro exI [of _ b'] exI [of _ "(cp, f) # ms"]) (simp add: split_frame)
qed

section \<open>Well-formed streams\<close>

text \<open>
  A message of the protocol: header and data block at least, and a length that fits 32 bits.
  A stream is well formed when what can be cut off it are messages and the rest does not
  start with a header whose length wraps.
\<close>

definition valid_frame :: "bytes \<Rightarrow> bool" where
  "valid_frame f \<longleftrightarrow> is_frame f \<and> 16 \<le> length f \<and> length f < 4294967296"

definition wf_stream :: "bytes \<Rightarrow> bool" where
  "wf_stream d \<longleftrightarrow>
     (\<forall>f \<in> set (fst (split_frames d)). 16 \<le> length f) \<and> \<not> hdr_wraps (snd (split_frames d))"

lemma proper_prefix_of_frame:
  assumes "valid_frame f" and "f @ x = d @ e" and "length d < length f"
  shows "incomplete d \<and> \<not> hdr_wraps d"
proof (cases "length d < 8")
  case True
  then show ?thesis by (simp add: incomplete_def hdr_wraps_def)
next
  case False
  obtain t where f: "f = d @ t"
    using assms(2,3) unfolding append_eq_append_conv2 by auto
  then have "dec_hdr f = dec_hdr d" using False by (simp add: dec_hdr_append)
  then show ?thesis
    using assms(1,3) False
    by (auto simp: valid_frame_def is_frame_def incomplete_def hdr_wraps_def frame_len_def)
qed

lemma wf_stream_prefix:
  "(\<And>f. f \<in> set fs \<Longrightarrow> valid_frame f) \<Longrightarrow> concat fs = d @ e \<Longrightarrow> wf_stream d"
proof (induction fs arbitrary: d)
  case Nil
  then show ?case by (simp add: wf_stream_def split_incomplete hdr_wraps_def)
next
  case (Cons f fs)
  have f: "valid_frame f" using Cons.prems(1) by simp
  have eq: "f @ concat fs = d @ e" using Cons.prems(2) by simp
  show ?case
  proof (cases "length d < length f")
    case True
    then show ?thesis
      using proper_prefix_of_frame [OF f eq] by (simp add: wf_stream_def split_incomplete)
  next
    case False
    then obtain d' where d: "d = f @ d'" "concat fs = d' @ e"
      using eq unfolding append_eq_append_conv2 by auto
    have "wf_stream d'" using Cons.prems(1) d(2) by (intro Cons.IH) auto
    with f show ?thesis
      by (auto simp: wf_stream_def d(1) split_frame valid_frame_def)
  qed
qed

section \<open>The handler\<close>

lemma on_msg_frames:
  assumes bb: "bytes_buffer_ok ops ok data" and ok: "ok (bytes_buf s)" and lim: "msg_len_limit s = 0"
    and rds: "\<And>bs. bs \<in> set rds \<Longrightarrow> length bs \<le> NET_BENCH_TCP_RECV_UNIT_SIZE"
    and wf: "\<And>k. wf_stream (data (bytes_buf s) @ concat (take k rds))"
    and cb: "\<And>f. is_frame f \<Longrightarrow> 16 \<le> length f \<Longrightarrow> length f < 2147483648 \<Longrightarrow> frame_cb (call (session_cb s)) g f"
  shows "\<exists>us rest b' w0 ms.
    nb_tcp_session_on_msg ops call c rds s w =
      Some (Some (rest, s\<lparr>bytes_buf := b'\<rparr>, fold (deliver g) ms w0)) \<and>
    map snd ms = fst (split_frames (data (bytes_buf s) @ concat us)) \<and>
    ok b' \<and> data b' = snd (split_frames (data (bytes_buf s) @ concat us)) \<and>
    (\<forall>f \<in> set (fst (split_frames (data (bytes_buf s) @ concat us))). valid_frame f) \<and>
    (rds = us @ rest \<or> rds = us @ [] # rest) \<and>
    (w0 = w \<or> w0 = emit (Log L_ERROR ''bytes buffer full'') w)"
proof -
  obtain us rest b1 w0 where rl: "read_loop ops c rds (bytes_buf s) w = (False, rest, b1, w0)"
    "ok b1" "data b1 = data (bytes_buf s) @ concat us" "rds = us @ rest \<or> rds = us @ [] # rest"
    "w0 = w \<or> w0 = emit (Log L_ERROR ''bytes buffer full'') w"
    using read_loop_correct [OF bb ok rds] by blast
  let ?d = "data (bytes_buf s) @ concat us"
  have "us = take (length us) rds" using rl(4) by auto
  then have wfd: "wf_stream ?d" using wf [of "length us"] by simp
  have "length ?d < 2147483648" using bb_readableD(2) [OF bb rl(2)] rl(3) by simp
  then have fr: "is_frame f \<and> 16 \<le> length f \<and> length f < 2147483648"
    if "f \<in> set (fst (split_frames ?d))" for f
    using that wfd split_frames_are_frames [OF that] split_frames_length [OF that]
    by (simp add: wf_stream_def)
  then have vf: "\<forall>f \<in> set (fst (split_frames ?d)). valid_frame f"
    by (force simp: valid_frame_def)
  have "frame_cb (call (session_cb s)) g f" if "f \<in> set (fst (split_frames ?d))" for f
    using fr [OF that] cb by blast
  then obtain b' ms where "parse_loop ops (call (session_cb s)) c (s\<lparr>bytes_buf := b1\<rparr>) w0 =
      Some (Some (s\<lparr>bytes_buf := b1, bytes_buf := b'\<rparr>, fold (deliver g) ms w0))"
    "map snd ms = fst (split_frames ?d)" "ok b'" "data b' = snd (split_frames ?d)"
    using parse_loop_frames [OF bb, of "s\<lparr>bytes_buf := b1\<rparr>" ?d "call (session_cb s)" g c w0] rl(2,3) lim wfd
    by (auto simp: wf_stream_def)
  with rl vf show ?thesis
    by (intro exI [of _ us] exI [of _ rest] exI [of _ b'] exI [of _ w0] exI [of _ ms])
       (simp add: nb_tcp_session_on_msg_def)
qed

text \<open>A buffer that refuses the read, which its contract excludes, would leave the copy behind.\<close>

lemma failed_read_leaks:
  assumes "bb_fetch ops (bytes_buf s) 8 = Some hb" and "msg_len_limit s = 0"
    and "\<not> word_of_int (bb_readable ops (bytes_buf s)) < 8 + payload_len (dec_hdr hb)"
    and "bb_reader_fc ops (bytes_buf s) (to_int (8 + payload_len (dec_hdr hb))) = None"
    and "bb_read ops (bytes_buf s) (to_int (8 + payload_len (dec_hdr hb))) = None"
  shows "\<exists>w'. parse_step ops cb c s w = Break s w' \<and>
    calls ''malloc'' (trace w') = Suc (calls ''malloc'' (trace w)) \<and>
    calls ''free'' (trace w') = calls ''free'' (trace w)"
  using assms by (simp add: parse_step_def Let_def)

section \<open>Headers that break the loop\<close>

text \<open>
  A payload length of \<open>2 ^ 32 - 8\<close> makes \<open>n\<close> zero: nothing is consumed and the
  loop meets the same header again.
\<close>

definition stuck_session ::
  "'b bytes_buffer \<Rightarrow> ('b \<Rightarrow> bool) \<Rightarrow> ('b \<Rightarrow> bytes) \<Rightarrow> 'b nb_tcp_session_t \<Rightarrow> bool" where
  "stuck_session ops ok data s \<longleftrightarrow>
     bytes_buffer_ok ops ok data \<and> ok (bytes_buf s) \<and> msg_len_limit s = 0 \<and>
     8 \<le> length (data (bytes_buf s)) \<and> payload_len (dec_hdr (data (bytes_buf s))) = -8"

text \<open>Where the buffer has the header in one piece and the callback returns, the loop goes on for ever.\<close>

lemma parse_step_endless:
  assumes stuck: "stuck_session ops ok data s"
    and fc: "bb_reader_fc ops (bytes_buf s) 0 = Some mem" "8 \<le> length mem"
    and cb: "\<And>w mem n. 8 \<le> length mem \<Longrightarrow> cb w mem n \<noteq> None"
  shows "\<exists>b' w'. parse_step ops cb c s w = Again (s\<lparr>bytes_buf := b'\<rparr>) w' \<and>
    stuck_session ops ok data (s\<lparr>bytes_buf := b'\<rparr>)"
proof -
  have s: "bytes_buffer_ok ops ok data" "ok (bytes_buf s)" "msg_len_limit s = 0"
    "8 \<le> length (data (bytes_buf s))" "payload_len (dec_hdr (data (bytes_buf s))) = -8"
    using stuck by (simp_all add: stuck_session_def)
  obtain b1 where b1: "bb_reader_move ops (bytes_buf s) 0 = Some b1" "ok b1" "data b1 = data (bytes_buf s)"
    using bb_moveD [OF s(1,2), of 0] by auto
  obtain hb where hb: "bb_fetch ops (bytes_buf s) 8 = Some hb" "8 + payload_len (dec_hdr hb) = 0"
    using bb_fetchD [OF s(1,2), of 8] s(4,5) by (simp add: dec_hdr_take)
  obtain w' where "cb w mem (payload_len (dec_hdr mem)) = Some w'"
    using cb [OF fc(2), of w "payload_len (dec_hdr mem)"] by auto
  then have "call_cb cb mem w = Some w'" using fc(2) by (simp add: call_cb_def)
  then have "parse_step ops cb c s w = Again (s\<lparr>bytes_buf := b1\<rparr>) w'"
    by (simp add: parse_step_def hb s(3) fc(1) b1(1))
  with b1 s show ?thesis by (auto simp: stuck_session_def)
qed

lemma parse_loop_endless:
  assumes stuck: "stuck_session ops ok data s"
    and fc: "\<And>b. ok b \<Longrightarrow> \<exists>mem. bb_reader_fc ops b 0 = Some mem \<and> 8 \<le> length mem"
    and cb: "\<And>w mem n. 8 \<le> length mem \<Longrightarrow> cb w mem n \<noteq> None"
  shows "parse_loop ops cb c s w = None"
proof (rule ccontr)
  let ?P = "\<lambda>ops' cb' c s w r. ops' = ops \<longrightarrow> cb' = cb \<longrightarrow> \<not> stuck_session ops ok data s"
  assume "parse_loop ops cb c s w \<noteq> None"
  then obtain r where "parse_loop ops cb c s w = Some r" by auto
  then have "?P ops cb c s w r"
  proof (rule parse_loop.raw_induct [where P = ?P, rotated], intro impI notI)
    fix f ops' cb' c s w and r :: "('a nb_tcp_session_t \<times> world) option"
    assume IH: "\<And>ops' cb' c s w r. f ops' cb' c s w = Some r \<Longrightarrow> ?P ops' cb' c s w r"
      and body: "(case parse_step ops' cb' c s w of Break s' w' \<Rightarrow> Some (Some (s', w'))
        | OutOfBounds \<Rightarrow> Some None | Again s' w' \<Rightarrow> f ops' cb' c s' w') = Some r"
      and same: "ops' = ops" "cb' = cb" and s: "stuck_session ops ok data s"
    obtain mem where "bb_reader_fc ops (bytes_buf s) 0 = Some mem" "8 \<le> length mem"
      using fc [of "bytes_buf s"] s by (auto simp: stuck_session_def)
    then obtain b' w' where
      "parse_step ops cb c s w = Again (s\<lparr>bytes_buf := b'\<rparr>) w'" "stuck_session ops ok data (s\<lparr>bytes_buf := b'\<rparr>)"
      using parse_step_endless [of ops ok data s mem cb c w] s cb by blast
    with IH [of ops' cb' c "s\<lparr>bytes_buf := b'\<rparr>" w' r] body same show False by simp
  qed
  with stuck show False by blast
qed

text \<open>Where it has to copy, the copy has no room for the header that is read from it.\<close>

lemma parse_loop_zero_copy:
  assumes stuck: "stuck_session ops ok data s" and fc: "bb_reader_fc ops (bytes_buf s) 0 = None"
  shows "parse_loop ops cb c s w = Some None"
proof -
  have s: "bytes_buffer_ok ops ok data" "ok (bytes_buf s)" "msg_len_limit s = 0"
    "8 \<le> length (data (bytes_buf s))" "payload_len (dec_hdr (data (bytes_buf s))) = -8"
    using stuck by (simp_all add: stuck_session_def)
  obtain hb where hb: "bb_fetch ops (bytes_buf s) 8 = Some hb" "8 + payload_len (dec_hdr hb) = 0"
    using bb_fetchD [OF s(1,2), of 8] s(4,5) by (simp add: dec_hdr_take)
  obtain b2 where "bb_read ops (bytes_buf s) 0 = Some ([], b2)"
    using bb_readD [OF s(1,2), of 0] by auto
  then show ?thesis
    by (subst parse_loop.simps) (simp add: parse_step_def hb s(3) fc call_cb_def)
qed

end
