(* ===== verification/RefBuffer.thy ===== *)
theory RefBuffer
  imports Session
begin

text \<open>
  A concrete receive buffer that keeps the contract \<open>bytes_buffer_ok\<close>: the readable
  bytes with a capacity. It shows that the contract can hold and lets the witnesses of the
  session's properties run the handler on concrete bytes. The flag says whether a message is
  found contiguous (\<open>bb_reader_fc\<close> succeeds) or has to be copied out.
\<close>

definition list_bb_limit :: "nat \<Rightarrow> nat" where
  "list_bb_limit cap = min cap 2147483647"

definition list_bb :: "bool \<Rightarrow> (nat \<times> bytes) bytes_buffer" where
  "list_bb contiguous =
     \<lparr>bb_init = (\<lambda>n. (n, [])),
      bb_over = (\<lambda>n. (n, [])),
      bb_writer_fc = (\<lambda>(cap, d) k.
        if int (length d) + k \<le> int (list_bb_limit cap) then Some (length d) else None),
      bb_writer_move_n = (\<lambda>(cap, d) p bs.
        if length d + length bs \<le> list_bb_limit cap then Some (cap, d @ bs) else None),
      bb_readable = (\<lambda>(cap, d). int (length d)),
      bb_fetch = (\<lambda>(cap, d) n. if n \<le> int (length d) then Some (take (nat n) d) else None),
      bb_reader_fc = (\<lambda>(cap, d) n. if contiguous \<and> n \<le> int (length d) then Some d else None),
      bb_reader_move = (\<lambda>(cap, d) n.
        if n \<le> int (length d) then Some (cap, drop (nat n) d) else None),
      bb_read = (\<lambda>(cap, d) n.
        if n \<le> int (length d) then Some (take (nat n) d, (cap, drop (nat n) d)) else None)\<rparr>"

definition list_bb_ok :: "nat \<times> bytes \<Rightarrow> bool" where
  "list_bb_ok b \<longleftrightarrow> length (snd b) \<le> list_bb_limit (fst b)"

lemma list_bb_contract: "bytes_buffer_ok (list_bb contiguous) list_bb_ok snd"
  unfolding bytes_buffer_ok_def list_bb_def list_bb_ok_def list_bb_limit_def
  by (auto split: if_splits)

lemma list_bb_run [simp]:
  "bb_writer_fc (list_bb t) (cap, d) k =
     (if int (length d) + k \<le> int (list_bb_limit cap) then Some (length d) else None)"
  "bb_writer_move_n (list_bb t) (cap, d) p bs =
     (if length d + length bs \<le> list_bb_limit cap then Some (cap, d @ bs) else None)"
  "bb_fetch (list_bb t) (cap, d) n = (if n \<le> int (length d) then Some (take (nat n) d) else None)"
  "bb_readable (list_bb t) (cap, d) = int (length d)"
  "bb_reader_fc (list_bb t) (cap, d) n = (if t \<and> n \<le> int (length d) then Some d else None)"
  "bb_reader_move (list_bb t) (cap, d) n =
     (if n \<le> int (length d) then Some (cap, drop (nat n) d) else None)"
  "bb_read (list_bb t) (cap, d) n =
     (if n \<le> int (length d) then Some (take (nat n) d, (cap, drop (nat n) d)) else None)"
  "bb_init (list_bb t) cap = (cap, [])" "bb_over (list_bb t) cap = (cap, [])"
  by (simp_all add: list_bb_def)

end
