(* ===== verification/Receiver.thy ===== *)
theory Receiver
  imports Session
begin

text \<open>
  The interface of a program that receives messages over TCP: a handler that is given the
  reads of a socket, keeps the bytes that are not a whole message yet, and acts on every message
  once. The server and the upstream provide it; what follows for a whole connection, with any
  number of events and any way the network cuts the stream, is proved here once.
\<close>

type_synonym 's receive_step = "bytes list \<Rightarrow> 's \<Rightarrow> (bytes list \<times> 's) option option"

text \<open>\<open>n\<close> events, each with the reads the events before have left.\<close>

fun drain :: "'s receive_step \<Rightarrow> nat \<Rightarrow> 's receive_step" where
  "drain step 0 rds s = Some (Some (rds, s))"
| "drain step (Suc n) rds s =
     (case step rds s of
        Some (Some (rest, s')) \<Rightarrow> drain step n rest s'
      | r \<Rightarrow> r)"

definition reads_ok :: "bytes list \<Rightarrow> bool" where
  "reads_ok rds \<longleftrightarrow> (\<forall>bs \<in> set rds. length bs \<le> NET_BENCH_TCP_RECV_UNIT_SIZE)"

lemma split_frames_prefix:
  "(\<And>f. f \<in> set fs \<Longrightarrow> valid_frame f) \<Longrightarrow> concat fs = us @ e \<Longrightarrow>
   \<exists>k. fst (split_frames us) = take k fs"
proof (induction fs arbitrary: us)
  case Nil
  then show ?case by (simp add: split_incomplete)
next
  case (Cons f fs)
  have f: "valid_frame f" and eq: "f @ concat fs = us @ e" using Cons.prems by simp_all
  show ?case
  proof (cases "length us < length f")
    case True
    then have "fst (split_frames us) = take 0 (f # fs)"
      using proper_prefix_of_frame [OF f eq] by (simp add: split_incomplete)
    then show ?thesis by blast
  next
    case False
    then obtain us' where us: "us = f @ us'" "concat fs = us' @ e"
      using eq unfolding append_eq_append_conv2 by auto
    obtain k where "fst (split_frames us') = take k fs"
      using Cons.IH [OF _ us(2)] Cons.prems(1) by auto
    then have "fst (split_frames us) = take (Suc k) (f # fs)"
      using f by (simp add: us(1) split_frame valid_frame_def)
    then show ?thesis by blast
  qed
qed

locale receiver =
  fixes step :: "'s receive_step"
    and good :: "'s \<Rightarrow> bool" and pend :: "'s \<Rightarrow> bytes"
    and obs :: "'s \<Rightarrow> 'o list" and h :: "bytes \<Rightarrow> 'o list"
  assumes good_pend: "good s \<Longrightarrow> incomplete (pend s)"
    and step_frames: "good s \<Longrightarrow> reads_ok rds \<Longrightarrow>
    (\<And>k. wf_stream (pend s @ concat (take k rds))) \<Longrightarrow>
    \<exists>us rest s'. step rds s = Some (Some (rest, s')) \<and> good s' \<and>
      pend s' = snd (split_frames (pend s @ concat us)) \<and>
      obs s' = obs s @ concat (map h (fst (split_frames (pend s @ concat us)))) \<and>
      (rds = us @ rest \<or> rds = us @ [] # rest)"
begin

lemma wf_rest:
  assumes "wf_stream (C @ X)"
  shows "wf_stream (snd (split_frames C) @ X)"
  using assms frames.split_append [of C X] by (auto simp: wf_stream_def)

lemma wf_take:
  assumes "rds = us @ rest \<or> rds = us @ [] # rest" and "\<And>k. wf_stream (p @ concat (take k rds))"
  shows "wf_stream ((p @ concat us) @ concat (take k rest))"
  using assms(1)
proof
  assume "rds = us @ rest"
  with assms(2) [of "length us + k"] show ?thesis by simp
next
  assume "rds = us @ [] # rest"
  with assms(2) [of "length us + 1 + k"] show ?thesis by simp
qed

lemma drain_frames:
  "good s \<Longrightarrow> reads_ok rds \<Longrightarrow> (\<And>k. wf_stream (pend s @ concat (take k rds))) \<Longrightarrow>
    \<exists>us rest s'. drain step n rds s = Some (Some (rest, s')) \<and> good s' \<and>
      concat rds = us @ concat rest \<and> pend s' = snd (split_frames (pend s @ us)) \<and>
      obs s' = obs s @ concat (map h (fst (split_frames (pend s @ us))))"
proof (induction n arbitrary: rds s)
  case 0
  then show ?case
    by (intro exI [of _ "[]"] exI [of _ rds] exI [of _ s])
       (simp add: split_incomplete [OF good_pend])
next
  case (Suc n)
  obtain us1 rds1 s1 where s1: "step rds s = Some (Some (rds1, s1))" "good s1"
    "pend s1 = snd (split_frames (pend s @ concat us1))"
    "obs s1 = obs s @ concat (map h (fst (split_frames (pend s @ concat us1))))"
    "rds = us1 @ rds1 \<or> rds = us1 @ [] # rds1"
    using step_frames [OF Suc.prems] by blast
  have r1: "reads_ok rds1" using Suc.prems(2) s1(5) by (auto simp: reads_ok_def)
  have wf1: "wf_stream (pend s1 @ concat (take k rds1))" for k
    unfolding s1(3) by (rule wf_rest) (rule wf_take [OF s1(5) Suc.prems(3)])
  obtain us2 rest s2 where s2: "drain step n rds1 s1 = Some (Some (rest, s2))" "good s2"
    "concat rds1 = us2 @ concat rest" "pend s2 = snd (split_frames (pend s1 @ us2))"
    "obs s2 = obs s1 @ concat (map h (fst (split_frames (pend s1 @ us2))))"
    using Suc.IH [OF s1(2) r1 wf1] by blast
  have c: "concat rds = (concat us1 @ us2) @ concat rest" using s1(5) s2(3) by auto
  have sp: "split_frames (pend s @ concat us1 @ us2) =
      (fst (split_frames (pend s @ concat us1)) @ fst (split_frames (pend s1 @ us2)),
       snd (split_frames (pend s1 @ us2)))"
    using frames.split_append [of "pend s @ concat us1" us2] by (simp add: s1(3))
  show ?case
    using s1(1,4) s2 c
    by (intro exI [of _ "concat us1 @ us2"] exI [of _ rest] exI [of _ s2]) (simp add: sp)
qed

text \<open>A connection on which messages \<open>fs\<close> are sent, of which \<open>e\<close> has not arrived yet.\<close>

lemma drain_messages:
  assumes good: "good s" and rds: "reads_ok rds" and pend: "pend s = []"
    and fs: "\<And>f. f \<in> set fs \<Longrightarrow> valid_frame f" and stream: "concat fs = concat rds @ e"
  shows "\<exists>k rest s'. drain step n rds s = Some (Some (rest, s')) \<and> good s' \<and>
    obs s' = obs s @ concat (map h (take k fs)) \<and>
    concat (take k fs) @ pend s' @ concat rest @ e = concat fs \<and>
    (concat rest = [] \<and> e = [] \<longrightarrow> take k fs = fs \<and> pend s' = [])"
proof -
  have wf: "wf_stream (pend s @ concat (take k rds))" for k
  proof (rule wf_stream_prefix [OF fs])
    have "concat rds = concat (take k rds) @ concat (drop k rds)"
      by (metis append_take_drop_id concat_append)
    then show "concat fs = (pend s @ concat (take k rds)) @ concat (drop k rds) @ e"
      using stream pend by simp
  qed
  obtain us rest s' where d: "drain step n rds s = Some (Some (rest, s'))" "good s'"
    "concat rds = us @ concat rest" "pend s' = snd (split_frames us)"
    "obs s' = obs s @ concat (map h (fst (split_frames us)))"
    using drain_frames [OF good rds wf] pend by (metis append_Nil)
  obtain k where k: "fst (split_frames us) = take k fs"
    using split_frames_prefix [of fs us "concat rest @ e"] fs stream d(3) by auto
  have "concat (take k fs) @ pend s' = us" using frames.split_concat [of us] d(4) k by simp
  then have all: "concat (take k fs) @ pend s' @ concat rest @ e = concat fs"
    using stream d(3) by (metis append.assoc)
  have "split_frames (concat fs @ []) = (fs, [])"
    using fs by (intro split_concat_frames) (auto simp: valid_frame_def)
  then have "take k fs = fs \<and> pend s' = []" if "concat rest = []" "e = []"
    using that(1) d(4) k unfolding stream d(3) that by simp
  with d k all show ?thesis by (intro exI [of _ k] exI [of _ rest] exI [of _ s']) simp
qed

end

end
