(* ===== verification/RoundData.thy ===== *)
theory RoundData
  imports SysArgs World
begin

text \<open>
  The message array of the senders. The TCP client, the UDP client and the thread benchmark
  allocate one array for all messages of all rounds, build every message in it, and later
  send message \<open>k\<close> from offset \<open>k * msg_size\<close>. Sizes, counts and offsets
  are \<open>uint32_t\<close> products, the pointer into the array is not.
\<close>

section \<open>Building the array\<close>

text \<open>The body of the loop: the five stores, one after the other.\<close>

definition write_msg :: "nb_sys_args_t \<Rightarrow> u32 \<Rightarrow> nat \<Rightarrow> bytes \<Rightarrow> bytes option" where
  "write_msg a i p mem =
     do { mem \<leftarrow> put_bytes mem p (replicate sizeof_hdr 0);
          mem \<leftarrow> put_u32 mem p 1;
          mem \<leftarrow> put_u32 mem (p + 4) (msg_size a - 8);
          mem \<leftarrow> put_u32 mem (p + 8) (user_id a);
          put_u32 mem (p + 12) i }"

function prepare_loop :: "nb_sys_args_t \<Rightarrow> u32 \<Rightarrow> nat \<Rightarrow> bytes \<Rightarrow> bytes option" where
  "prepare_loop a i p mem =
     (if i < num_per_round a * round_num a
      then do { mem \<leftarrow> write_msg a i p mem;
                prepare_loop a (i + 1) (p + unat (msg_size a)) mem }
      else Some mem)"
  by pat_completeness auto
termination
  by (relation "measure (\<lambda>(a, i, _). unat (num_per_round a * round_num a) - unat i)")
     (auto simp: u32_succ_no_wrap word_less_nat_alt)

declare prepare_loop.simps [simp del]

definition datas_size :: "nb_sys_args_t \<Rightarrow> u32" where
  "datas_size a = msg_size a * num_per_round a * round_num a"

text \<open>\<open>fill\<close>: what \<open>malloc\<close> left in the allocation.\<close>

definition prepare_datas :: "nb_sys_args_t \<Rightarrow> (nat \<Rightarrow> u8) \<Rightarrow> bytes option" where
  "prepare_datas a fill = prepare_loop a 0 0 (map fill [0..<unat (datas_size a)])"

section \<open>What it holds\<close>

definition msg_head :: "nb_sys_args_t \<Rightarrow> u32 \<Rightarrow> bytes" where
  "msg_head a q =
     enc_hdr \<lparr>msg_id = 1, payload_len = msg_size a - 8\<rparr> @
     enc_data \<lparr>msg_user_id = user_id a, msg_sequence = q\<rparr>"

lemma msg_head_length [simp]: "length (msg_head a q) = 16"
  by (simp add: msg_head_def)

lemma write_msg_eq: "write_msg a i p mem = put_bytes mem p (msg_head a i)"
  by (auto simp: write_msg_def put_u32_def msg_head_def enc_hdr_def enc_data_def put_bytes_def
      numeral_eq_Suc bind_eq_None_conv)

definition n_msgs :: "nb_sys_args_t \<Rightarrow> nat" where
  "n_msgs a = unat (num_per_round a * round_num a)"

definition head_ok :: "nb_sys_args_t \<Rightarrow> bytes \<Rightarrow> nat \<Rightarrow> bool" where
  "head_ok a mem k \<longleftrightarrow>
     get_bytes mem (k * unat (msg_size a)) 16 = Some (msg_head a (word_of_nat k))"

lemma prepare_loop_done: "n_msgs a \<le> unat i \<Longrightarrow> prepare_loop a i p mem = Some mem"
  by (subst prepare_loop.simps) (simp add: n_msgs_def word_less_nat_alt)

lemma n_msgs_succ: "unat (i :: u32) < n_msgs a \<Longrightarrow> unat (i + 1) = Suc (unat i)"
  using u32_succ_no_wrap [of i "num_per_round a * round_num a"]
  by (simp add: n_msgs_def word_less_nat_alt)

lemma prepare_loop_step:
  assumes "unat i < n_msgs a"
  shows "prepare_loop a i (unat i * unat (msg_size a)) mem =
     Option.bind (put_bytes mem (unat i * unat (msg_size a)) (msg_head a i))
       (prepare_loop a (i + 1) (unat (i + 1) * unat (msg_size a)))"
proof -
  have "unat i * unat (msg_size a) + unat (msg_size a) = unat (i + 1) * unat (msg_size a)"
    by (simp add: n_msgs_succ [OF assms])
  then show ?thesis
    using assms by (subst prepare_loop.simps) (simp add: n_msgs_def word_less_nat_alt write_msg_eq)
qed

lemma prepare_loop_heads:
  assumes size: "16 \<le> unat (msg_size a)"
  shows "n_msgs a * unat (msg_size a) \<le> length mem \<Longrightarrow> (\<And>k. k < unat i \<Longrightarrow> head_ok a mem k) \<Longrightarrow>
    \<exists>mem'. prepare_loop a i (unat i * unat (msg_size a)) mem = Some mem' \<and>
      length mem' = length mem \<and> (\<forall>k < n_msgs a. head_ok a mem' k)"
proof (induction "n_msgs a - unat i" arbitrary: i mem)
  case 0
  then show ?case by (simp add: prepare_loop_done)
next
  case (Suc x)
  let ?M = "unat (msg_size a)"
  have i: "unat i < n_msgs a" using Suc.hyps(2) by simp
  have "unat i * ?M + ?M \<le> n_msgs a * ?M" using i by (rule mult_le_if_less)
  then have fits: "unat i * ?M + 16 \<le> length mem" using size Suc.prems(1) by simp
  then obtain m1 where m1: "put_bytes mem (unat i * ?M) (msg_head a i) = Some m1"
    by (simp add: put_bytes_def)
  have "head_ok a m1 k" if "k < unat (i + 1)" for k
  proof (cases "k = unat i")
    case True
    with get_put_same [OF m1] show ?thesis by (simp add: head_ok_def)
  next
    case False
    then have k: "k < unat i" using that n_msgs_succ [OF i] by simp
    then have "k * ?M + 16 \<le> unat i * ?M" using mult_le_if_less [OF k, of ?M] size by simp
    with Suc.prems(2) [OF k] show ?thesis
      by (simp add: head_ok_def get_put_before [OF m1])
  qed
  moreover have "length m1 = length mem" using m1 by (rule put_bytes_length)
  moreover have "x = n_msgs a - unat (i + 1)" using Suc.hyps(2) n_msgs_succ [OF i] by simp
  ultimately obtain mem' where "prepare_loop a (i + 1) (unat (i + 1) * ?M) m1 = Some mem'"
    "length mem' = length mem" "\<forall>k < n_msgs a. head_ok a mem' k"
    using Suc.hyps(1) [of "i + 1" m1] Suc.prems(1) by auto
  with i m1 show ?case
    by (auto simp: prepare_loop_step)
qed

lemma prepare_loop_bounds:
  "prepare_loop a i (unat i * unat (msg_size a)) mem = Some mem' \<Longrightarrow> unat i < n_msgs a \<Longrightarrow>
   (n_msgs a - 1) * unat (msg_size a) + 16 \<le> length mem"
proof (induction "n_msgs a - unat i" arbitrary: i mem)
  case 0
  then show ?case by simp
next
  case (Suc x)
  let ?M = "unat (msg_size a)"
  note i = \<open>unat i < n_msgs a\<close>
  obtain m1 where m1: "put_bytes mem (unat i * ?M) (msg_head a i) = Some m1"
    and rest: "prepare_loop a (i + 1) (unat (i + 1) * ?M) m1 = Some mem'"
    using Suc.prems(1) i
    by (auto simp: prepare_loop_step bind_eq_Some_conv)
  have fits: "unat i * ?M + 16 \<le> length mem" "length m1 = length mem"
    using m1 by (auto simp: put_bytes_def split: if_splits)
  show ?case
  proof (cases "unat (i + 1) < n_msgs a")
    case True
    with Suc.hyps(1) [of "i + 1" m1] Suc.hyps(2) rest n_msgs_succ [OF i] fits show ?thesis
      by simp
  next
    case False
    then have "n_msgs a - 1 = unat i" using i n_msgs_succ [OF i] by simp
    with fits show ?thesis by simp
  qed
qed

section \<open>When the array fits\<close>

lemma datas_size_mod: "unat (datas_size a) = (n_msgs a * unat (msg_size a)) mod 4294967296"
proof -
  have "datas_size a = (num_per_round a * round_num a) * msg_size a"
    by (simp add: datas_size_def mult.commute mult.left_commute)
  then show ?thesis by (simp add: n_msgs_def unat_word_ariths(2))
qed

lemma prepare_datas_Some:
  assumes "16 \<le> unat (msg_size a)" and "n_msgs a * unat (msg_size a) < 4294967296"
  shows "\<exists>mem. prepare_datas a fill = Some mem \<and> length mem = n_msgs a * unat (msg_size a) \<and>
    (\<forall>k < n_msgs a. head_ok a mem k)"
  using prepare_loop_heads [OF assms(1), of "map fill [0..<unat (datas_size a)]" 0] assms(2)
  by (auto simp: prepare_datas_def datas_size_mod)

lemma prepare_datas_None:
  assumes "0 < n_msgs a" and "unat (msg_size a) < 16 \<or> 4294967296 \<le> n_msgs a * unat (msg_size a)"
  shows "prepare_datas a fill = None"
proof (rule ccontr)
  let ?M = "unat (msg_size a)"
  assume "prepare_datas a fill \<noteq> None"
  then have le: "(n_msgs a - 1) * ?M + 16 \<le> (n_msgs a * ?M) mod 4294967296"
    using prepare_loop_bounds [of a 0 "map fill [0..<unat (datas_size a)]"] assms(1)
    by (auto simp: prepare_datas_def datas_size_mod)
  have split: "n_msgs a * ?M = (n_msgs a - 1) * ?M + ?M"
    using assms(1) by (cases "n_msgs a") auto
  from assms(2) show False
  proof
    assume "?M < 16"
    with le split show False
      using mod_less_eq_dividend [of "n_msgs a * ?M" 4294967296] by linarith
  next
    assume big: "4294967296 \<le> n_msgs a * ?M"
    then have "(n_msgs a * ?M) mod 4294967296 \<le> n_msgs a * ?M - 4294967296"
      by (metis le_mod_geq mod_less_eq_dividend)
    with le split big unat_u32_lt [of "msg_size a"] show False by linarith
  qed
qed

text \<open>
  When the array is too small, in the terms of the code: the number of messages is the 32-bit
  product of the counts, as the bound of the loop has it.
\<close>

lemma prepare_datas_None_iff:
  "prepare_datas a fill = None \<longleftrightarrow> num_per_round a * round_num a \<noteq> 0 \<and>
     (unat (msg_size a) < 16 \<or> 4294967296 \<le> unat (num_per_round a * round_num a) * unat (msg_size a))"
proof -
  have "prepare_datas a fill \<noteq> None" if "n_msgs a = 0 \<or>
      16 \<le> unat (msg_size a) \<and> n_msgs a * unat (msg_size a) < 4294967296"
    using that prepare_datas_Some [of a fill]
    by (auto simp: prepare_datas_def prepare_loop_done datas_size_mod)
  moreover have "n_msgs a = 0 \<longleftrightarrow> num_per_round a * round_num a = 0" unfolding n_msgs_def by (rule unat_eq_zero)
  ultimately show ?thesis
    using prepare_datas_None [of a fill] unfolding n_msgs_def
    by (metis neq0_conv not_le)
qed

lemma prepare_datas_empty: "n_msgs a = 0 \<Longrightarrow> prepare_datas a fill = Some []"
  by (simp add: prepare_datas_def prepare_loop_done datas_size_mod)

end
