(* ===== verification/SendRound.thy ===== *)
theory SendRound
  imports RoundData NbRecord
begin

text \<open>
  The send loop of a round, which the TCP and the UDP client share: walk the messages of the
  round through the array, check them, write the sequence number, send. How one message is
  recorded and sent is the parameter \<open>snd\<close>; it says whether the send succeeded.
\<close>

type_synonym send_one = "u32 \<Rightarrow> bytes \<Rightarrow> world \<Rightarrow> bool \<times> world"

function send_round ::
  "send_one \<Rightarrow> nb_sys_args_t \<Rightarrow> u32 \<Rightarrow> u32 \<Rightarrow> nat \<Rightarrow> bytes \<Rightarrow> world \<Rightarrow> (bool \<times> bytes \<times> world) option"
where
  "send_round send a i seq p mem w =
     (if i < num_per_round a
      then do { mid \<leftarrow> get_u32 mem p;
                dseq \<leftarrow> get_u32 mem (p + 12);
                let w = nb_assert (dseq = seq) ''data->sequence == seq''
                          (nb_assert (mid = 1) ''hdr->msg_id == 1'' w);
                mem \<leftarrow> put_u32 mem (p + 12) seq;
                buf \<leftarrow> get_bytes mem p (unat (msg_size a));
                (case send seq buf w of
                   (True, w) \<Rightarrow> send_round send a (i + 1) (seq + 1) (p + unat (msg_size a)) mem w
                 | (False, w) \<Rightarrow> Some (False, mem, w)) }
      else Some (True, mem, w))"
  by pat_completeness auto
termination
  by (relation "measure (\<lambda>(_, a, i, _). unat (num_per_round a) - unat i)")
     (auto simp: u32_succ_no_wrap word_less_nat_alt)

declare send_round.simps [simp del]

section \<open>The specification of a round\<close>

text \<open>The round as a list of messages, sent one after the other up to the first failure.\<close>

fun send_msgs :: "send_one \<Rightarrow> (u32 \<times> bytes) list \<Rightarrow> world \<Rightarrow> bool \<times> world" where
  "send_msgs send [] w = (True, w)"
| "send_msgs send ((q, buf) # ms) w =
     (case send q buf w of (True, w) \<Rightarrow> send_msgs send ms w | (False, w) \<Rightarrow> (False, w))"

definition config_ok :: "nb_sys_args_t \<Rightarrow> bool" where
  "config_ok a \<longleftrightarrow> 16 \<le> unat (msg_size a) \<and>
     unat (msg_size a) * (unat (num_per_round a) * unat (round_num a)) < 4294967296"

definition datas_ok :: "nb_sys_args_t \<Rightarrow> bytes \<Rightarrow> bool" where
  "datas_ok a mem \<longleftrightarrow> length mem = n_msgs a * unat (msg_size a) \<and> (\<forall>k < n_msgs a. head_ok a mem k)"

definition slot :: "nb_sys_args_t \<Rightarrow> bytes \<Rightarrow> nat \<Rightarrow> bytes" where
  "slot a mem k = take (unat (msg_size a)) (drop (k * unat (msg_size a)) mem)"

definition round_msgs :: "nb_sys_args_t \<Rightarrow> bytes \<Rightarrow> nat \<Rightarrow> (u32 \<times> bytes) list" where
  "round_msgs a mem r =
     map (\<lambda>k. (word_of_nat k, slot a mem k))
       [r * unat (num_per_round a) ..< Suc r * unat (num_per_round a)]"

lemma config_n_msgs: "config_ok a \<Longrightarrow> n_msgs a = unat (num_per_round a) * unat (round_num a)"
proof -
  assume ok: "config_ok a"
  let ?N = "unat (num_per_round a) * unat (round_num a)"
  have "16 * ?N \<le> unat (msg_size a) * ?N" using ok by (simp add: config_ok_def mult_le_mono1)
  moreover have "unat (msg_size a) * ?N < 4294967296" using ok by (simp add: config_ok_def)
  ultimately have "?N < 4294967296" by linarith
  then show ?thesis by (simp add: n_msgs_def unat_mult_no_wrap)
qed

lemma config_bytes: "config_ok a \<Longrightarrow> n_msgs a * unat (msg_size a) < 4294967296"
  by (simp add: config_n_msgs) (simp add: config_ok_def mult.commute)

lemma prepare_datas_ok:
  "config_ok a \<Longrightarrow> \<exists>mem. prepare_datas a fill = Some mem \<and> datas_ok a mem"
  using prepare_datas_Some [of a fill] config_bytes [of a] by (auto simp: config_ok_def datas_ok_def)

section \<open>The loop sends the round\<close>

lemma slot_in_bounds:
  "datas_ok a mem \<Longrightarrow> k < n_msgs a \<Longrightarrow>
   get_bytes mem (k * unat (msg_size a)) (unat (msg_size a)) = Some (slot a mem k)"
  using mult_le_if_less [of k "n_msgs a" "unat (msg_size a)"]
  by (simp add: get_bytes_def datas_ok_def slot_def)

lemma slot_fields:
  assumes "datas_ok a mem" and "k < n_msgs a"
  shows "get_u32 mem (k * unat (msg_size a)) = Some 1"
    and "get_u32 mem (k * unat (msg_size a) + 12) = Some (word_of_nat k)"
    and "put_u32 mem (k * unat (msg_size a) + 12) (word_of_nat k) = Some mem"
proof -
  have h: "get_bytes mem (k * unat (msg_size a)) 16 = Some (msg_head a (word_of_nat k))"
    using assms by (simp add: datas_ok_def head_ok_def)
  show "get_u32 mem (k * unat (msg_size a)) = Some 1"
    using get_bytes_sub [OF h, of 0 4]
    by (simp add: get_u32_def msg_head_def enc_hdr_def)
  have s: "get_bytes mem (k * unat (msg_size a) + 12) 4 = Some (le32 (word_of_nat k))"
    using get_bytes_sub [OF h, of 12 4]
    by (simp add: msg_head_def enc_hdr_def enc_data_def)
  then show "get_u32 mem (k * unat (msg_size a) + 12) = Some (word_of_nat k)"
    by (simp add: get_u32_def)
  from s show "put_u32 mem (k * unat (msg_size a) + 12) (word_of_nat k) = Some mem"
    using put_bytes_id [of mem "k * unat (msg_size a) + 12" "le32 (word_of_nat k)"]
    by (simp add: put_u32_def)
qed

lemma send_round_from:
  assumes cfg: "config_ok a" and mem: "datas_ok a mem" and r: "r < unat (round_num a)"
  shows "k = r * unat (num_per_round a) + unat i \<Longrightarrow> unat i \<le> unat (num_per_round a) \<Longrightarrow>
    send_round send a i (word_of_nat k) (k * unat (msg_size a)) mem w =
      (let (ok, w') = send_msgs send
           (map (\<lambda>k. (word_of_nat k, slot a mem k)) [k ..< Suc r * unat (num_per_round a)]) w
       in Some (ok, mem, w'))"
proof (induction "unat (num_per_round a) - unat i" arbitrary: i k w)
  case 0
  then show ?case
    by (subst send_round.simps) (simp add: word_less_nat_alt)
next
  case (Suc x)
  let ?n = "unat (num_per_round a)" and ?M = "unat (msg_size a)"
  have i: "unat i < ?n" using Suc.hyps(2) by simp
  then have i': "i < num_per_round a" by (simp add: word_less_nat_alt)
  have succ: "unat (i + 1) = Suc (unat i)" using u32_succ_no_wrap [OF i'] by simp
  have kend: "k < Suc r * ?n" using i Suc.prems(1) by simp
  have "Suc r * ?n \<le> unat (round_num a) * ?n" using r by (intro mult_le_mono1) simp
  then have k: "k < n_msgs a" using kend by (simp add: config_n_msgs [OF cfg] mult.commute)
  have IH: "send_round send a (i + 1) (word_of_nat (Suc k)) (Suc k * ?M) mem w' =
      (let (ok, w') = send_msgs send
           (map (\<lambda>k. (word_of_nat k, slot a mem k)) [Suc k ..< Suc r * ?n]) w'
       in Some (ok, mem, w'))" for w'
    using Suc.hyps(1) [of "i + 1" "Suc k" w'] Suc.hyps(2) Suc.prems succ i by simp
  have upt: "[k ..< Suc r * ?n] = k # [Suc k ..< Suc r * ?n]"
    using kend by (rule upt_conv_Cons)
  have e1: "word_of_nat (Suc k) = (word_of_nat k + 1 :: u32)" by simp
  have e2: "Suc k * ?M = k * ?M + ?M" by simp
  have step: "send_round send a i (word_of_nat k) (k * ?M) mem w =
      (case send (word_of_nat k) (slot a mem k) w of
         (True, w') \<Rightarrow> send_round send a (i + 1) (word_of_nat (Suc k)) (Suc k * ?M) mem w'
       | (False, w') \<Rightarrow> Some (False, mem, w'))"
    unfolding e1 e2
    by (subst send_round.simps) (simp add: i' slot_fields [OF mem k] slot_in_bounds [OF mem k])
  show ?case
    unfolding step IH upt by (simp split: prod.split bool.split)
qed

lemma config_round_bound:
  assumes cfg: "config_ok a" and r: "k < unat (round_num a)"
  shows "k * unat (num_per_round a) < 4294967296"
    and "k * unat (num_per_round a) * unat (msg_size a) < 4294967296"
proof -
  let ?n = "unat (num_per_round a)" and ?M = "unat (msg_size a)"
  have le: "k * ?n \<le> n_msgs a"
    unfolding config_n_msgs [OF cfg] using r
    by (subst mult.commute) (rule mult_le_mono2, simp)
  have "n_msgs a < 4294967296" unfolding n_msgs_def by (rule unat_u32_lt)
  with le show "k * ?n < 4294967296" by (rule le_less_trans)
  from le have "k * ?n * ?M \<le> n_msgs a * ?M" by (rule mult_le_mono1)
  then show "k * ?n * ?M < 4294967296" using config_bytes [OF cfg] by (rule le_less_trans)
qed

lemma config_offsets:
  assumes cfg: "config_ok a" and r: "unat (r :: u32) < unat (round_num a)"
  shows "r * num_per_round a = word_of_nat (unat r * unat (num_per_round a))"
    and "unat (r * num_per_round a * msg_size a) =
      unat r * unat (num_per_round a) * unat (msg_size a)"
proof -
  show "r * num_per_round a = word_of_nat (unat r * unat (num_per_round a))"
    by (simp add: of_nat_mult)
  have u: "unat (r * num_per_round a) = unat r * unat (num_per_round a)"
    by (rule unat_mult_no_wrap) (rule config_round_bound(1) [OF cfg r])
  show "unat (r * num_per_round a * msg_size a) =
      unat r * unat (num_per_round a) * unat (msg_size a)"
    unfolding u [symmetric]
    by (rule unat_mult_no_wrap) (unfold u, rule config_round_bound(2) [OF cfg r])
qed

text \<open>A round from its start, as the timers call the loop.\<close>

lemma send_round_msgs:
  assumes cfg: "config_ok a" and mem: "datas_ok a mem" and r: "unat r < unat (round_num a)"
  shows "send_round send a 0 (r * num_per_round a) (unat (r * num_per_round a * msg_size a)) mem w =
    (let (ok, w') = send_msgs send (round_msgs a mem (unat r)) w in Some (ok, mem, w'))"
  unfolding config_offsets(2) [OF cfg r] unfolding config_offsets(1) [OF cfg r] round_msgs_def
  by (rule send_round_from [OF cfg mem r]) simp_all

lemma length_round_msgs [simp]: "length (round_msgs a mem r) = unat (num_per_round a)"
  by (simp add: round_msgs_def)

section \<open>What a sender does\<close>

text \<open>The effects of a list of messages, each of which reads the clock twice.\<close>

fun round_effects ::
  "(nat \<Rightarrow> u32 \<Rightarrow> bytes \<Rightarrow> effect list) \<Rightarrow> nat \<Rightarrow> (u32 \<times> bytes) list \<Rightarrow> effect list" where
  "round_effects eff k [] = []"
| "round_effects eff k ((q, buf) # ms) = eff k q buf @ round_effects eff (k + 2) ms"

text \<open>
  The contract of a function that sends one message: with a good answer of the socket it
  appends \<open>msg_eff\<close>, with a bad one \<open>fail_eff\<close> and reports the failure.
\<close>

locale sender =
  fixes send :: send_one and good :: "nat \<Rightarrow> bool"
    and msg_eff fail_eff :: "nat \<Rightarrow> u32 \<Rightarrow> bytes \<Rightarrow> effect list"
  assumes send_good: "good (n_wr w) \<Longrightarrow> \<exists>w'. send q buf w = (True, w') \<and>
      trace w' = trace w @ msg_eff (n_clk w) q buf \<and> n_clk w' = n_clk w + 2 \<and> n_wr w' = n_wr w + 1"
    and send_bad: "\<not> good (n_wr w) \<Longrightarrow> \<exists>w'. send q buf w = (False, w') \<and>
      trace w' = trace w @ fail_eff (n_clk w) q buf \<and> n_wr w' = n_wr w + 1"
    and eff_asserts: "asserts_ok (msg_eff k q buf)" "asserts_ok (fail_eff k q buf)"
begin

lemma round_asserts: "asserts_ok (round_effects msg_eff k ms)"
  by (induction ms arbitrary: k) (auto simp: eff_asserts)

lemma send_msgs_good:
  "(\<And>j. j < length ms \<Longrightarrow> good (n_wr w + j)) \<Longrightarrow>
   \<exists>w'. send_msgs send ms w = (True, w') \<and> trace w' = trace w @ round_effects msg_eff (n_clk w) ms \<and>
     n_clk w' = n_clk w + 2 * length ms \<and> n_wr w' = n_wr w + length ms"
proof (induction ms arbitrary: w)
  case Nil
  then show ?case by simp
next
  case (Cons m ms)
  obtain q buf where m: "m = (q, buf)" by (cases m)
  have "good (n_wr w)" using Cons.prems [of 0] by simp
  then obtain w1 where w1: "send q buf w = (True, w1)"
    "trace w1 = trace w @ msg_eff (n_clk w) q buf" "n_clk w1 = n_clk w + 2" "n_wr w1 = n_wr w + 1"
    using send_good [of w q buf] by blast
  have "good (n_wr w1 + j)" if "j < length ms" for j
    using Cons.prems [of "Suc j"] that w1(4) by simp
  then obtain w' where "send_msgs send ms w1 = (True, w')"
    "trace w' = trace w1 @ round_effects msg_eff (n_clk w1) ms"
    "n_clk w' = n_clk w1 + 2 * length ms" "n_wr w' = n_wr w1 + length ms"
    using Cons.IH [of w1] by blast
  with w1 m show ?case by simp
qed

lemma send_msgs_bad:
  "j < length ms \<Longrightarrow> (\<And>i. i < j \<Longrightarrow> good (n_wr w + i)) \<Longrightarrow> \<not> good (n_wr w + j) \<Longrightarrow>
   \<exists>w'. send_msgs send ms w = (False, w') \<and> n_wr w' = n_wr w + Suc j \<and>
     trace w' = trace w @ round_effects msg_eff (n_clk w) (take j ms) @
       fail_eff (n_clk w + 2 * j) (fst (ms ! j)) (snd (ms ! j))"
proof (induction ms arbitrary: w j)
  case Nil
  then show ?case by simp
next
  case (Cons m ms)
  obtain q buf where m: "m = (q, buf)" by (cases m)
  show ?case
  proof (cases j)
    case 0
    then show ?thesis using Cons.prems(3) send_bad [of w q buf] m by auto
  next
    case (Suc j')
    have "good (n_wr w)" using Cons.prems(2) [of 0] Suc by simp
    then obtain w1 where w1: "send q buf w = (True, w1)"
      "trace w1 = trace w @ msg_eff (n_clk w) q buf" "n_clk w1 = n_clk w + 2" "n_wr w1 = n_wr w + 1"
      using send_good [of w q buf] by blast
    have "good (n_wr w1 + i)" if "i < j'" for i
      using Cons.prems(2) [of "Suc i"] that w1(4) Suc by simp
    then obtain w' where "send_msgs send ms w1 = (False, w')" "n_wr w' = n_wr w1 + Suc j'"
      "trace w' = trace w1 @ round_effects msg_eff (n_clk w1) (take j' ms) @
         fail_eff (n_clk w1 + 2 * j') (fst (ms ! j')) (snd (ms ! j'))"
      using Cons.IH [of j' w1] Cons.prems(1,3) w1(4) Suc by auto
    with w1 m Suc show ?thesis by simp
  qed
qed

text \<open>Whatever the socket answers: the result and that no assertion fails.\<close>

lemma send_msgs_total:
  "\<exists>ok w' es. send_msgs send ms w = (ok, w') \<and> trace w' = trace w @ es \<and> asserts_ok es"
proof (induction ms arbitrary: w)
  case Nil
  then show ?case by (intro exI [of _ True] exI [of _ w] exI [of _ "[]"]) simp
next
  case (Cons m ms)
  obtain q buf where m: "m = (q, buf)" by (cases m)
  show ?case
  proof (cases "good (n_wr w)")
    case True
    then obtain w1 where w1: "send q buf w = (True, w1)"
      "trace w1 = trace w @ msg_eff (n_clk w) q buf"
      using send_good [of w q buf] by blast
    obtain ok w' es where "send_msgs send ms w1 = (ok, w')" "trace w' = trace w1 @ es" "asserts_ok es"
      using Cons.IH [of w1] by blast
    with w1 m eff_asserts(1) [of "n_clk w" q buf] show ?thesis by simp
  next
    case False
    with send_bad [of w q buf] m eff_asserts(2) [of "n_clk w" q buf] show ?thesis by auto
  qed
qed

text \<open>The same for a round of the array, as the timers start it.\<close>

lemma send_round_good:
  assumes "config_ok a" and "datas_ok a mem" and "unat r < unat (round_num a)"
    and "\<And>j. j < unat (num_per_round a) \<Longrightarrow> good (n_wr w + j)"
  shows "\<exists>w'. send_round send a 0 (r * num_per_round a) (unat (r * num_per_round a * msg_size a)) mem w =
      Some (True, mem, w') \<and>
    trace w' = trace w @ round_effects msg_eff (n_clk w) (round_msgs a mem (unat r)) \<and>
    n_clk w' = n_clk w + 2 * unat (num_per_round a) \<and> n_wr w' = n_wr w + unat (num_per_round a)"
  using send_msgs_good [of "round_msgs a mem (unat r)" w] assms(4)
  by (auto simp: send_round_msgs [OF assms(1-3)])

lemma send_round_bad:
  assumes "config_ok a" and "datas_ok a mem" and "unat r < unat (round_num a)"
    and "j < unat (num_per_round a)" and "\<And>i. i < j \<Longrightarrow> good (n_wr w + i)"
    and "\<not> good (n_wr w + j)"
  shows "\<exists>w'. send_round send a 0 (r * num_per_round a) (unat (r * num_per_round a * msg_size a)) mem w =
      Some (False, mem, w') \<and> n_wr w' = n_wr w + Suc j \<and>
    trace w' = trace w @ round_effects msg_eff (n_clk w) (take j (round_msgs a mem (unat r))) @
      fail_eff (n_clk w + 2 * j) (fst (round_msgs a mem (unat r) ! j))
        (snd (round_msgs a mem (unat r) ! j))"
  using send_msgs_bad [of j "round_msgs a mem (unat r)" w] assms(4-6)
  by (auto simp: send_round_msgs [OF assms(1-3)])

lemma send_round_total:
  assumes "config_ok a" and "datas_ok a mem" and "unat r < unat (round_num a)"
  shows "\<exists>ok w' es. send_round send a 0 (r * num_per_round a)
      (unat (r * num_per_round a * msg_size a)) mem w = Some (ok, mem, w') \<and>
    trace w' = trace w @ es \<and> asserts_ok es"
  using send_msgs_total [of "round_msgs a mem (unat r)" w]
  by (auto simp: send_round_msgs [OF assms(1-3)])

end

text \<open>A sender whose messages can be read off the trace.\<close>

locale observed_sender = sender +
  fixes obs :: "effect list \<Rightarrow> bytes list"
  assumes obs_append: "obs (xs @ ys) = obs xs @ obs ys"
    and obs_Nil: "obs [] = []"
    and obs_msg: "obs (msg_eff k q buf) = [buf]" "obs (fail_eff k q buf) = [buf]"
begin

lemma obs_round: "obs (round_effects msg_eff k ms) = map snd ms"
  by (induction ms arbitrary: k) (auto simp: obs_append obs_Nil obs_msg)

end

section \<open>The messages of the array\<close>

lemma slot_length [simp]: "datas_ok a mem \<Longrightarrow> k < n_msgs a \<Longrightarrow> length (slot a mem k) = unat (msg_size a)"
  using mult_le_if_less [of k "n_msgs a" "unat (msg_size a)"] by (simp add: slot_def datas_ok_def)

lemma slot_msg:
  assumes mem: "datas_ok a mem" and k: "k < n_msgs a" and M: "16 \<le> unat (msg_size a)"
  shows "\<exists>pad. slot a mem k = msg_head a (word_of_nat k) @ pad"
proof -
  have "get_bytes mem (k * unat (msg_size a)) 16 = Some (msg_head a (word_of_nat k))"
    using mem k by (simp add: datas_ok_def head_ok_def)
  then have "take 16 (slot a mem k) = msg_head a (word_of_nat k)"
    using M by (simp add: slot_def get_bytes_def min_def split: if_splits)
  then show ?thesis by (metis append_take_drop_id)
qed

lemma msg_head_dec:
  "dec_hdr (msg_head a q @ pad) = \<lparr>msg_id = 1, payload_len = msg_size a - 8\<rparr>"
  "dec_data (drop 8 (msg_head a q @ pad)) = \<lparr>msg_user_id = user_id a, msg_sequence = q\<rparr>"
  by (simp_all add: msg_head_def hdr.dec_enc data.dec_enc)

definition round_slots :: "nb_sys_args_t \<Rightarrow> bytes \<Rightarrow> nat \<Rightarrow> bytes list" where
  "round_slots a mem r =
     map (slot a mem) [r * unat (num_per_round a) ..< Suc r * unat (num_per_round a)]"

lemma round_msgs_snd [simp]: "map snd (round_msgs a mem r) = round_slots a mem r"
  by (simp add: round_msgs_def round_slots_def o_def)

lemma concat_round_slots:
  "concat (map (round_slots a mem) [0..<r]) = map (slot a mem) [0..<r * unat (num_per_round a)]"
proof (induction r)
  case (Suc r)
  have "[0..<Suc r * unat (num_per_round a)] = [0..<r * unat (num_per_round a)] @
      [r * unat (num_per_round a)..<Suc r * unat (num_per_round a)]"
    using upt_add_eq_append [of 0 "r * unat (num_per_round a)" "unat (num_per_round a)"]
    by (simp add: add.commute)
  with Suc show ?case by (simp add: round_slots_def)
qed simp

text \<open>Message \<open>k\<close> of the array, as a receiver reads it.\<close>

lemma slot_dec:
  assumes "config_ok a" and "datas_ok a mem" and "k < n_msgs a"
  shows "length (slot a mem k) = unat (msg_size a)"
    and "dec_hdr (slot a mem k) = \<lparr>msg_id = 1, payload_len = msg_size a - 8\<rparr>"
    and "dec_data (drop 8 (slot a mem k)) = \<lparr>msg_user_id = user_id a, msg_sequence = word_of_nat k\<rparr>"
proof -
  obtain pad where "slot a mem k = msg_head a (word_of_nat k) @ pad"
    using slot_msg [OF assms(2,3)] assms(1) by (auto simp: config_ok_def)
  then show "dec_hdr (slot a mem k) = \<lparr>msg_id = 1, payload_len = msg_size a - 8\<rparr>"
    and "dec_data (drop 8 (slot a mem k)) = \<lparr>msg_user_id = user_id a, msg_sequence = word_of_nat k\<rparr>"
    by (simp_all only: msg_head_dec)
qed (simp add: assms)

lemma prepare_datas_datas_ok:
  "config_ok a \<Longrightarrow> prepare_datas a fill = Some mem \<Longrightarrow> datas_ok a mem"
  using prepare_datas_ok [of a fill] by auto

end
