(* ===== verification/Demo.thy ===== *)
theory Demo
  imports SendRound Session
begin

text \<open>
  A small configuration on which the witnesses of the properties run: two rounds of two
  messages of 16 bytes, a clock that goes forward by a second with every reading, and
  a socket that takes every message (or fails at one).
\<close>

definition demo_str :: "string \<Rightarrow> nat \<Rightarrow> string" where
  "demo_str s n = s @ replicate (n - length s) NUL"

definition demo_args :: nb_sys_args_t where
  "demo_args = (zero_args 16)\<lparr>conn_host := demo_str ''h'' 16, conn_port := demo_str ''80'' 16,
     serv_host := demo_str ''s'' 16, serv_port := demo_str ''81'' 16,
     bind_host := demo_str ''b'' 16, bind_port := demo_str ''82'' 16,
     user_id := 7, round_num := 2, num_per_round := 2, round_interval_ms := 1000, msg_size := 16\<rparr>"

definition demo_mem :: bytes where
  "demo_mem = concat (map (msg_head demo_args) [0, 1, 2, 3])"

definition demo_env :: env where
  "demo_env = \<lparr>clk = (\<lambda>k. \<lparr>tv_sec = int k, tv_nsec = 0\<rparr>), wr = (\<lambda>_. 16), opened = (\<lambda>_. Some 5)\<rparr>"

text \<open>The socket fails at its second message.\<close>

definition demo_env_fail :: env where
  "demo_env_fail = demo_env\<lparr>wr := (\<lambda>k. if k = 1 then -1 else 16)\<rparr>"

lemma demo_args_simps [simp]:
  "msg_size demo_args = 16" "round_num demo_args = 2" "num_per_round demo_args = 2"
  "user_id demo_args = 7" "round_interval_ms demo_args = 1000"
  by (simp_all add: demo_args_def zero_args_def)

lemma demo_env_simps [simp]:
  "wr demo_env k = 16" "clk demo_env k = \<lparr>tv_sec = int k, tv_nsec = 0\<rparr>" "opened demo_env k = Some 5"
  "wr demo_env_fail k = (if k = 1 then -1 else 16)"
  "clk demo_env_fail k = \<lparr>tv_sec = int k, tv_nsec = 0\<rparr>"
  by (simp_all add: demo_env_def demo_env_fail_def)

lemma demo_n_msgs [simp]: "n_msgs demo_args = 4"
  by (simp add: n_msgs_def)

lemma demo_config [simp]: "config_ok demo_args"
  by (simp add: config_ok_def)

lemma demo_datas [simp]: "datas_ok demo_args demo_mem"
proof -
  have "k = 0 \<or> k = 1 \<or> k = 2 \<or> k = 3" if "k < 4" for k :: nat using that by arith
  moreover have "head_ok demo_args demo_mem 0 \<and> head_ok demo_args demo_mem 1 \<and>
      head_ok demo_args demo_mem 2 \<and> head_ok demo_args demo_mem 3"
    by (simp add: head_ok_def demo_mem_def get_bytes_def)
  ultimately show ?thesis
    by (auto simp: datas_ok_def) (simp add: demo_mem_def)
qed

lemma demo_prepare [simp]: "prepare_datas demo_args (\<lambda>_. 0) = Some demo_mem"
  by code_simp

lemma demo_slots [simp]:
  "round_slots demo_args demo_mem 0 = [msg_head demo_args 0, msg_head demo_args 1]"
  "map (slot demo_args demo_mem) [0..<4] =
     [msg_head demo_args 0, msg_head demo_args 1, msg_head demo_args 2, msg_head demo_args 3]"
  by (simp_all add: round_slots_def slot_def demo_mem_def upt_rec)

lemma demo_strings [simp]:
  "cstr (conn_host demo_args) = ''h''" "cstr (conn_port demo_args) = ''80''"
  "cstr (serv_host demo_args) = ''s''" "cstr (serv_port demo_args) = ''81''"
  "cstr (bind_host demo_args) = ''b''" "cstr (bind_port demo_args) = ''82''"
  by code_simp+

text \<open>The same without a pause between the rounds.\<close>

definition demo_fast :: nb_sys_args_t where
  "demo_fast = demo_args\<lparr>round_interval_ms := 0\<rparr>"

lemma demo_fast_simps [simp]:
  "msg_size demo_fast = 16" "round_num demo_fast = 2" "num_per_round demo_fast = 2"
  "user_id demo_fast = 7" "round_interval_ms demo_fast = 0" "n_msgs demo_fast = 4"
  by (simp_all add: demo_fast_def n_msgs_def)

lemma demo_fast_config [simp]: "config_ok demo_fast"
  by (simp add: config_ok_def)

lemma demo_fast_prepare [simp]: "prepare_datas demo_fast (\<lambda>_. 0) = Some demo_mem"
  by code_simp

lemma demo_fast_slots [simp]:
  "map (slot demo_fast demo_mem) [0..<4] =
     [msg_head demo_args 0, msg_head demo_args 1, msg_head demo_args 2, msg_head demo_args 3]"
  by (simp add: slot_def demo_mem_def upt_rec)

lemma demo_valid_frame [simp]: "valid_frame (msg_head demo_args q)"
  by (simp add: valid_frame_def is_frame_def frame_len_def msg_head_def hdr.dec_enc)

definition demo_msgs :: "bytes list" where
  "demo_msgs = [msg_head demo_args 0, msg_head demo_args 1]"

lemma demo_msgs_valid: "f \<in> set demo_msgs \<Longrightarrow> valid_frame f"
  by (auto simp: demo_msgs_def)

text \<open>The two messages in three reads, cut inside of a header and inside of a data block.\<close>

definition demo_reads :: "bytes list" where
  "demo_reads = [take 3 (msg_head demo_args 0), drop 3 (msg_head demo_args 0) @ take 10 (msg_head demo_args 1),
     drop 10 (msg_head demo_args 1)]"

lemma demo_reads_simps [simp]:
  "concat demo_msgs = concat demo_reads" "length demo_msgs = 2"
  by (simp_all add: demo_msgs_def demo_reads_def)

end
