(* ===== verification/MessageSpec.thy ===== *)
theory MessageSpec
  imports RefBuffer Receiver Demo
begin

text \<open>
  What the message layer promises its users, stated over the components that make it up: the
  message array of the senders, the send loop of a round, and the session of a receiver with the
  abstract framing of \<open>Framing\<close> as its specification.
\<close>

section \<open>The senders' side\<close>

text \<open>C12: Building the message array stays inside its allocation exactly when there is no message to build,
  or messages have room for header and data block and the size of all of them fits 32 bits. Then
  the array has exactly this size, and message \<open>k\<close> is at its place with message id 1, the right
  payload length, the user id of the options and \<open>k\<close> as sequence number.\<close>

theorem message_array_spec:
  "case prepare_datas a fill of
     None \<Rightarrow> 0 < n_msgs a \<and> (unat (msg_size a) < 16 \<or> 4294967296 \<le> n_msgs a * unat (msg_size a))
   | Some mem \<Rightarrow> (n_msgs a = 0 \<or> 16 \<le> unat (msg_size a) \<and> n_msgs a * unat (msg_size a) < 4294967296) \<and>
       length mem = n_msgs a * unat (msg_size a) \<and> (\<forall>k < n_msgs a. head_ok a mem k)"
proof (cases "n_msgs a = 0")
  case True
  then show ?thesis by (simp add: prepare_datas_empty)
next
  case False
  show ?thesis
  proof (cases "16 \<le> unat (msg_size a) \<and> n_msgs a * unat (msg_size a) < 4294967296")
    case True
    then show ?thesis using prepare_datas_Some [of a fill] by auto
  next
    case no: False
    then show ?thesis using prepare_datas_None [of a fill] False by (simp add: not_le not_less)
  qed
qed

theorem message_array_spec_witness:
  "prepare_datas demo_args (\<lambda>_. 0) = Some demo_mem \<and>
   head_ok demo_args demo_mem 3 \<and> length demo_mem = 64"
  using message_array_spec [of demo_args "\<lambda>_. 0"] by simp

text \<open>C13: The send loop of a round, which walks a pointer through the array and computes the sequence number
  and the offset of the round in 32 bits, is the sending of the list of the round's messages, one
  after the other up to the first failure: it stays inside the array, leaves it unchanged, and
  does not depend on how a message is sent.\<close>

theorem send_loop_refines_list:
  assumes "config_ok a" and "datas_ok a mem" and "unat r < unat (round_num a)"
  shows "send_round send a 0 (r * num_per_round a) (unat (r * num_per_round a * msg_size a)) mem w =
    (case send_msgs send (round_msgs a mem (unat r)) w of (ok, w') \<Rightarrow> Some (ok, mem, w'))"
  using send_round_msgs [OF assms, of send w] by (simp add: Let_def case_prod_beta)

theorem send_loop_refines_list_witness:
  "send_round (\<lambda>q buf w. (q \<noteq> 3, emit (SockWrite 7 buf) w)) demo_args 0 2 32 demo_mem world0 =
     Some (False, demo_mem, emits [SockWrite 7 (msg_head demo_args 2), SockWrite 7 (msg_head demo_args 3)] world0)"
proof -
  have "round_msgs demo_args demo_mem 1 = [(2, msg_head demo_args 2), (3, msg_head demo_args 3)]"
    by (simp add: round_msgs_def slot_def demo_mem_def upt_rec)
  then show ?thesis
    using send_loop_refines_list [of demo_args demo_mem 1 "\<lambda>q buf w. (q \<noteq> 3, emit (SockWrite 7 buf) w)" world0]
    by (simp add: emit_emits)
qed

section \<open>The receivers' side\<close>

text \<open>C4: One call of the session's handler reads bytes off the socket until there are none or the buffer is
  full, hands the complete messages of what was pending and what it read to the callback, each once
  and in order, and keeps the rest in the buffer: it refines the abstract framing, whatever the
  buffer does inside of its contract, and it returns. A message is copied where the buffer does not have
  it in one piece, and every copy is freed after its callback.\<close>

theorem session_refines_framing:
  assumes "bytes_buffer_ok ops ok data" and "ok (bytes_buf s)" and "msg_len_limit s = 0"
    and "reads_ok rds" and "\<And>k. wf_stream (data (bytes_buf s) @ concat (take k rds))"
    and "\<And>f. is_frame f \<Longrightarrow> 16 \<le> length f \<Longrightarrow> length f < 2147483648 \<Longrightarrow> frame_cb (call (session_cb s)) g f"
  shows "\<exists>us rest b' w0 ms.
    nb_tcp_session_on_msg ops call c rds s w =
      Some (Some (rest, s\<lparr>bytes_buf := b'\<rparr>, fold (deliver g) ms w0)) \<and>
    map snd ms = fst (split_frames (data (bytes_buf s) @ concat us)) \<and>
    ok b' \<and> data b' = snd (split_frames (data (bytes_buf s) @ concat us)) \<and>
    (rds = us @ rest \<or> rds = us @ [] # rest) \<and>
    (w0 = w \<or> w0 = emit (Log L_ERROR ''bytes buffer full'') w)"
proof -
  have "\<And>bs. bs \<in> set rds \<Longrightarrow> length bs \<le> NET_BENCH_TCP_RECV_UNIT_SIZE"
    using assms(4) by (simp add: reads_ok_def)
  from on_msg_frames [where call = call and s = s, OF assms(1-3) this assms(5,6), of c w] show ?thesis by blast
qed

text \<open>A callback that writes every message it gets to the context 9.\<close>

definition demo_cb :: msg_callback where
  "demo_cb w mem n = map_option (\<lambda>b. emit (SockWrite 9 b) w) (get_bytes mem 0 (8 + unat n))"

lemma demo_cb_frame: "is_frame f \<Longrightarrow> frame_cb demo_cb (\<lambda>f. emit (SockWrite 9 f)) f"
  by (auto simp: frame_cb_def demo_cb_def get_bytes_def is_frame_def frame_len_def)

definition demo_plain_session :: "(nat \<times> bytes) nb_tcp_session_t" where
  "demo_plain_session = \<lparr>session_cb = Fn_tcp_upstream_handle_message, mem_res = True, bytes_buf = (NET_BENCH_TCP_BUF_SIZE, []), msg_len_limit = 0, role = 0\<rparr>"

theorem session_refines_framing_witness:
  "\<exists>us rest b' w0 ms. nb_tcp_session_on_msg (list_bb True) (\<lambda>_. demo_cb) 4 demo_reads demo_plain_session world0 =
      Some (Some (rest, demo_plain_session\<lparr>bytes_buf := b'\<rparr>,
        fold (deliver (\<lambda>f. emit (SockWrite 9 f))) ms w0)) \<and>
    map snd ms = fst (split_frames (concat us)) \<and>
    (demo_reads = us @ rest \<or> demo_reads = us @ [] # rest)"
proof -
  have "wf_stream (snd (bytes_buf demo_plain_session) @ concat (take k demo_reads))" for k
  proof (rule wf_stream_prefix [OF demo_msgs_valid])
    show "concat demo_msgs = (snd (bytes_buf demo_plain_session) @ concat (take k demo_reads)) @
        concat (drop k demo_reads)"
      by (metis append_Nil append_take_drop_id concat_append demo_plain_session_def demo_reads_simps(1)
          nb_tcp_session_t.select_convs(3) snd_conv)
  qed
  moreover have "list_bb_ok (bytes_buf demo_plain_session)" "msg_len_limit demo_plain_session = 0"
    "reads_ok demo_reads" "snd (bytes_buf demo_plain_session) = []"
    by (simp_all add: demo_plain_session_def list_bb_ok_def reads_ok_def demo_reads_def)
  ultimately show ?thesis
    using session_refines_framing [where call = "\<lambda>_. demo_cb" and c = 4 and w = world0,
      OF list_bb_contract [of True] _ _ _ _ demo_cb_frame, of demo_plain_session demo_reads]
    by (metis append_Nil)
qed

text \<open>C32: A header whose payload length is \<open>2^32 - 8\<close> is the end of a receiver: with header and payload the
  length is 0 in 32 bits, so nothing is consumed. Where the buffer gives a pointer to the header, as it does for
  zero bytes in one piece, and the callback returns, the handler that has read such a header never
  returns; where the buffer has the handler copy, it copies zero bytes and reads the header past the end of the copy.\<close>

theorem wrapped_length_never_returns:
  assumes "bytes_buffer_ok ops ok data" and "ok (bytes_buf s)" and "msg_len_limit s = 0"
    and "data (bytes_buf s) = []" and "bb_writer_fc ops (bytes_buf s) (int NET_BENCH_TCP_RECV_UNIT_SIZE) \<noteq> None"
    and "8 \<le> length bs" and "length bs \<le> NET_BENCH_TCP_RECV_UNIT_SIZE" and "payload_len (dec_hdr bs) = -8"
  shows "((\<forall>b. ok b \<longrightarrow> (\<exists>mem. bb_reader_fc ops b 0 = Some mem \<and> 8 \<le> length mem)) \<and>
      (\<forall>w mem n. 8 \<le> length mem \<longrightarrow> call (session_cb s) w mem n \<noteq> None) \<longrightarrow>
      nb_tcp_session_on_msg ops call c [bs] s w = None) \<and>
    ((\<forall>b. ok b \<longrightarrow> bb_reader_fc ops b 0 = None) \<longrightarrow>
      nb_tcp_session_on_msg ops call c [bs] s w = Some None)"
proof -
  obtain p where p: "bb_writer_fc ops (bytes_buf s) (int NET_BENCH_TCP_RECV_UNIT_SIZE) = Some p"
    using assms(5) by blast
  have ne: "bs \<noteq> []" using assms(6) by auto
  obtain b1 where b1: "bb_writer_move_n ops (bytes_buf s) p bs = Some b1" "ok b1" "data b1 = bs"
    using bb_writeD [OF assms(1,2) p ne] assms(4,7) by auto
  have "\<exists>w1. read_loop ops c [bs] (bytes_buf s) w = (False, [], b1, w1)"
    using p ne b1(1) by (subst read_loop.simps, simp, subst read_loop.simps) (auto split: option.split)
  then obtain w1 where rl: "read_loop ops c [bs] (bytes_buf s) w = (False, [], b1, w1)" by blast
  have st: "stuck_session ops ok data (s\<lparr>bytes_buf := b1\<rparr>)"
    using assms(1,3,6,8) b1 by (simp add: stuck_session_def)
  have on_msg: "nb_tcp_session_on_msg ops call c [bs] s w =
      map_option (map_option (\<lambda>(s, w). ([], s, w))) (parse_loop ops (call (session_cb s)) c (s\<lparr>bytes_buf := b1\<rparr>) w1)"
    using rl by (simp add: nb_tcp_session_on_msg_def)
  show ?thesis
    using parse_loop_endless [OF st, of "call (session_cb s)" c w1]
      parse_loop_zero_copy [OF st, of "call (session_cb s)" c w1] b1(2) by (simp add: on_msg)
qed

text \<open>The memory a pointer into the buffer leads to goes on behind the bytes that are there.\<close>

theorem wrapped_length_never_returns_witness:
  "nb_tcp_session_on_msg (list_bb False) (\<lambda>_. demo_cb) 4 [enc_hdr \<lparr>msg_id = 1, payload_len = -8\<rparr>]
     demo_plain_session world0 = Some None \<and>
   nb_tcp_session_on_msg ((list_bb True)\<lparr>bb_reader_fc := \<lambda>(cap, d) n.
       if n \<le> int (length d) then Some (d @ replicate 8 0) else None\<rparr>)
     (\<lambda>_ w mem n. Some (emit (Call ''cb'' []) w)) 4 [enc_hdr \<lparr>msg_id = 1, payload_len = -8\<rparr>]
     demo_plain_session world0 = None"
proof -
  let ?ops = "(list_bb True)\<lparr>bb_reader_fc := \<lambda>(cap, d) n.
       if n \<le> int (length d) then Some (d @ replicate 8 0) else None\<rparr>"
  have "bytes_buffer_ok ?ops list_bb_ok snd"
    unfolding bytes_buffer_ok_def list_bb_def list_bb_ok_def list_bb_limit_def
    by (auto split: if_splits)
  from wrapped_length_never_returns [OF this, where s = demo_plain_session and c = 4 and w = world0
      and bs = "enc_hdr \<lparr>msg_id = 1, payload_len = -8\<rparr>" and call = "\<lambda>_ w mem n. Some (emit (Call ''cb'' []) w)"]
    wrapped_length_never_returns [OF list_bb_contract [of False], where s = demo_plain_session
      and bs = "enc_hdr \<lparr>msg_id = 1, payload_len = -8\<rparr>" and call = "\<lambda>_. demo_cb" and c = 4 and w = world0]
  show ?thesis
    by (simp add: demo_plain_session_def list_bb_ok_def list_bb_limit_def hdr.dec_enc_exact)
qed

end
