(* ===== verification/RoundClient.thy ===== *)
theory RoundClient
  imports World
begin

text \<open>
  The interface of a client that works in rounds: a timer callback \<open>tick\<close> that, when
  its time has come and the socket takes everything, sends the messages of one round and goes to
  the next one, and that leaves the event loop when all rounds are done. Both clients provide it.
\<close>

fun ticks :: "('s \<Rightarrow> 's option) \<Rightarrow> nat \<Rightarrow> 's \<Rightarrow> 's option" where
  "ticks tick 0 s = Some s"
| "ticks tick (Suc k) s = Option.bind (tick s) (ticks tick k)"

lemma ticks_add: "ticks tick (j + k) s = Option.bind (ticks tick j s) (ticks tick k)"
  by (induction j arbitrary: s) (auto split: bind_splits)

locale round_client =
  fixes tick :: "'s \<Rightarrow> 's option"
    and good :: "'s \<Rightarrow> bool"           \<comment> \<open>the invariant\<close>
    and online :: "'s \<Rightarrow> bool"         \<comment> \<open>connected, and the socket takes everything\<close>
    and fair :: "'s \<Rightarrow> bool"           \<comment> \<open>the time of every round comes\<close>
    and idx :: "'s \<Rightarrow> nat" and total :: nat
    and sent :: "'s \<Rightarrow> bytes list" and msgs :: "nat \<Rightarrow> bytes list"
    and exited :: "'s \<Rightarrow> bool"
  assumes tick_good: "good s \<Longrightarrow> \<exists>s'. tick s = Some s' \<and> good s' \<and> idx s' \<in> {idx s, Suc (idx s)}"
    and good_idx: "good s \<Longrightarrow> idx s \<le> total"
    and tick_online: "good s \<Longrightarrow> online s \<Longrightarrow> tick s = Some s' \<Longrightarrow>
      online s' \<and> sent s' = sent s @ concat (map msgs [idx s ..< idx s'])"
    and next_round: "good s \<Longrightarrow> online s \<Longrightarrow> fair s \<Longrightarrow> idx s < total \<Longrightarrow>
      \<exists>k s'. ticks tick k s = Some s' \<and> fair s' \<and> idx s' = Suc (idx s)"
    and tick_done: "good s \<Longrightarrow> idx s = total \<Longrightarrow> tick s = Some s' \<Longrightarrow> exited s' \<and> idx s' = total"
begin

text \<open>Whatever happens, the client never gets stuck and never goes back or past the end.\<close>

lemma ticks_good: "good s \<Longrightarrow> \<exists>s'. ticks tick k s = Some s' \<and> good s' \<and> idx s \<le> idx s'"
proof (induction k arbitrary: s)
  case 0
  then show ?case by simp
next
  case (Suc k)
  obtain s1 where s1: "tick s = Some s1" "good s1" "idx s \<le> idx s1"
    using tick_good [OF Suc.prems] by auto
  with Suc.IH [OF s1(2)] show ?case by force
qed

text \<open>Whenever the timer fires: what was sent are the completed rounds, in order.\<close>

lemma ticks_online:
  "good s \<Longrightarrow> online s \<Longrightarrow> ticks tick k s = Some s' \<Longrightarrow>
   online s' \<and> idx s \<le> idx s' \<and> sent s' = sent s @ concat (map msgs [idx s ..< idx s'])"
proof (induction k arbitrary: s)
  case 0
  then show ?case by simp
next
  case (Suc k)
  obtain s1 where s1: "tick s = Some s1" "good s1" "idx s \<le> idx s1"
    using tick_good [OF Suc.prems(1)] by auto
  note o1 = tick_online [OF Suc.prems(1,2) s1(1)]
  have rest: "ticks tick k s1 = Some s'" using Suc.prems(3) s1(1) by simp
  note IH = Suc.IH [OF s1(2) _ rest]
  have "[idx s ..< idx s'] = [idx s ..< idx s1] @ [idx s1 ..< idx s']"
    using upt_add_eq_append [OF s1(3), of "idx s' - idx s1"] IH o1 by simp
  with IH o1 s1(3) show ?case by simp
qed

text \<open>When the time of every round comes, the rounds are completed one after the other.\<close>

lemma ticks_fair:
  "good s \<Longrightarrow> online s \<Longrightarrow> fair s \<Longrightarrow> idx s + n \<le> total \<Longrightarrow>
   \<exists>k s'. ticks tick k s = Some s' \<and> good s' \<and> idx s' = idx s + n"
proof (induction n arbitrary: s)
  case 0
  then show ?case by (intro exI [of _ 0]) simp
next
  case (Suc n)
  obtain k1 s1 where s1: "ticks tick k1 s = Some s1" "fair s1" "idx s1 = Suc (idx s)"
    using next_round [OF Suc.prems(1-3)] Suc.prems(4) by auto
  have "good s1" using ticks_good [OF Suc.prems(1), of k1] s1(1) by simp
  moreover have "online s1" using ticks_online [OF Suc.prems(1,2) s1(1)] by simp
  ultimately obtain k2 s2 where "ticks tick k2 s1 = Some s2" "good s2" "idx s2 = idx s1 + n"
    using Suc.IH [of s1] s1 Suc.prems(4) by auto
  with s1 show ?case by (intro exI [of _ "k1 + k2"] exI [of _ s2]) (simp add: ticks_add)
qed

text \<open>All rounds, then one more tick: every message was sent once, in order, and the loop ends.\<close>

lemma complete:
  assumes "good s" and "online s" and "fair s"
  shows "\<exists>k s'. ticks tick k s = Some s' \<and> exited s' \<and>
    sent s' = sent s @ concat (map msgs [idx s ..< total])"
proof -
  have le: "idx s + (total - idx s) = total" using good_idx [OF assms(1)] by simp
  obtain k s1 where s1: "ticks tick k s = Some s1" "good s1" "idx s1 = total"
    using ticks_fair [OF assms, of "total - idx s"] unfolding le by auto
  obtain s2 where s2: "tick s1 = Some s2" using tick_good [OF s1(2)] by blast
  have t2: "ticks tick (k + 1) s = Some s2"
    unfolding ticks_add by (simp add: s1(1) s2)
  with tick_done [OF s1(2,3) s2] ticks_online [OF assms(1,2) t2] show ?thesis
    by (intro exI [of _ "k + 1"] exI [of _ s2]) simp
qed

end

text \<open>A timer that another one represents makes the same ticks.\<close>

lemma ticks_map:
  assumes "\<And>s. tick1 (f s) = map_option f (tick2 s)"
  shows "ticks tick1 k (f s) = map_option f (ticks tick2 k s)"
proof (induction k arbitrary: s)
  case 0
  then show ?case by simp
next
  case (Suc k)
  then show ?case by (cases "tick2 s") (simp_all add: assms)
qed

end
