(* ===== verification/RoundTimer.thy ===== *)
theory RoundTimer
  imports SendRound RoundClient
begin

text \<open>
  The specification of a timer that works in rounds, which the timer callbacks of both clients
  refine: they differ in how a message is sent and in when a tick is due. The lemmas about
  rounds are proved here once, inside of the locale \<open>round_sender\<close>.
\<close>

record round_state =
  rs_ctx :: "ctx option"
  rs_last_ts :: timespec
  rs_index :: u32
  rs_datas :: bytes

definition round_timer ::
  "env \<Rightarrow> nb_sys_args_t \<Rightarrow> (ctx \<Rightarrow> send_one) \<Rightarrow> (timespec \<Rightarrow> timespec \<Rightarrow> bool) \<Rightarrow>
   round_state \<times> world \<Rightarrow> (round_state \<times> world) option" where
  "round_timer en a send due sw =
     (let (s, w) = sw in
      if round_num a \<le> rs_index s
      then Some (s, emits [Log L_INFO ''task[msg_size=%u] completed, exit evloop'', EvloopExit] w)
      else case rs_ctx s of
        None \<Rightarrow> Some (s, w)
      | Some c \<Rightarrow>
          let t = clk en (n_clk w);
              w = w\<lparr>n_clk := n_clk w + 1\<rparr>
          in if \<not> due t (rs_last_ts s) then Some (s, w)
             else
               map_option (\<lambda>(ok, mem, w).
                   let s = s\<lparr>rs_last_ts := t, rs_datas := mem\<rparr>
                   in if ok then (s\<lparr>rs_index := rs_index s + 1\<rparr>,
                                  emit (Log L_DEBUG ''round[%u] completed'') w)
                      else (s, w))
                 (send_round (send c) a 0 (rs_index s * num_per_round a)
                    (unat (rs_index s * num_per_round a * msg_size a)) (rs_datas s)
                    (emit (Log L_DEBUG ''round[%u] start'') w)))"

definition round_state_ok :: "nb_sys_args_t \<Rightarrow> round_state \<Rightarrow> bool" where
  "round_state_ok a s \<longleftrightarrow> config_ok a \<and> datas_ok a (rs_datas s) \<and> rs_index s \<le> round_num a"

lemma round_state_okD:
  assumes "round_state_ok a s"
  shows "config_ok a" "datas_ok a (rs_datas s)" "rs_index s \<le> round_num a"
  using assms by (simp_all add: round_state_ok_def)

text \<open>The state in which the loop of a due timer starts.\<close>

definition round_start :: "world \<Rightarrow> world" where
  "round_start w = emit (Log L_DEBUG ''round[%u] start'') (w\<lparr>n_clk := n_clk w + 1\<rparr>)"

lemma round_start_simps [simp]:
  "trace (round_start w) = trace w @ [Log L_DEBUG ''round[%u] start'']"
  "n_clk (round_start w) = n_clk w + 1" "n_wr (round_start w) = n_wr w"
  by (simp_all add: round_start_def)

lemma round_start_fold:
  "emit (Log L_DEBUG ''round[%u] start'') (w\<lparr>n_clk := Suc (n_clk w)\<rparr>) = round_start w"
  by (simp add: round_start_def)

lemma timespec_update [simp]: "t\<lparr>tv_sec := tv_sec u, tv_nsec := tv_nsec u\<rparr> = (u :: timespec)"
  by (cases t, cases u) simp

lemma index_succ:
  "i < round_num a \<Longrightarrow> unat (i + 1) = Suc (unat i) \<and> i + 1 \<le> round_num a"
  using u32_succ_no_wrap [of i "round_num a"] by (simp add: word_less_nat_alt word_le_nat_alt)

definition exited :: "effect list \<Rightarrow> bool" where
  "exited es \<longleftrightarrow> es \<noteq> [] \<and> last es = EvloopExit"

abbreviation sw_idx :: "round_state \<times> world \<Rightarrow> nat" where
  "sw_idx sw \<equiv> unat (rs_index (fst sw))"

definition round_online :: "env \<Rightarrow> nb_sys_args_t \<Rightarrow> ctx \<Rightarrow> round_state \<times> world \<Rightarrow> bool" where
  "round_online en a c sw \<longleftrightarrow>
     rs_ctx (fst sw) = Some c \<and> (\<forall>j \<ge> n_wr (snd sw). wr en j = to_int (msg_size a))"

text \<open>
  The clock is fair when, whatever the time of the last round and however often it was read, some
  reading still to come is due. A tick that is too early reads the clock once.
\<close>

definition round_fair :: "env \<Rightarrow> (timespec \<Rightarrow> timespec \<Rightarrow> bool) \<Rightarrow> bool" where
  "round_fair en due \<longleftrightarrow> (\<forall>t n. \<exists>i \<ge> n. due (clk en i) t)"

text \<open>The first answer that is not the wanted one, if there is one.\<close>

lemma first_bad:
  assumes "\<not> (\<forall>j < n. P (k + j :: nat))"
  obtains j where "j < n" "\<And>i. i < j \<Longrightarrow> P (k + i)" "\<not> P (k + j)"
proof -
  obtain j where j: "j < n \<and> \<not> P (k + j)" "\<And>i. i < j \<Longrightarrow> \<not> (i < n \<and> \<not> P (k + i))"
    using assms exists_least_iff [of "\<lambda>j. j < n \<and> \<not> P (k + j)"] by blast
  show thesis by (rule that [of j]) (use j in auto)
qed

section \<open>The lemmas of a timer\<close>

locale round_sender =
  fixes en :: env and a :: nb_sys_args_t
    and send :: "ctx \<Rightarrow> send_one" and due :: "timespec \<Rightarrow> timespec \<Rightarrow> bool"
    and msg_eff fail_eff :: "ctx \<Rightarrow> nat \<Rightarrow> u32 \<Rightarrow> bytes \<Rightarrow> effect list"
    and obs :: "ctx \<Rightarrow> effect list \<Rightarrow> bytes list"
  assumes sends: "observed_sender (send c) (\<lambda>k. wr en k = to_int (msg_size a))
      (msg_eff c) (fail_eff c) (obs c)"
    and obs_other: "obs c [Log l t] = []" "obs c [EvloopExit] = []"
begin

lemmas obs_append = observed_sender.obs_append [OF sends]
lemmas obs_Nil = observed_sender.obs_Nil [OF sends]
lemmas obs_round = observed_sender.obs_round [OF sends]
lemmas sends_one = observed_sender.axioms(1) [OF sends]

lemma obs_log2: "obs c (Log l t # es) = obs c es" "obs c (EvloopExit # es) = obs c es"
  using obs_append [of c "[Log l t]" es] obs_append [of c "[EvloopExit]" es] by (simp_all add: obs_other)

lemma tick_finished:
  "rs_index s = round_num a \<Longrightarrow> round_timer en a send due (s, w) =
     Some (s, emits [Log L_INFO ''task[msg_size=%u] completed, exit evloop'', EvloopExit] w)"
  by (simp add: round_timer_def)

lemma tick_unconnected:
  "rs_index s < round_num a \<Longrightarrow> rs_ctx s = None \<Longrightarrow> round_timer en a send due (s, w) = Some (s, w)"
  by (simp add: round_timer_def not_le)

lemma tick_early:
  "rs_index s < round_num a \<Longrightarrow> rs_ctx s = Some c \<Longrightarrow> \<not> due (clk en (n_clk w)) (rs_last_ts s) \<Longrightarrow>
   round_timer en a send due (s, w) = Some (s, w\<lparr>n_clk := n_clk w + 1\<rparr>)"
  by (simp add: round_timer_def not_le)

lemma tick_round:
  assumes "rs_index s < round_num a" and "rs_ctx s = Some c"
    and "due (clk en (n_clk w)) (rs_last_ts s)"
    and "send_round (send c) a 0 (rs_index s * num_per_round a)
      (unat (rs_index s * num_per_round a * msg_size a)) (rs_datas s) (round_start w) =
      Some (ok, rs_datas s, w')"
  shows "round_timer en a send due (s, w) = Some
     (if ok then (s\<lparr>rs_last_ts := clk en (n_clk w), rs_index := rs_index s + 1\<rparr>,
                  emit (Log L_DEBUG ''round[%u] completed'') w')
      else (s\<lparr>rs_last_ts := clk en (n_clk w)\<rparr>, w'))"
  using assms by (cases s) (simp add: round_timer_def not_le round_start_fold)

lemma tick_sends:
  assumes ok: "round_state_ok a s" and r: "rs_index s < round_num a"
    and c: "rs_ctx s = Some c" and d: "due (clk en (n_clk w)) (rs_last_ts s)"
    and wr: "\<And>j. j < unat (num_per_round a) \<Longrightarrow> wr en (n_wr w + j) = to_int (msg_size a)"
  shows "\<exists>w'. round_timer en a send due (s, w) =
      Some (s\<lparr>rs_last_ts := clk en (n_clk w), rs_index := rs_index s + 1\<rparr>, w') \<and>
    trace w' = trace w @ [Log L_DEBUG ''round[%u] start''] @
      round_effects (msg_eff c) (n_clk w + 1) (round_msgs a (rs_datas s) (unat (rs_index s))) @
      [Log L_DEBUG ''round[%u] completed''] \<and>
    n_clk w' = n_clk w + 1 + 2 * unat (num_per_round a) \<and>
    n_wr w' = n_wr w + unat (num_per_round a)"
proof -
  have lt: "unat (rs_index s) < unat (round_num a)" using r by (simp add: word_less_nat_alt)
  obtain w1 where w1: "send_round (send c) a 0 (rs_index s * num_per_round a)
      (unat (rs_index s * num_per_round a * msg_size a)) (rs_datas s) (round_start w) =
      Some (True, rs_datas s, w1)"
    "trace w1 = trace (round_start w) @ round_effects (msg_eff c)
      (n_clk (round_start w)) (round_msgs a (rs_datas s) (unat (rs_index s)))"
    "n_clk w1 = n_clk (round_start w) + 2 * unat (num_per_round a)"
    "n_wr w1 = n_wr (round_start w) + unat (num_per_round a)"
    using sender.send_round_good [OF sends_one [of c] round_state_okD(1,2) [OF ok] lt,
        where w = "round_start w"] wr
    by auto
  show ?thesis
    unfolding tick_round [OF r c d w1(1)] using w1(2-4) by (simp add: add.assoc)
qed

lemma tick_fails:
  assumes ok: "round_state_ok a s" and r: "rs_index s < round_num a"
    and c: "rs_ctx s = Some c" and d: "due (clk en (n_clk w)) (rs_last_ts s)"
    and j: "j < unat (num_per_round a)"
    and wr: "\<And>i. i < j \<Longrightarrow> wr en (n_wr w + i) = to_int (msg_size a)"
    and bad: "wr en (n_wr w + j) \<noteq> to_int (msg_size a)"
  shows "\<exists>w'. round_timer en a send due (s, w) = Some (s\<lparr>rs_last_ts := clk en (n_clk w)\<rparr>, w') \<and>
    n_wr w' = n_wr w + Suc j \<and>
    trace w' = trace w @ [Log L_DEBUG ''round[%u] start''] @
      round_effects (msg_eff c) (n_clk w + 1)
        (take j (round_msgs a (rs_datas s) (unat (rs_index s)))) @
      fail_eff c (n_clk w + 1 + 2 * j)
        (fst (round_msgs a (rs_datas s) (unat (rs_index s)) ! j))
        (snd (round_msgs a (rs_datas s) (unat (rs_index s)) ! j))"
proof -
  have lt: "unat (rs_index s) < unat (round_num a)" using r by (simp add: word_less_nat_alt)
  obtain w1 where w1: "send_round (send c) a 0 (rs_index s * num_per_round a)
      (unat (rs_index s * num_per_round a * msg_size a)) (rs_datas s) (round_start w) =
      Some (False, rs_datas s, w1)"
    "n_wr w1 = n_wr (round_start w) + Suc j"
    "trace w1 = trace (round_start w) @ round_effects (msg_eff c)
        (n_clk (round_start w)) (take j (round_msgs a (rs_datas s) (unat (rs_index s)))) @
      fail_eff c (n_clk (round_start w) + 2 * j)
        (fst (round_msgs a (rs_datas s) (unat (rs_index s)) ! j))
        (snd (round_msgs a (rs_datas s) (unat (rs_index s)) ! j))"
    using sender.send_round_bad [OF sends_one [of c] round_state_okD(1,2) [OF ok] lt j,
        where w = "round_start w"] wr bad
    by auto
  show ?thesis
    unfolding tick_round [OF r c d w1(1)] using w1(2,3) by simp
qed

text \<open>A due timer starts its round: it sends at least the first message.\<close>

lemma tick_due:
  assumes ok: "round_state_ok a s" and r: "rs_index s < round_num a"
    and c: "rs_ctx s = Some c" and d: "due (clk en (n_clk w)) (rs_last_ts s)"
  shows "\<exists>s' w' es k. round_timer en a send due (s, w) = Some (s', w') \<and> trace w' = trace w @ es \<and> es \<noteq> [] \<and>
    obs c es = take k (round_slots a (rs_datas s) (unat (rs_index s))) \<and>
    (num_per_round a \<noteq> 0 \<longrightarrow> 0 < k)"
proof (cases "\<forall>j < unat (num_per_round a). wr en (n_wr w + j) = to_int (msg_size a)")
  case True
  then obtain w' where "round_timer en a send due (s, w) =
      Some (s\<lparr>rs_last_ts := clk en (n_clk w), rs_index := rs_index s + 1\<rparr>, w')"
    "trace w' = trace w @ [Log L_DEBUG ''round[%u] start''] @
      round_effects (msg_eff c) (n_clk w + 1) (round_msgs a (rs_datas s) (unat (rs_index s))) @
      [Log L_DEBUG ''round[%u] completed'']"
    using tick_sends [OF ok r c d] by blast
  moreover have "num_per_round a \<noteq> 0 \<longrightarrow> 0 < unat (num_per_round a)" by (simp add: unat_gt_0)
  ultimately show ?thesis
    by (intro exI [of _ "s\<lparr>rs_last_ts := clk en (n_clk w), rs_index := rs_index s + 1\<rparr>"] exI [of _ w']
        exI [of _ "[Log L_DEBUG ''round[%u] start''] @
          round_effects (msg_eff c) (n_clk w + 1) (round_msgs a (rs_datas s) (unat (rs_index s))) @
          [Log L_DEBUG ''round[%u] completed'']"] exI [of _ "unat (num_per_round a)"])
       (simp add: obs_append obs_log2 obs_Nil obs_round round_slots_def)
next
  case False
  obtain j where j: "j < unat (num_per_round a)" "\<And>i. i < j \<Longrightarrow> wr en (n_wr w + i) = to_int (msg_size a)"
    "wr en (n_wr w + j) \<noteq> to_int (msg_size a)" by (rule first_bad [OF False]) blast
  let ?ms = "round_msgs a (rs_datas s) (unat (rs_index s))"
  let ?es = "[Log L_DEBUG ''round[%u] start''] @ round_effects (msg_eff c) (n_clk w + 1) (take j ?ms) @
      fail_eff c (n_clk w + 1 + 2 * j) (fst (?ms ! j)) (snd (?ms ! j))"
  obtain w' where w': "round_timer en a send due (s, w) = Some (s\<lparr>rs_last_ts := clk en (n_clk w)\<rparr>, w')"
    "trace w' = trace w @ ?es"
    using tick_fails [OF ok r c d j] by blast
  have "take (Suc j) ?ms = take j ?ms @ [?ms ! j]" using j(1) by (simp add: take_Suc_conv_app_nth)
  then have "obs c ?es = map snd (take (Suc j) ?ms)"
    by (simp add: obs_append obs_log2 obs_round observed_sender.obs_msg(2) [OF sends])
  then have "obs c ?es = take (Suc j) (round_slots a (rs_datas s) (unat (rs_index s)))"
    by (simp only: take_map [symmetric] round_msgs_snd)
  with w' show ?thesis
    by (intro exI [of _ "s\<lparr>rs_last_ts := clk en (n_clk w)\<rparr>"] exI [of _ w'] exI [of _ ?es] exI [of _ "Suc j"]) simp
qed

lemma tick_invariant:
  assumes ok: "round_state_ok a s"
  shows "\<exists>s' w' es. round_timer en a send due (s, w) = Some (s', w') \<and> round_state_ok a s' \<and>
    rs_datas s' = rs_datas s \<and> rs_ctx s' = rs_ctx s \<and>
    unat (rs_index s') \<in> {unat (rs_index s), Suc (unat (rs_index s))} \<and>
    trace w' = trace w @ es \<and> asserts_ok es"
proof -
  consider (finished) "rs_index s = round_num a"
    | (idle) "rs_index s < round_num a" "rs_ctx s = None"
    | (early) c where "rs_index s < round_num a" "rs_ctx s = Some c"
        "\<not> due (clk en (n_clk w)) (rs_last_ts s)"
    | (round) c where "rs_index s < round_num a" "rs_ctx s = Some c"
        "due (clk en (n_clk w)) (rs_last_ts s)"
    using round_state_okD(3) [OF ok] by (cases "rs_ctx s") (auto simp: le_less)
  then show ?thesis
  proof cases
    case finished
    then show ?thesis by (simp add: tick_finished ok)
  next
    case idle
    then show ?thesis by (simp add: tick_unconnected ok)
  next
    case early
    then show ?thesis by (simp add: tick_early ok)
  next
    case round
    then have lt: "unat (rs_index s) < unat (round_num a)" by (simp add: word_less_nat_alt)
    obtain r w1 es where w1: "send_round (send c) a 0 (rs_index s * num_per_round a)
        (unat (rs_index s * num_per_round a * msg_size a)) (rs_datas s) (round_start w) =
        Some (r, rs_datas s, w1)"
      "trace w1 = trace (round_start w) @ es" "asserts_ok es"
      using sender.send_round_total [OF sends_one [of c] round_state_okD(1,2) [OF ok] lt,
          where w = "round_start w"] by blast
    show ?thesis
      unfolding tick_round [OF round w1(1)]
      using w1(2,3) ok index_succ [OF round(1)] by (cases r) (simp_all add: round_state_ok_def)
  qed
qed

lemma tick_keeps_online:
  assumes ok: "round_state_ok a (fst sw)" and on: "round_online en a c sw" and t: "round_timer en a send due sw = Some sw'"
  shows "round_online en a c sw' \<and> obs c (trace (snd sw')) = obs c (trace (snd sw)) @
      concat (map (round_slots a (rs_datas (fst sw))) [sw_idx sw ..< sw_idx sw'])"
proof -
  obtain s w where sw: "sw = (s, w)" by (cases sw)
  have c: "rs_ctx s = Some c" and wr: "\<And>j. n_wr w \<le> j \<Longrightarrow> wr en j = to_int (msg_size a)"
    using on by (auto simp: round_online_def sw)
  consider (finished) "rs_index s = round_num a"
    | (early) "rs_index s < round_num a" "\<not> due (clk en (n_clk w)) (rs_last_ts s)"
    | (round) "rs_index s < round_num a" "due (clk en (n_clk w)) (rs_last_ts s)"
    using round_state_okD(3) [OF ok] by (auto simp: sw le_less)
  then show ?thesis
  proof cases
    case finished
    with t on show ?thesis
      by (auto simp: tick_finished round_online_def sw obs_append obs_log2 obs_other obs_Nil)
  next
    case early
    with t on show ?thesis by (auto simp: tick_early [OF _ c] round_online_def sw)
  next
    case round
    obtain w' where w': "round_timer en a send due (s, w) =
        Some (s\<lparr>rs_last_ts := clk en (n_clk w), rs_index := rs_index s + 1\<rparr>, w')"
      "trace w' = trace w @ [Log L_DEBUG ''round[%u] start''] @
        round_effects (msg_eff c) (n_clk w + 1) (round_msgs a (rs_datas s) (unat (rs_index s))) @
        [Log L_DEBUG ''round[%u] completed'']"
      "n_wr w' = n_wr w + unat (num_per_round a)"
      using tick_sends [OF ok [unfolded sw fst_conv] round(1) c round(2)] wr by auto
    show ?thesis
      using t w' wr c index_succ [OF round(1)]
      by (auto simp: sw round_online_def obs_append obs_log2 obs_other obs_Nil obs_round)
  qed
qed

text \<open>Ticks that are too early, until one is due.\<close>

lemma ticks_until_due:
  assumes ok: "round_state_ok a s" and r: "rs_index s < round_num a" and c: "rs_ctx s = Some c"
    and wr: "\<And>j. j < unat (num_per_round a) \<Longrightarrow> wr en (n_wr w + j) = to_int (msg_size a)"
    and d: "due (clk en (n_clk w + i)) (rs_last_ts s)"
  shows "\<exists>k s' w'. ticks (round_timer en a send due) k (s, w) = Some (s', w') \<and>
    rs_index s' = rs_index s + 1"
  using wr d
proof (induction i arbitrary: w)
  case 0
  then obtain w' where "round_timer en a send due (s, w) =
      Some (s\<lparr>rs_last_ts := clk en (n_clk w), rs_index := rs_index s + 1\<rparr>, w')"
    using tick_sends [OF ok r c, of w] by auto
  then show ?case by (intro exI [of _ 1]) simp
next
  case (Suc i)
  show ?case
  proof (cases "due (clk en (n_clk w)) (rs_last_ts s)")
    case True
    then obtain w' where "round_timer en a send due (s, w) =
        Some (s\<lparr>rs_last_ts := clk en (n_clk w), rs_index := rs_index s + 1\<rparr>, w')"
      using tick_sends [OF ok r c True] Suc.prems(1) by auto
    then show ?thesis by (intro exI [of _ 1]) simp
  next
    case False
    obtain k s' w' where "ticks (round_timer en a send due) k (s, w\<lparr>n_clk := n_clk w + 1\<rparr>) = Some (s', w')"
      "rs_index s' = rs_index s + 1"
      using Suc.IH [of "w\<lparr>n_clk := n_clk w + 1\<rparr>"] Suc.prems by auto
    with tick_early [OF r c False] show ?thesis by (intro exI [of _ "Suc k"]) simp
  qed
qed

lemma fair_next_round:
  assumes ok: "round_state_ok a (fst sw)" and on: "round_online en a c sw" and f: "round_fair en due"
    and lt: "sw_idx sw < unat (round_num a)"
  shows "\<exists>k sw'. ticks (round_timer en a send due) k sw = Some sw' \<and> sw_idx sw' = Suc (sw_idx sw)"
proof -
  obtain s w where sw: "sw = (s, w)" by (cases sw)
  have r: "rs_index s < round_num a" using lt by (simp add: sw word_less_nat_alt)
  obtain j where "n_clk w \<le> j" "due (clk en j) (rs_last_ts s)" using f by (auto simp: round_fair_def)
  then have d: "due (clk en (n_clk w + (j - n_clk w))) (rs_last_ts s)" by simp
  obtain k s' w' where "ticks (round_timer en a send due) k (s, w) = Some (s', w')"
    "rs_index s' = rs_index s + 1"
    using ticks_until_due [OF _ r _ _ d] ok on by (auto simp: sw round_online_def)
  with index_succ [OF r] show ?thesis
    by (intro exI [of _ k] exI [of _ "(s', w')"]) (simp add: sw)
qed

end

text \<open>Such a timer is a client that works in rounds.\<close>

sublocale round_sender \<subseteq> rounds: round_client "round_timer en a send due"
  "\<lambda>sw. round_state_ok a (fst sw) \<and> rs_datas (fst sw) = mem" "round_online en a c" "\<lambda>_. round_fair en due"
  sw_idx "unat (round_num a)" "\<lambda>sw. obs c (trace (snd sw))" "round_slots a mem"
  "\<lambda>sw. exited (trace (snd sw))" for c mem
proof unfold_locales
  fix sw sw' :: "round_state \<times> world"
  assume good: "round_state_ok a (fst sw) \<and> rs_datas (fst sw) = mem"
  obtain s w where sw: "sw = (s, w)" by (cases sw)
  show "\<exists>sw'. round_timer en a send due sw = Some sw' \<and> (round_state_ok a (fst sw') \<and> rs_datas (fst sw') = mem) \<and>
      sw_idx sw' \<in> {sw_idx sw, Suc (sw_idx sw)}"
    using tick_invariant [of s w] good by (auto simp: sw)
  show "sw_idx sw \<le> unat (round_num a)"
    using good by (simp add: round_state_ok_def word_le_nat_alt)
  show "\<exists>k sw'. ticks (round_timer en a send due) k sw = Some sw' \<and> round_fair en due \<and>
      sw_idx sw' = Suc (sw_idx sw)"
    if "round_online en a c sw" "round_fair en due" "sw_idx sw < unat (round_num a)"
    using fair_next_round [OF _ that] good that(2) by blast
  assume t: "round_timer en a send due sw = Some sw'"
  show "round_online en a c sw' \<and> obs c (trace (snd sw')) = obs c (trace (snd sw)) @
      concat (map (round_slots a mem) [sw_idx sw ..< sw_idx sw'])" if "round_online en a c sw"
    using tick_keeps_online [OF _ that t] good by blast
  show "exited (trace (snd sw')) \<and> sw_idx sw' = unat (round_num a)" if "sw_idx sw = unat (round_num a)"
    using t that tick_finished [of s w] by (auto simp: sw exited_def word_unat_eq_iff)
qed

end
