(* ===== verification/Lifecycle.thy ===== *)
theory Lifecycle
  imports SendRound Session
begin

text \<open>
  The life of the connection a program keeps to its peer and opens again when it closes: the
  event loop adds the contexts the connecting threads give it, and calls the callbacks. Which
  connections are open, and how many connecting threads are under way, is the state of the
  environment; the program's part are its callbacks. The interface \<open>reconnecting\<close> is what the
  TCP client and the TCP server promise with them.
\<close>

section \<open>Reachable states\<close>

record 's life_state =
  lf_open :: "ctx set"      \<comment> \<open>connections added and not closed\<close>
  lf_pending :: nat         \<comment> \<open>threads that will give a connection\<close>
  lf_app :: 's

text \<open>
  \<open>conns\<close> counts the connecting threads the program has started. The first connection is made
  by \<open>run\<close>, which is the one pending at the start.
\<close>

inductive life ::
  "('p \<Rightarrow> ctx \<Rightarrow> 's \<Rightarrow> 's) \<Rightarrow> (ctx \<Rightarrow> 's \<Rightarrow> 's) \<Rightarrow> ('q \<Rightarrow> 's \<Rightarrow> 's option) \<Rightarrow>
   ('q \<Rightarrow> ctx set \<Rightarrow> 's \<Rightarrow> bool) \<Rightarrow> ('s \<Rightarrow> nat) \<Rightarrow> 's \<Rightarrow> 's life_state \<Rightarrow> bool"
  for add close other allowed conns s0 where
  start: "life add close other allowed conns s0 \<lparr>lf_open = {}, lf_pending = 1, lf_app = s0\<rparr>"
| add: "life add close other allowed conns s0 st \<Longrightarrow> 0 < lf_pending st \<Longrightarrow> c \<notin> lf_open st \<Longrightarrow>
    life add close other allowed conns s0
      \<lparr>lf_open = insert c (lf_open st),
       lf_pending = lf_pending st - 1 + (conns (add p c (lf_app st)) - conns (lf_app st)),
       lf_app = add p c (lf_app st)\<rparr>"
| close: "life add close other allowed conns s0 st \<Longrightarrow> c \<in> lf_open st \<Longrightarrow>
    life add close other allowed conns s0
      \<lparr>lf_open = lf_open st - {c},
       lf_pending = lf_pending st + (conns (close c (lf_app st)) - conns (lf_app st)),
       lf_app = close c (lf_app st)\<rparr>"
| other: "life add close other allowed conns s0 st \<Longrightarrow> allowed q (lf_open st) (lf_app st) \<Longrightarrow>
    other q (lf_app st) = Some s' \<Longrightarrow>
    life add close other allowed conns s0
      \<lparr>lf_open = lf_open st,
       lf_pending = lf_pending st + (conns s' - conns (lf_app st)), lf_app = s'\<rparr>"

inductive_cases life_addE: "life add close other allowed conns s0 \<lparr>lf_open = insert c U, lf_pending = n, lf_app = s\<rparr>"

locale reconnecting =
  fixes add :: "'p \<Rightarrow> ctx \<Rightarrow> 's \<Rightarrow> 's" and close :: "ctx \<Rightarrow> 's \<Rightarrow> 's"
    and other :: "'q \<Rightarrow> 's \<Rightarrow> 's option" and allowed :: "'q \<Rightarrow> ctx set \<Rightarrow> 's \<Rightarrow> bool"
    and conns :: "'s \<Rightarrow> nat" and cur :: "'s \<Rightarrow> ctx option" and good :: "ctx set \<Rightarrow> 's \<Rightarrow> bool"
  assumes add_good: "good {} s \<Longrightarrow> good {c} (add p c s) \<and> conns (add p c s) = conns s"
    and close_good: "good {c} s \<Longrightarrow> good {} (close c s) \<and> conns (close c s) = Suc (conns s)"
    and other_good: "good U s \<Longrightarrow> allowed q U s \<Longrightarrow> other q s = Some s' \<Longrightarrow>
      good U s' \<and> conns s' = conns s"
    and cur_open: "good U s \<Longrightarrow> cur s = Some c \<Longrightarrow> c \<in> U"
begin

lemma life_invariant:
  assumes "life add close other allowed conns s0 st" and "good {} s0"
  shows "good (lf_open st) (lf_app st) \<and>
    (lf_open st = {} \<and> lf_pending st = 1 \<or> (\<exists>c. lf_open st = {c}) \<and> lf_pending st = 0)"
  using assms
proof induction
  case start
  then show ?case by simp
next
  case (add st c p)
  then have "lf_open st = {}" "lf_pending st = 1" "good {} (lf_app st)" by auto
  with add_good [of "lf_app st" c p] show ?case by simp
next
  case (close st c)
  then have "lf_open st = {c}" "lf_pending st = 0" "good {c} (lf_app st)" by auto
  with close_good [of c "lf_app st"] show ?case by simp
next
  case (other st q s')
  with other_good [of "lf_open st" "lf_app st" q s'] show ?case by simp
qed

lemma life_cur:
  "life add close other allowed conns s0 st \<Longrightarrow> good {} s0 \<Longrightarrow> cur (lf_app st) = Some c \<Longrightarrow>
   lf_open st = {c}"
  using life_invariant [of s0 st] cur_open [of "lf_open st" "lf_app st" c] by auto

end

text \<open>What every callback keeps holds in every reachable state.\<close>

lemma life_preserved:
  assumes "life add close other allowed conns s0 st" and "P s0"
    and "\<And>p c s. P s \<Longrightarrow> P (add p c s)" and "\<And>c s. P s \<Longrightarrow> P (close c s)"
    and "\<And>q U s s'. P s \<Longrightarrow> allowed q U s \<Longrightarrow> other q s = Some s' \<Longrightarrow> P s'"
  shows "P (lf_app st)"
  using assms(1) by induction (auto intro: assms)

text \<open>A state with more in it than the program's own, seen without the rest.\<close>

lemma life_map:
  assumes "life add close other allowed conns s0 st"
    and "\<And>p c s. g (add p c s) = add' p c (g s)" and "\<And>c s. g (close c s) = close' c (g s)"
    and "\<And>q U s s'. allowed q U s \<Longrightarrow> other q s = Some s' \<Longrightarrow>
      allowed' q U (g s) \<and> other' q (g s) = Some (g s')"
    and "\<And>s. conns s = conns' (g s)" and "g s0 = t0"
  shows "life add' close' other' allowed' conns' t0
    \<lparr>lf_open = lf_open st, lf_pending = lf_pending st, lf_app = g (lf_app st)\<rparr>"
  using assms(1)
proof induction
  case start
  show ?case using life.start [of add' close' other' allowed' conns' t0] assms(6) by simp
next
  case (add st c p)
  from life.add [OF add.IH, of c p] add.hyps show ?case by (simp add: assms(2,5))
next
  case (close st c)
  from life.close [OF close.IH, of c] close.hyps show ?case by (simp add: assms(3,5))
next
  case (other st q s')
  from life.other [OF other.IH, of q "g s'"] assms(4) [OF other.hyps(2,3)] show ?case
    by (simp add: assms(5))
qed

section \<open>Connecting threads on a trace\<close>

fun async_connects :: "effect list \<Rightarrow> nat" where
  "async_connects [] = 0"
| "async_connects (AsyncConnect # es) = Suc (async_connects es)"
| "async_connects (_ # es) = async_connects es"

lemma async_connects_append [simp]: "async_connects (xs @ ys) = async_connects xs + async_connects ys"
  by (induction xs rule: async_connects.induct) auto

lemma async_connects_record [simp]: "async_connects (record_effects r) = 0"
  by (simp add: record_effects_def)

lemma async_connects_assert [simp]:
  "async_connects (trace (nb_assert b t w)) = async_connects (trace w)"
  by (simp add: nb_assert_def)

section \<open>What the shared layers leave alone\<close>

text \<open>
  The session layer adds log lines, failed assertions and shutdowns to the trace, and changes the
  buffer of the session. Whatever relation between worlds such an effect and the callback of the
  program keep, the whole handler keeps; the same goes for the send loop of a round.
\<close>

locale session_frame =
  fixes rel :: "world \<Rightarrow> world \<Rightarrow> bool"
  assumes rel_refl: "rel w w"
    and rel_trans: "rel w1 w2 \<Longrightarrow> rel w2 w3 \<Longrightarrow> rel w1 w3"
    and rel_emit: "rel w (emits [Log l t] w)" "rel w (emits [AssertFailed t] w)"
      "rel w (emits [SockShutdown c] w)" "rel w (emits [Call f xs] w)"
begin

lemma rel_emits:
  "rel w (emit (Log l t) w)" "rel w (emits [Log l t, SockShutdown c] w)"
  "rel w (emits [AssertFailed t, Log l t', SockShutdown c] w)" "rel w (emit (Call f xs) w)"
proof -
  show "rel w (emit (Call f xs) w)" using rel_emit(4) by (simp add: emit_emits)
  show "rel w (emit (Log l t) w)" using rel_emit(1) by (simp add: emit_emits)
  have two: "rel w (emits [Log l t, SockShutdown c] w)" for w t
    using rel_trans [OF rel_emit(1) [of w l t] rel_emit(3)] by simp
  then show "rel w (emits [Log l t, SockShutdown c] w)" .
  show "rel w (emits [AssertFailed t, Log l t', SockShutdown c] w)"
    using rel_trans [OF rel_emit(2) [of w t] two] by simp
qed

lemma rel_assert: "rel w (nb_assert b t w)"
  using rel_refl rel_emit(2) by (simp add: nb_assert_def emit_emits)

text \<open>The send loop keeps what sending one message keeps.\<close>

lemma send_round_rel:
  assumes send: "\<And>q buf w. rel w (snd (send q buf w))"
  shows "send_round send a i seq p mem w = Some (ok, mem', w') \<Longrightarrow> rel w w'"
proof (induction "unat (num_per_round a) - unat i" arbitrary: i seq p mem w)
  case 0
  then have "send_round send a i seq p mem w = Some (True, mem, w)"
    by (subst send_round.simps) (simp add: word_less_nat_alt)
  with 0 rel_refl show ?case by simp
next
  case (Suc x)
  have i: "i < num_per_round a" using Suc.hyps(2) by (simp add: word_less_nat_alt)
  have x: "x = unat (num_per_round a) - unat (i + 1)"
    using Suc.hyps(2) u32_succ_no_wrap [OF i] by simp
  note eq = Suc.prems [unfolded send_round.simps [of send a i seq p mem w]]
  obtain mid where mid: "get_u32 mem p = Some mid"
    using eq i by (cases "get_u32 mem p") simp_all
  obtain dseq where dseq: "get_u32 mem (p + 12) = Some dseq"
    using eq i mid by (cases "get_u32 mem (p + 12)") simp_all
  obtain m1 where m1: "put_u32 mem (p + 12) seq = Some m1"
    using eq i mid dseq by (cases "put_u32 mem (p + 12) seq") (simp_all add: Let_def)
  obtain buf where buf: "get_bytes m1 p (unat (msg_size a)) = Some buf"
    using eq i mid dseq m1 by (cases "get_bytes m1 p (unat (msg_size a))") (simp_all add: Let_def)
  have st: "(case send seq buf (nb_assert (dseq = seq) ''data->sequence == seq''
              (nb_assert (mid = 1) ''hdr->msg_id == 1'' w)) of
       (True, w) \<Rightarrow> send_round send a (i + 1) (seq + 1) (p + unat (msg_size a)) m1 w
     | (False, w) \<Rightarrow> Some (False, m1, w)) = Some (ok, mem', w')"
    using eq i mid dseq m1 buf by (simp add: Let_def)
  obtain b w1 where w1: "send seq buf (nb_assert (dseq = seq) ''data->sequence == seq''
      (nb_assert (mid = 1) ''hdr->msg_id == 1'' w)) = (b, w1)" by fastforce
  let ?w = "nb_assert (dseq = seq) ''data->sequence == seq'' (nb_assert (mid = 1) ''hdr->msg_id == 1'' w)"
  have "rel w ?w" by (rule rel_trans [OF rel_assert rel_assert])
  then have r1: "rel w w1" using send [of ?w seq buf] w1 rel_trans by auto
  show ?case
  proof (cases b)
    case True
    with st w1 have "send_round send a (i + 1) (seq + 1) (p + unat (msg_size a)) m1 w1 = Some (ok, mem', w')"
      by simp
    from rel_trans [OF r1 Suc.hyps(1) [OF x this]] show ?thesis .
  next
    case False
    with st w1 r1 show ?thesis by simp
  qed
qed

lemma read_loop_rel: "read_loop ops c rds b w = (r, rest, b', w') \<Longrightarrow> rel w w'"
proof (induction rds arbitrary: b)
  case Nil
  then show ?case
    by (subst (asm) read_loop.simps) (auto split: option.splits intro: rel_refl rel_emits)
next
  case (Cons x rds)
  then show ?case
    by (subst (asm) (2) read_loop.simps)
       (auto split: option.splits if_splits intro: rel_refl rel_emits)
qed

lemma parse_step_rel:
  assumes cb: "\<And>w mem n w'. cb w mem n = Some w' \<Longrightarrow> rel w w'"
    and st: "parse_step ops cb c s w = Break s' w' \<or> parse_step ops cb c s w = Again s' w'"
  shows "(\<exists>b. s' = s\<lparr>bytes_buf := b\<rparr>) \<and> rel w w'"
proof -
  have same: "\<exists>b. s = s\<lparr>bytes_buf := b\<rparr>" by (rule exI [of _ "bytes_buf s"]) simp
  from st same show ?thesis
    by (auto simp: parse_step_def call_cb_def Let_def split: option.splits if_splits
        intro: rel_refl rel_emits cb rel_trans [OF cb rel_emits(3)] rel_trans [OF rel_emits(4) rel_emits(3)]
          rel_trans [OF rel_trans [OF rel_emits(4) cb] rel_emits(4)])
qed

lemma parse_loop_rel:
  assumes cb: "\<And>w mem n w'. cb w mem n = Some w' \<Longrightarrow> rel w w'"
    and ret: "parse_loop ops cb c s w = Some (Some (s', w'))"
  shows "(\<exists>b. s' = s\<lparr>bytes_buf := b\<rparr>) \<and> rel w w'"
proof -
  let ?P = "\<lambda>ops cb c s w r. (\<forall>w mem n w'. cb w mem n = Some w' \<longrightarrow> rel w w') \<longrightarrow>
    (\<forall>s' w'. r = Some (s', w') \<longrightarrow> (\<exists>b. s' = s\<lparr>bytes_buf := b\<rparr>) \<and> rel w w')"
  have "?P ops cb c s w (Some (s', w'))"
  proof (rule parse_loop.raw_induct [where P = ?P, OF _ ret], intro impI allI)
    fix f ops cb c and s :: "'a nb_tcp_session_t" and w r s' w'
    assume IH: "\<And>ops cb c (s :: 'a nb_tcp_session_t) w r. f ops cb c s w = Some r \<Longrightarrow> ?P ops cb c s w r"
      and body: "(case parse_step ops cb c s w of Break s' w' \<Rightarrow> Some (Some (s', w'))
        | OutOfBounds \<Rightarrow> Some None | Again s' w' \<Rightarrow> f ops cb c s' w') = Some r"
      and cb: "\<forall>w mem n w'. cb w mem n = Some w' \<longrightarrow> rel w w'"
      and r: "r = Some (s', w')"
    have cb': "\<And>w mem n w'. cb w mem n = Some w' \<Longrightarrow> rel w w'" using cb by blast
    have step: "(\<exists>b. s1 = s\<lparr>bytes_buf := b\<rparr>) \<and> rel w w1"
      if "parse_step ops cb c s w = Break s1 w1 \<or> parse_step ops cb c s w = Again s1 w1" for s1 w1
      using cb' that by (rule parse_step_rel)
    show "(\<exists>b. s' = s\<lparr>bytes_buf := b\<rparr>) \<and> rel w w'"
    proof (cases "parse_step ops cb c s w")
      case (Break s1 w1)
      with body r step [of s1 w1] show ?thesis by simp
    next
      case OutOfBounds
      with body r show ?thesis by simp
    next
      case (Again s1 w1)
      obtain b where b: "s1 = s\<lparr>bytes_buf := b\<rparr>" "rel w w1" using step [of s1 w1] Again by blast
      have "f ops cb c s1 w1 = Some r" using body Again by simp
      from IH [OF this] cb r obtain b' where b': "s' = s1\<lparr>bytes_buf := b'\<rparr>" "rel w1 w'" by blast
      from rel_trans [OF b(2) b'(2)] b(1) b'(1) show ?thesis by (intro conjI exI [of _ b']) simp_all
    qed
  qed
  with cb show ?thesis by blast
qed

lemma on_msg_rel:
  assumes cb: "\<And>w mem n w'. call (session_cb s) w mem n = Some w' \<Longrightarrow> rel w w'"
    and ret: "nb_tcp_session_on_msg ops call c rds s w = Some (Some (rest, s', w'))"
  shows "(\<exists>b. s' = s\<lparr>bytes_buf := b\<rparr>) \<and> rel w w'"
proof -
  obtain r rest1 b w1 where rl: "read_loop ops c rds (bytes_buf s) w = (r, rest1, b, w1)"
    by (metis prod_cases4)
  note w1 = read_loop_rel [OF rl]
  show ?thesis
  proof (cases r)
    case True
    with ret rl w1 show ?thesis by (auto simp: nb_tcp_session_on_msg_def)
  next
    case False
    with ret rl have "parse_loop ops (call (session_cb s)) c (s\<lparr>bytes_buf := b\<rparr>) w1 = Some (Some (s', w'))"
      by (auto simp: nb_tcp_session_on_msg_def)
    from parse_loop_rel [OF cb this] rel_trans [OF w1] show ?thesis by auto
  qed
qed

end

interpretation connects: session_frame "\<lambda>w w'. async_connects (trace w') = async_connects (trace w)"
  by unfold_locales simp_all

lemma session_connects [simp]:
  "async_connects (trace (nb_tcp_session_delete s w)) = async_connects (trace w)"
  "async_connects (trace (snd (nb_tcp_session_new ops f h j w))) = async_connects (trace w)"
  by (simp_all add: nb_tcp_session_delete_def nb_tcp_session_new_def Let_def)

end
