(* ===== verification/Connect.thy ===== *)
theory Connect
  imports SysArgs
begin

text \<open>
  The functions of \<open>session.c\<close> that open sockets and compare addresses. Each of the
  openers tries until it gets a descriptor, with a pause of three seconds after a failure;
  what the \<open>k\<close>-th attempt gives is \<open>opened en k\<close>. The loop is a
  \<open>partial_function\<close>: \<open>None\<close> is an opener that never returns.
\<close>

section \<open>The retry loop\<close>

record muggle_socket_context_t =
  cx_fd :: int
  cx_type :: ctx_type

partial_function (option) retry_open ::
  "env \<Rightarrow> effect \<Rightarrow> effect \<Rightarrow> world \<Rightarrow> (int \<times> world) option" where
  "retry_open en open_call fail_log w =
     (case opened en (n_open w) of
        Some fd \<Rightarrow> Some (fd, emit open_call (w\<lparr>n_open := n_open w + 1\<rparr>))
      | None \<Rightarrow> retry_open en open_call fail_log
          (emits [open_call, fail_log, Call ''muggle_msleep'' [ANat 3000]]
             (w\<lparr>n_open := n_open w + 1\<rparr>)))"

definition ctx_new ::
  "ctx_type \<Rightarrow> effect \<Rightarrow> (int \<times> world) option \<Rightarrow> (muggle_socket_context_t \<times> world) option" where
  "ctx_new ty success_log r =
     map_option (\<lambda>(fd, w). (\<lparr>cx_fd = fd, cx_type = ty\<rparr>,
       emits [success_log, Call ''malloc'' [],
              Call ''muggle_socket_ctx_init'' [AInt fd, ATyp ty]] w)) r"

section \<open>The openers\<close>

definition nb_tcp_connect ::
  "env \<Rightarrow> nb_sys_args_t \<Rightarrow> world \<Rightarrow> (muggle_socket_context_t \<times> world) option" where
  "nb_tcp_connect en a w =
     ctx_new CtxTcpClient (Log L_INFO ''success connect: bind_host=%s, bind_port=%s, conn_host=%s, conn_port=%s'')
       (retry_open en
          (if cstr (bind_host a) \<noteq> ''''
           then Call ''muggle_tcp_bind_connect''
                  [AStr (cstr (bind_host a)), AStr (cstr (bind_port a)),
                   AStr (cstr (conn_host a)), AStr (cstr (conn_port a)), AInt 3]
           else Call ''muggle_tcp_connect''
                  [AStr (cstr (conn_host a)), AStr (cstr (conn_port a)), AInt 3])
          (Log L_WARNING ''failed connect: bind_host=%s, bind_port=%s, conn_host=%s, conn_port=%s'') w)"

definition nb_tcp_listen ::
  "env \<Rightarrow> nb_sys_args_t \<Rightarrow> world \<Rightarrow> (muggle_socket_context_t \<times> world) option" where
  "nb_tcp_listen en a w =
     ctx_new CtxTcpListen (Log L_INFO ''success TCP listen: host=%s, port=%s'')
       (retry_open en
          (Call ''muggle_tcp_listen''
             [AStr (cstr (serv_host a)), AStr (cstr (serv_port a)), AInt 512])
          (Log L_ERROR ''failed listen: host=%s, port=%s'') w)"

definition nb_udp_bind ::
  "env \<Rightarrow> nb_sys_args_t \<Rightarrow> world \<Rightarrow> (muggle_socket_context_t \<times> world) option" where
  "nb_udp_bind en a w =
     ctx_new CtxUdp (Log L_INFO ''success UDP bind: host=%s, port=%s'')
       (retry_open en
          (Call ''muggle_udp_bind'' [AStr (cstr (serv_host a)), AStr (cstr (serv_port a))])
          (Log L_ERROR ''failed UDP bind: host=%s, port=%s'') w)"

definition nb_udp_connect ::
  "env \<Rightarrow> nb_sys_args_t \<Rightarrow> world \<Rightarrow> (muggle_socket_context_t \<times> world) option" where
  "nb_udp_connect en a w =
     ctx_new CtxUdp (Log L_INFO ''success UDP connect: host=%s, port=%s'')
       (retry_open en
          (Call ''muggle_udp_connect'' [AStr (cstr (conn_host a)), AStr (cstr (conn_port a))])
          (Log L_ERROR ''failed UDP connect: host=%s, port=%s'') w)"

text \<open>
  The resolver \<open>gai\<close>: what \<open>muggle_socket_getaddrinfo\<close> returns for a host and a
  port, and the address it fills in.
\<close>

type_synonym resolver = "string \<Rightarrow> string \<Rightarrow> int \<times> sockaddr"

definition socket_getaddrinfo :: "resolver \<Rightarrow> string \<Rightarrow> string \<Rightarrow> world \<Rightarrow> (int \<times> sockaddr) \<times> world" where
  "socket_getaddrinfo gai host port w =
     (gai host port, emit (Call ''muggle_socket_getaddrinfo'' [AStr host, AStr port]) w)"

text \<open>
  \<open>conn_ret\<close> is what \<open>connect\<close> returns. The outer option is the retry loop, the inner one the NULL the
  function returns on an error.
\<close>

definition close_and_free :: "muggle_socket_context_t \<Rightarrow> string \<Rightarrow> world \<Rightarrow> world" where
  "close_and_free cx msg w =
     emits [Log L_ERROR msg, Call ''muggle_socket_ctx_close'' [AInt (cx_fd cx)], Call ''free'' []] w"

definition nb_udp_bind_connect ::
  "env \<Rightarrow> resolver \<Rightarrow> int \<Rightarrow> nb_sys_args_t \<Rightarrow> world \<Rightarrow>
   (muggle_socket_context_t option \<times> world) option" where
  "nb_udp_bind_connect en gai conn_ret a w =
     (case nb_udp_bind en a w of
        None \<Rightarrow> None
      | Some (cx, w) \<Rightarrow>
          let ((ret, sa), w) = socket_getaddrinfo gai (cstr (conn_host a)) (cstr (conn_port a)) w
          in if ret \<noteq> 0 then Some (None, close_and_free cx ''failed get addrinfo: host=%s, port=%s'' w)
             else let w = emit (Call ''connect'' [AInt (cx_fd cx), ASa sa]) w
               in if conn_ret \<noteq> 0 then Some (None, close_and_free cx ''failed udp connect: host=%s, port=%s'' w)
                  else Some (Some cx, w))"

text \<open>The asynchronous connect: a detached thread that connects and adds the context.\<close>

definition nb_tcp_async_connect :: "world \<Rightarrow> world" where
  "nb_tcp_async_connect w =
     emits [Call ''malloc'' [], AsyncConnect, Call ''muggle_thread_detach'' []] w"

definition tcp_async_connect :: "env \<Rightarrow> nb_sys_args_t \<Rightarrow> world \<Rightarrow> world option" where
  "tcp_async_connect en a w =
     map_option (\<lambda>(cx, w). emit (Call ''free'' []) (nb_log_cleanup_thread_ctx
         (emit (Call ''muggle_socket_evloop_add_ctx'' [AInt (cx_fd cx), ATyp (cx_type cx)]) w)))
       (nb_tcp_connect en a (nb_log_init_thread_ctx w))"

section \<open>nb_sockaddr_equal\<close>

fun sa_family :: "sockaddr \<Rightarrow> u16" where
  "sa_family (SockaddrIn _ _) = AF_INET"
| "sa_family (SockaddrIn6 _ _ _ _) = AF_INET6"
| "sa_family (SockaddrOther fam _) = fam"

definition nb_sockaddr_equal :: "sockaddr \<Rightarrow> sockaddr \<Rightarrow> bool" where
  "nb_sockaddr_equal sa1 sa2 =
     (if sa_family sa1 \<noteq> sa_family sa2 then False
      else case (sa1, sa2) of
        (SockaddrIn p1 a1, SockaddrIn p2 a2) \<Rightarrow> p1 = p2 \<and> a1 = a2
      | (SockaddrIn6 p1 _ a1 _, SockaddrIn6 p2 _ a2 _) \<Rightarrow> p1 = p2 \<and> a1 = a2
      | _ \<Rightarrow> False)"

section \<open>Lemmas\<close>

lemma retry_open_success:
  "opened en (n_open w + k) = Some fd \<Longrightarrow> (\<And>j. j < k \<Longrightarrow> opened en (n_open w + j) = None) \<Longrightarrow>
   \<exists>w'. retry_open en call fail w = Some (fd, w') \<and>
     trace w' = trace w @
       concat (replicate k [call, fail, Call ''muggle_msleep'' [ANat 3000]]) @ [call] \<and>
     n_open w' = n_open w + k + 1 \<and> n_wr w' = n_wr w"
proof (induction k arbitrary: w)
  case 0
  then show ?case by (subst retry_open.simps) simp
next
  case (Suc k)
  let ?w = "emits [call, fail, Call ''muggle_msleep'' [ANat 3000]] (w\<lparr>n_open := n_open w + 1\<rparr>)"
  have "opened en (n_open w) = None" using Suc.prems(2) [of 0] by simp
  then have "retry_open en call fail w = retry_open en call fail ?w"
    by (subst retry_open.simps) simp
  moreover have "opened en (n_open ?w + j) = None" if "j < k" for j
    using Suc.prems(2) [of "Suc j"] that by simp
  ultimately show ?case
    using Suc.IH [of ?w] Suc.prems(1) by auto
qed

lemma retry_open_returns:
  assumes "retry_open en call fail w = Some r"
  shows "\<exists>k fd. opened en k = Some fd"
  by (rule retry_open.raw_induct
        [where P = "\<lambda>en call fail w r. \<exists>k fd. opened en k = Some fd", OF _ assms])
     (auto split: option.splits)

lemma retry_open_never: "(\<And>k. opened en k = None) \<Longrightarrow> retry_open en call fail w = None"
  using retry_open_returns [of en call fail w] by (cases "retry_open en call fail w") auto

text \<open>The environment gives a socket after \<open>k\<close> failures.\<close>

definition opens_after :: "env \<Rightarrow> world \<Rightarrow> nat \<Rightarrow> int \<Rightarrow> bool" where
  "opens_after en w k fd \<longleftrightarrow>
     opened en (n_open w + k) = Some fd \<and> (\<forall>j < k. opened en (n_open w + j) = None)"

lemma ctx_new_open:
  assumes "opens_after en w k fd"
  shows "\<exists>w'. ctx_new ty ok_log (retry_open en call fail w) = Some (\<lparr>cx_fd = fd, cx_type = ty\<rparr>, w') \<and>
    trace w' = trace w @ concat (replicate k [call, fail, Call ''muggle_msleep'' [ANat 3000]]) @
      [call, ok_log, Call ''malloc'' [], Call ''muggle_socket_ctx_init'' [AInt fd, ATyp ty]] \<and>
    n_wr w' = n_wr w"
  using retry_open_success [of en w k fd call fail] assms
  by (auto simp: opens_after_def ctx_new_def)

lemma opens_after_emit [simp]:
  "opens_after en (emit e w) k fd = opens_after en w k fd"
  "opens_after en (emits es w) k fd = opens_after en w k fd"
  by (simp_all add: opens_after_def)

section \<open>Properties\<close>

lemma retry_open_first:
  "retry_open en call fail w = Some r \<Longrightarrow> \<exists>j fd. opened en (n_open w + j) = Some fd"
proof (rule retry_open.raw_induct
    [where P = "\<lambda>en call fail w r. \<exists>j fd. opened en (n_open w + j) = Some fd"])
  fix f en call fail w and r :: "int \<times> world"
  assume IH: "\<And>en call fail w r. f en call fail w = Some r \<Longrightarrow> \<exists>j fd. opened en (n_open w + j) = Some fd"
    and body: "(case opened en (n_open w) of
        Some fd \<Rightarrow> Some (fd, emit call (w\<lparr>n_open := n_open w + 1\<rparr>))
      | None \<Rightarrow> f en call fail
          (emits [call, fail, Call ''muggle_msleep'' [ANat 3000]] (w\<lparr>n_open := n_open w + 1\<rparr>))) = Some r"
  show "\<exists>j fd. opened en (n_open w + j) = Some fd"
  proof (cases "opened en (n_open w)")
    case None
    with body IH obtain j fd where "opened en (n_open w + 1 + j) = Some fd" by fastforce
    then show ?thesis by (metis add.assoc)
  next
    case (Some fd)
    then show ?thesis by (metis add_0_right)
  qed
qed

lemma opens_after_first:
  "opened en (n_open w + j) = Some fd \<Longrightarrow> \<exists>k fd'. opens_after en w k fd'"
proof -
  let ?P = "\<lambda>k. opened en (n_open w + k) \<noteq> None"
  assume "opened en (n_open w + j) = Some fd"
  then have "?P (LEAST k. ?P k)" by (intro LeastI [of ?P j]) simp
  moreover have "\<not> ?P i" if "i < (LEAST k. ?P k)" for i using that by (rule not_less_Least)
  ultimately show ?thesis unfolding opens_after_def by blast
qed

text \<open>The openers, with the type of their context, their call, and what they log on a failure and on success.\<close>

type_synonym opener = "env \<Rightarrow> nb_sys_args_t \<Rightarrow> world \<Rightarrow> (muggle_socket_context_t \<times> world) option"

definition openers :: "nb_sys_args_t \<Rightarrow> (ctx_type \<times> opener \<times> effect \<times> effect \<times> effect) list" where
  "openers a =
     [(CtxTcpClient, nb_tcp_connect,
       (if cstr (bind_host a) \<noteq> ''''
        then Call ''muggle_tcp_bind_connect''
               [AStr (cstr (bind_host a)), AStr (cstr (bind_port a)),
                AStr (cstr (conn_host a)), AStr (cstr (conn_port a)), AInt 3]
        else Call ''muggle_tcp_connect'' [AStr (cstr (conn_host a)), AStr (cstr (conn_port a)), AInt 3]),
       Log L_WARNING ''failed connect: bind_host=%s, bind_port=%s, conn_host=%s, conn_port=%s'',
       Log L_INFO ''success connect: bind_host=%s, bind_port=%s, conn_host=%s, conn_port=%s''),
      (CtxTcpListen, nb_tcp_listen,
       Call ''muggle_tcp_listen'' [AStr (cstr (serv_host a)), AStr (cstr (serv_port a)), AInt 512],
       Log L_ERROR ''failed listen: host=%s, port=%s'', Log L_INFO ''success TCP listen: host=%s, port=%s''),
      (CtxUdp, nb_udp_bind,
       Call ''muggle_udp_bind'' [AStr (cstr (serv_host a)), AStr (cstr (serv_port a))],
       Log L_ERROR ''failed UDP bind: host=%s, port=%s'', Log L_INFO ''success UDP bind: host=%s, port=%s''),
      (CtxUdp, nb_udp_connect,
       Call ''muggle_udp_connect'' [AStr (cstr (conn_host a)), AStr (cstr (conn_port a))],
       Log L_ERROR ''failed UDP connect: host=%s, port=%s'',
       Log L_INFO ''success UDP connect: host=%s, port=%s'')]"

lemma openers_retry:
  "(ty, opn, call, fail, ok_log) \<in> set (openers a) \<Longrightarrow>
   opn en a w = ctx_new ty ok_log (retry_open en call fail w)"
  by (auto simp: openers_def nb_tcp_connect_def nb_tcp_listen_def nb_udp_bind_def nb_udp_connect_def)

text \<open>C31: Each opener tries again until it has a descriptor: when the environment gives one after \<open>k\<close> failures,
  it returns a context with that descriptor and its own type, after exactly \<open>k\<close> failed attempts, each
  logged and followed by a pause of three seconds. When the environment never gives one it does not
  return, and that is the only case.\<close>

theorem opener_retries:
  assumes "(ty, opn, call, fail, ok_log) \<in> set (openers a)"
  shows "(\<forall>k fd. opens_after en w k fd \<longrightarrow>
      (\<exists>w'. opn en a w = Some (\<lparr>cx_fd = fd, cx_type = ty\<rparr>, w') \<and>
        trace w' = trace w @ concat (replicate k [call, fail, Call ''muggle_msleep'' [ANat 3000]]) @
          [call, ok_log, Call ''malloc'' [], Call ''muggle_socket_ctx_init'' [AInt fd, ATyp ty]])) \<and>
    (opn en a w = None \<longleftrightarrow> (\<forall>j. opened en (n_open w + j) = None))"
proof -
  note eq = openers_retry [OF assms, of en w]
  have "opn en a w = None \<longleftrightarrow> (\<forall>j. opened en (n_open w + j) = None)"
  proof
    assume none: "opn en a w = None"
    have "\<not> opens_after en w k fd" for k fd
      using ctx_new_open [of en w k fd ty ok_log call fail] eq none by auto
    then show "\<forall>j. opened en (n_open w + j) = None" using opens_after_first by (metis not_Some_eq)
  next
    assume "\<forall>j. opened en (n_open w + j) = None"
    then have "retry_open en call fail w = None"
      using retry_open_first [of en call fail w] by (cases "retry_open en call fail w") fastforce+
    with eq show "opn en a w = None" by (simp add: ctx_new_def)
  qed
  moreover have "\<exists>w'. opn en a w = Some (\<lparr>cx_fd = fd, cx_type = ty\<rparr>, w') \<and>
      trace w' = trace w @ concat (replicate k [call, fail, Call ''muggle_msleep'' [ANat 3000]]) @
        [call, ok_log, Call ''malloc'' [], Call ''muggle_socket_ctx_init'' [AInt fd, ATyp ty]]"
    if "opens_after en w k fd" for k fd
    using ctx_new_open [OF that, of ty ok_log call fail] eq by auto
  ultimately show ?thesis by blast
qed

definition demo_slow_env :: env where
  "demo_slow_env = \<lparr>clk = (\<lambda>_. \<lparr>tv_sec = 0, tv_nsec = 0\<rparr>), wr = (\<lambda>_. 0),
     opened = (\<lambda>k. if k < 2 then None else Some 9)\<rparr>"

theorem opener_retries_witness:
  "\<exists>w'. nb_tcp_listen demo_slow_env (zero_args 46) world0 = Some (\<lparr>cx_fd = 9, cx_type = CtxTcpListen\<rparr>, w') \<and>
   calls ''muggle_msleep'' (trace w') = 2"
proof -
  have "opens_after demo_slow_env world0 2 9" by (simp add: opens_after_def demo_slow_env_def)
  moreover have "(CtxTcpListen, nb_tcp_listen,
       Call ''muggle_tcp_listen'' [AStr (cstr (serv_host (zero_args 46))), AStr (cstr (serv_port (zero_args 46))), AInt 512],
       Log L_ERROR ''failed listen: host=%s, port=%s'', Log L_INFO ''success TCP listen: host=%s, port=%s'')
      \<in> set (openers (zero_args 46))"
    by (simp add: openers_def)
  ultimately show ?thesis
    using opener_retries [where en = demo_slow_env and w = world0] by (fastforce simp: numeral_2_eq_2)
qed

end
