(* ===== verification/Evloop.thy ===== *)
theory Evloop
  imports Connect NbInit
begin

text \<open>
  What the programs share around the event loop of mugglec: setting it up, and the
  \<open>main\<close> function. The event loop itself (\<open>muggle_evloop_run\<close>) is a
  parameter: which callbacks it calls, and in which order, is up to the environment.
\<close>

datatype run_result =
    Ran world            \<comment> \<open>the function returned\<close>
  | Hangs                \<comment> \<open>a loop does not end\<close>
  | OutOfBoundsRun       \<comment> \<open>an access outside of an allocation\<close>

fun run_bind :: "run_result \<Rightarrow> (world \<Rightarrow> run_result) \<Rightarrow> run_result" where
  "run_bind (Ran w) f = f w"
| "run_bind Hangs f = Hangs"
| "run_bind OutOfBoundsRun f = OutOfBoundsRun"

text \<open>
  \<open>ev_ok\<close>: does \<open>muggle_evloop_new\<close> succeed; \<open>cbs\<close>: the callbacks that are
  registered; \<open>interval\<close>: the timer interval without \<open>cpu_freq\<close> 1; \<open>k\<close>:
  the rest of the function.
\<close>

definition with_evloop ::
  "bool \<Rightarrow> string list \<Rightarrow> int \<Rightarrow> nb_sys_args_t \<Rightarrow> (world \<Rightarrow> run_result) \<Rightarrow> world \<Rightarrow> run_result"
where
  "with_evloop ev_ok cbs interval a k w =
     (if \<not> ev_ok then Ran (emit (Log L_ERROR ''failed new event loop'') w)
      else
        let w = emits [Log L_INFO ''success new event loop'',
                       Call ''muggle_socket_evloop_handle_init'' []] w;
            w = emits (map (\<lambda>cb. Call ''muggle_socket_evloop_handle_set_cb'' [AStr cb]) cbs) w;
            w = emit (Call ''muggle_socket_evloop_handle_set_timer_interval''
                  [AInt (if cpu_freq a = NETBENCH_CPU_FREQ_PERFORMANCE then 0 else interval)]) w
        in k (emits [Call ''muggle_socket_evloop_handle_attach'' [],
                     Log L_INFO ''socket handle attached event loop''] w))"

text \<open>A socket is opened and its context handed to the event loop.\<close>

definition add_opened ::
  "(muggle_socket_context_t \<times> world) option \<Rightarrow> (world \<Rightarrow> run_result) \<Rightarrow> run_result" where
  "add_opened opener k =
     (case opener of
        None \<Rightarrow> Hangs
      | Some (cx, w) \<Rightarrow>
          k (emit (Call ''muggle_socket_evloop_add_ctx'' [AInt (cx_fd cx), ATyp (cx_type cx)]) w))"

definition evloop_run_and_delete ::
  "(world \<Rightarrow> run_result) \<Rightarrow> effect list \<Rightarrow> world \<Rightarrow> run_result" where
  "evloop_run_and_delete evloop frees w =
     run_bind (evloop (emit (Call ''muggle_evloop_run'' []) w))
       (\<lambda>w. Ran (emits (frees @ [Call ''muggle_socket_evloop_handle_destroy'' [],
                                Call ''muggle_evloop_delete'' []]) w))"

text \<open>
  \<open>main\<close>, from the result of \<open>nb_init_components\<close> on: \<open>run\<close>, then the
  thread contexts are cleaned up. A failed initialisation exits with 1.
\<close>

definition app_main ::
  "(nb_sys_args_t \<Rightarrow> world \<Rightarrow> run_result) \<Rightarrow> init_result \<times> world \<Rightarrow> run_result" where
  "app_main run ini =
     (case ini of
        (InitTrue a c, w) \<Rightarrow>
          run_bind (run a w)
            (\<lambda>w. Ran (nb_log_cleanup_thread_ctx (nb_record_cleanup_thread_ctx w)))
      | (InitFalse c, w) \<Rightarrow> Ran (emit (Call ''exit'' [AInt 1]) w)
      | (InitExit, w) \<Rightarrow> Ran w)"

text \<open>The clients run once for each default size when no message size was given.\<close>

definition msg_size_arr :: "u32 list" where
  "msg_size_arr = [16, 32, 64, 128, 256, 512, 1024]"

definition run_sizes ::
  "(nb_sys_args_t \<Rightarrow> world \<Rightarrow> run_result) \<Rightarrow> nb_sys_args_t \<Rightarrow> world \<Rightarrow> run_result" where
  "run_sizes run a w =
     (if msg_size a = 0
      then foldl (\<lambda>r sz. run_bind r (run (a\<lparr>msg_size := sz\<rparr>))) (Ran w) msg_size_arr
      else run a w)"

lemma run_bind_assoc: "run_bind (run_bind r f) g = run_bind r (\<lambda>w. run_bind (f w) g)"
  by (cases r) simp_all

lemma run_bind_OutOfBounds:
  "(\<And>w. f w \<noteq> OutOfBoundsRun) \<Longrightarrow> run_bind r f = OutOfBoundsRun \<longleftrightarrow> r = OutOfBoundsRun"
  by (cases r) auto

lemma run_bind_Ran: "run_bind r f = Ran w \<longleftrightarrow> (\<exists>w'. r = Ran w' \<and> f w' = Ran w)"
  by (cases r) auto

lemma run_sizes_Ran:
  assumes "\<And>sz w. sz \<in> set msg_size_arr \<or> sz = msg_size a \<and> sz \<noteq> 0 \<Longrightarrow>
    \<exists>w'. run (a\<lparr>msg_size := sz\<rparr>) w = Ran w'"
  shows "\<exists>w'. run_sizes run a w = Ran w'"
proof (cases "msg_size a = 0")
  case True
  have "set szs \<subseteq> set msg_size_arr \<Longrightarrow>
    \<exists>w'. foldl (\<lambda>r sz. run_bind r (run (a\<lparr>msg_size := sz\<rparr>))) (Ran w) szs = Ran w'" for szs
  proof (induction szs arbitrary: w)
    case Nil
    then show ?case by simp
  next
    case (Cons sz szs)
    obtain w1 where "run (a\<lparr>msg_size := sz\<rparr>) w = Ran w1" using assms [of sz w] Cons.prems by auto
    with Cons.IH [of w1] Cons.prems show ?case by simp
  qed
  from this [OF subset_refl] True show ?thesis by (simp add: run_sizes_def)
next
  case False
  with assms [of "msg_size a" w] show ?thesis by (simp add: run_sizes_def)
qed

lemma msg_size_arr_bounds: "sz \<in> set msg_size_arr \<Longrightarrow> 16 \<le> unat sz \<and> unat sz \<le> 1024"
  by (auto simp: msg_size_arr_def)

end
