(* ===== verification/Quiet.thy ===== *)
theory Quiet
  imports Lifecycle Evloop
begin

text \<open>
  What the programs do without writing or sending anything and without leaving the event loop:
  the relation between the worlds before and after, and the parts of \<open>run\<close> that are in it.
\<close>

section \<open>Writing nothing\<close>

definition no_writes :: "world \<Rightarrow> world \<Rightarrow> bool" where
  "no_writes w w' \<longleftrightarrow> all_written (trace w') = all_written (trace w) \<and>
     all_sent (trace w') = all_sent (trace w) \<and> n_wr w' = n_wr w \<and>
     (EvloopExit \<in> set (trace w') \<longrightarrow> EvloopExit \<in> set (trace w))"

interpretation quiet: session_frame no_writes
  by unfold_locales (auto simp: no_writes_def)

interpretation no_exit: session_frame "\<lambda>w w'. EvloopExit \<in> set (trace w') \<longrightarrow> EvloopExit \<in> set (trace w)"
  by unfold_locales auto

lemma all_written_record [simp]: "all_written (record_effects r) = []" "all_sent (record_effects r) = []"
  by (simp_all add: record_effects_def)

section \<open>Up to the event loop nothing is written\<close>

fun loud :: "effect \<Rightarrow> bool" where
  "loud (SockWrite c bs) = True"
| "loud (SockSendto c bs sa) = True"
| "loud EvloopExit = True"
| "loud _ = False"

definition silent :: "effect list \<Rightarrow> bool" where
  "silent es \<longleftrightarrow> \<not> list_ex loud es"

lemma silent_simps [simp]:
  "silent []" "silent (e # es) \<longleftrightarrow> \<not> loud e \<and> silent es"
  "silent (xs @ ys) \<longleftrightarrow> silent xs \<and> silent ys"
  "silent (concat (replicate k es)) \<longleftrightarrow> k = 0 \<or> silent es"
  "silent (map f zs) \<longleftrightarrow> (\<forall>z \<in> set zs. \<not> loud (f z))"
  by (induction k) (auto simp: silent_def list_ex_iff)

lemma silent_writes: "silent es \<Longrightarrow> all_written es = [] \<and> all_sent es = [] \<and> EvloopExit \<notin> set es"
proof (induction es)
  case (Cons e es)
  then show ?case by (cases e) simp_all
qed simp

lemma no_writesI: "trace w' = trace w @ es \<Longrightarrow> silent es \<Longrightarrow> n_wr w' = n_wr w \<Longrightarrow> no_writes w w'"
  using silent_writes [of es] by (auto simp: no_writes_def)

lemma open_quiet:
  assumes "opens_after en w k fd" and "\<not> loud call" and "\<not> loud fail" and "\<not> loud ok_log"
  shows "\<exists>w'. ctx_new ty ok_log (retry_open en call fail w) = Some (\<lparr>cx_fd = fd, cx_type = ty\<rparr>, w') \<and>
    no_writes w w' \<and> call \<in> set (trace w')"
proof -
  let ?es = "concat (replicate k [call, fail, Call ''muggle_msleep'' [ANat 3000]]) @
      [call, ok_log, Call ''malloc'' [], Call ''muggle_socket_ctx_init'' [AInt fd, ATyp ty]]"
  obtain w' where w': "ctx_new ty ok_log (retry_open en call fail w) = Some (\<lparr>cx_fd = fd, cx_type = ty\<rparr>, w')"
    "trace w' = trace w @ ?es" "n_wr w' = n_wr w"
    using ctx_new_open [OF assms(1)] by blast
  have "silent ?es" using assms(2-4) by simp
  from w'(1) w'(2) no_writesI [OF w'(2) this w'(3)] show ?thesis by simp
qed

lemma connect_quiet:
  "opens_after en w k fd \<Longrightarrow>
   \<exists>w'. nb_tcp_connect en a w = Some (\<lparr>cx_fd = fd, cx_type = CtxTcpClient\<rparr>, w') \<and> no_writes w w'"
  unfolding nb_tcp_connect_def
  by (drule open_quiet [where call = "if cstr (bind_host a) \<noteq> [] then Call ''muggle_tcp_bind_connect''
        [AStr (cstr (bind_host a)), AStr (cstr (bind_port a)), AStr (cstr (conn_host a)), AStr (cstr (conn_port a)), AInt 3]
      else Call ''muggle_tcp_connect'' [AStr (cstr (conn_host a)), AStr (cstr (conn_port a)), AInt 3]"]) auto

lemma bind_quiet:
  "opens_after en w k fd \<Longrightarrow>
   \<exists>w'. nb_udp_bind en a w = Some (\<lparr>cx_fd = fd, cx_type = CtxUdp\<rparr>, w') \<and> no_writes w w' \<and>
     Call ''muggle_udp_bind'' [AStr (cstr (serv_host a)), AStr (cstr (serv_port a))] \<in> set (trace w')"
  unfolding nb_udp_bind_def by (rule open_quiet) simp_all

text \<open>With a connection the programs hand it to the event loop, set up their data and run the loop.\<close>

abbreviation cleanup :: "world \<Rightarrow> run_result" where
  "cleanup w \<equiv> Ran (emits [Call ''free'' [], Call ''muggle_socket_evloop_handle_destroy'' [],
                         Call ''muggle_evloop_delete'' []] w)"

lemma add_opened_quiet:
  assumes "no_writes w w1"
  shows "\<exists>t w'. no_writes w w' \<and> set (trace w1) \<subseteq> set (trace w') \<and>
    Call ''muggle_socket_evloop_add_ctx'' [AInt fd, ATyp ty] \<in> set (trace w') \<and>
    add_opened (Some (\<lparr>cx_fd = fd, cx_type = ty\<rparr>, w1))
      (\<lambda>w. let (t, w) = read_clock en w; w = emit (Call ''malloc'' [ANat n]) w
           in case dm of None \<Rightarrow> OutOfBoundsRun
              | Some mem \<Rightarrow> evloop_run_and_delete (run t mem) [Call ''free'' []] w) =
    (case dm of None \<Rightarrow> OutOfBoundsRun | Some mem \<Rightarrow> run_bind (run t mem w') cleanup)"
proof -
  let ?w = "emits [Call ''muggle_socket_evloop_add_ctx'' [AInt fd, ATyp ty], Call ''malloc'' [ANat n],
      Call ''muggle_evloop_run'' []] (w1\<lparr>n_clk := n_clk w1 + 1\<rparr>)"
  have "no_writes w1 ?w" by (simp add: no_writes_def)
  with assms have "no_writes w ?w" by (rule quiet.rel_trans)
  then show ?thesis
    by (intro exI [of _ "clk en (n_clk w1)"] exI [of _ ?w])
      (auto simp: add_opened_def read_clock_def evloop_run_and_delete_def emit_def emits_def split: option.split)
qed

lemma with_evloop_quiet:
  "\<exists>es. with_evloop True cbs iv a k w = k (emits es w) \<and> no_writes w (emits es w)"
proof -
  let ?es = "[Log L_INFO ''success new event loop'', Call ''muggle_socket_evloop_handle_init'' []] @
      map (\<lambda>cb. Call ''muggle_socket_evloop_handle_set_cb'' [AStr cb]) cbs @
      [Call ''muggle_socket_evloop_handle_set_timer_interval''
         [AInt (if cpu_freq a = NETBENCH_CPU_FREQ_PERFORMANCE then 0 else iv)],
       Call ''muggle_socket_evloop_handle_attach'' [], Log L_INFO ''socket handle attached event loop'']"
  have "with_evloop True cbs iv a k w = k (emits ?es w)" by (simp add: with_evloop_def emit_emits)
  moreover have "no_writes w (emits ?es w)" by (rule no_writesI [of _ _ ?es]) simp_all
  ultimately show ?thesis by blast
qed

end
