(* ===== verification/TcpClient.thy ===== *)
theory TcpClient
  imports Demo RoundTimer Quiet
begin

text \<open>
  The TCP client (\<open>app/tcp_client\<close>): the callbacks the event loop of mugglec calls and
  the \<open>run\<close> and \<open>main\<close> functions around it. A context is known by a number;
  \<open>muggle_socket_ctx_set_data\<close> and \<open>get_data\<close> are the map \<open>cs_sess\<close> from
  contexts to sessions, in which a deleted session is removed.
\<close>

section \<open>State\<close>

record tcp_client_evloop_data_t =
  tc_ctx :: "ctx option"
  tc_last_ts :: timespec
  tc_round_index :: u32
  tc_datas :: bytes

record 'b tcp_client =
  cs_data :: tcp_client_evloop_data_t
  cs_sess :: "ctx \<Rightarrow> 'b nb_tcp_session_t option"
  cs_world :: world

section \<open>The callbacks of the connection\<close>

text \<open>
  \<open>nodelay_ret\<close>, \<open>huge_ok\<close>, \<open>junk\<close>: what \<open>muggle_setsockopt\<close>, the
  huge page and the uninitialised role field of the new session are.
\<close>

definition tcp_client_on_add_ctx ::
  "env \<Rightarrow> nb_sys_args_t \<Rightarrow> 'b bytes_buffer \<Rightarrow> int \<Rightarrow> bool \<Rightarrow> u32 \<Rightarrow> ctx \<Rightarrow> 'b tcp_client \<Rightarrow> 'b tcp_client"
where
  "tcp_client_on_add_ctx en a ops nodelay_ret huge_ok junk c st =
     (let w = emits [Log L_INFO ''session add into evloop: remote_addr=%s'',
                     Call ''muggle_setsockopt'' [ANat c]] (cs_world st)
      in if nodelay_ret \<noteq> 0
         then st\<lparr>cs_world := emits [Log L_ERROR ''failed set TCP NODELAY'', SockShutdown c] w\<rparr>
         else
           let (s, w) = nb_tcp_session_new ops Fn_tcp_client_handle_message huge_ok junk w;
               d = (cs_data st)\<lparr>tc_ctx := Some c\<rparr>;
               (t, w) = read_clock en w;
               d = d\<lparr>tc_last_ts := t\<rparr>;
               d = d\<lparr>tc_last_ts := (tc_last_ts d)\<lparr>tv_sec := tv_sec (tc_last_ts d) + uint (cli_wait a)\<rparr>\<rparr>
           in st\<lparr>cs_data := d, cs_sess := (cs_sess st)(c \<mapsto> s), cs_world := w\<rparr>)"

definition tcp_client_on_close :: "ctx \<Rightarrow> 'b tcp_client \<Rightarrow> 'b tcp_client" where
  "tcp_client_on_close c st =
     (let w = emit (Log L_WARNING ''session close: remote_addr=%s'') (cs_world st);
          w = nb_assert (tc_ctx (cs_data st) = Some c) ''evloop_data->ctx == ctx'' w
      in st\<lparr>cs_data := (cs_data st)\<lparr>tc_ctx := None\<rparr>, cs_world := nb_tcp_async_connect w\<rparr>)"

definition tcp_client_on_release :: "ctx \<Rightarrow> 'b tcp_client \<Rightarrow> 'b tcp_client" where
  "tcp_client_on_release c st =
     (let w = emit (Log L_WARNING ''session release: remote_addr=%s'') (cs_world st)
      in case cs_sess st c of
           None \<Rightarrow> st\<lparr>cs_world := w\<rparr>
         | Some s \<Rightarrow> st\<lparr>cs_sess := (cs_sess st)(c := None), cs_world := nb_tcp_session_delete s w\<rparr>)"

definition tcp_client_handle_message :: msg_callback where
  "tcp_client_handle_message w mem datalen = Some w"

text \<open>The program has no other function a session's callback could be.\<close>

definition tcp_client_call :: "fn_nb_msg_callback \<Rightarrow> msg_callback" where
  "tcp_client_call fn =
     (case fn of Fn_tcp_client_handle_message \<Rightarrow> tcp_client_handle_message | _ \<Rightarrow> (\<lambda>_ _ _. None))"

lemma tcp_client_call_Some: "tcp_client_call fn w mem n = Some w' \<Longrightarrow> w' = w"
  by (cases fn) (simp_all add: tcp_client_call_def tcp_client_handle_message_def)

definition tcp_client_on_message ::
  "'b bytes_buffer \<Rightarrow> ctx \<Rightarrow> bytes list \<Rightarrow> 'b tcp_client \<Rightarrow> 'b tcp_client option option" where
  "tcp_client_on_message ops c rds st =
     (case cs_sess st c of
        None \<Rightarrow> Some (Some st)
      | Some s \<Rightarrow>
          map_option (map_option (\<lambda>(rest, s', w).
              st\<lparr>cs_sess := (cs_sess st)(c \<mapsto> s'), cs_world := w\<rparr>))
            (nb_tcp_session_on_msg ops tcp_client_call c rds s (cs_world st)))"

section \<open>The timer\<close>

definition tcp_send_one :: "env \<Rightarrow> nb_sys_args_t \<Rightarrow> ctx \<Rightarrow> send_one" where
  "tcp_send_one en a c seq p w =
     (let w = netbench_record en (user_id a) seq (msg_size a) ''client.snd_begin'' w;
          (num_bytes, w) = sock_write en c p w;
          w = netbench_record en (user_id a) seq (msg_size a) ''client.snd_end'' w
      in if num_bytes \<noteq> to_int (msg_size a)
         then (False, emits [Log L_ERROR ''failed write message: seq=%u'', SockShutdown c] w)
         else (True, w))"

text \<open>
  An \<open>int64_t\<close> in the code. The model has the exact integer: the two agree wherever the C
  expression does not overflow, that is for clock readings less than 2^63 milliseconds
  apart, and signed overflow is undefined in C.
\<close>

definition tcp_elapsed_ms :: "timespec \<Rightarrow> timespec \<Rightarrow> int" where
  "tcp_elapsed_ms ts last_ts =
     (tv_sec ts - tv_sec last_ts) * 1000 + c_div (tv_nsec ts) 1000000 -
     c_div (tv_nsec last_ts) 1000000"

definition tcp_client_on_timer ::
  "env \<Rightarrow> nb_sys_args_t \<Rightarrow> tcp_client_evloop_data_t \<Rightarrow> world \<Rightarrow> (tcp_client_evloop_data_t \<times> world) option"
where
  "tcp_client_on_timer en a d w =
     (if round_num a \<le> tc_round_index d
      then Some (d, emits [Log L_INFO ''task[msg_size=%u] completed, exit evloop'', EvloopExit] w)
      else case tc_ctx d of
        None \<Rightarrow> Some (d, w)
      | Some c \<Rightarrow>
          (let (ts, w) = read_clock en w
           in if tcp_elapsed_ms ts (tc_last_ts d) < uint (round_interval_ms a) then Some (d, w)
              else
                let d = d\<lparr>tc_last_ts := (tc_last_ts d)\<lparr>tv_sec := tv_sec ts, tv_nsec := tv_nsec ts\<rparr>\<rparr>;
                    w = emit (Log L_DEBUG ''round[%u] start'') w;
                    n = num_per_round a;
                    seq = tc_round_index d * n;
                    p = unat (tc_round_index d * n * msg_size a)
                in do { r \<leftarrow> send_round (tcp_send_one en a c) a 0 seq p (tc_datas d) w;
                        (case r of
                           (True, mem, w) \<Rightarrow>
                             Some (d\<lparr>tc_datas := mem, tc_round_index := tc_round_index d + 1\<rparr>,
                                   emit (Log L_DEBUG ''round[%u] completed'') w)
                         | (False, mem, w) \<Rightarrow> Some (d\<lparr>tc_datas := mem\<rparr>, w)) }))"

section \<open>run and main\<close>

text \<open>
  \<open>evloop\<close> is what happens while \<open>muggle_evloop_run\<close> drives the callbacks;
  \<open>fill\<close> is the content of the fresh allocation.
\<close>

definition tcp_client_run ::
  "env \<Rightarrow> bool \<Rightarrow> (nat \<Rightarrow> u8) \<Rightarrow> (tcp_client_evloop_data_t \<Rightarrow> world \<Rightarrow> run_result) \<Rightarrow>
   nb_sys_args_t \<Rightarrow> world \<Rightarrow> run_result" where
  "tcp_client_run en ev_ok fill evloop a w =
     (if cstr (conn_host a) = '''' \<or> cstr (conn_port a) = ''''
      then Ran (emit (Log L_ERROR ''client run without connect host/port'') w)
      else if unat (msg_size a) < sizeof_hdr + sizeof_data
      then Ran (emit (Log L_ERROR ''message size is too small (< %lu)'') w)
      else with_evloop ev_ok [''add_ctx'', ''close'', ''release'', ''msg'', ''timer'']
        (to_int (round_interval_ms a)) a
        (\<lambda>w. add_opened (nb_tcp_connect en a w)
          (\<lambda>w. let (t, w) = read_clock en w;
                   w = emit (Call ''malloc'' [ANat (unat (datas_size a))]) w
               in case prepare_datas a fill of
                    None \<Rightarrow> OutOfBoundsRun
                  | Some mem \<Rightarrow>
                      evloop_run_and_delete
                        (evloop \<lparr>tc_ctx = None, tc_last_ts = t, tc_round_index = 0, tc_datas = mem\<rparr>)
                        [Call ''free'' []] w)) w)"

definition tcp_client_main ::
  "env \<Rightarrow> bool \<Rightarrow> (nat \<Rightarrow> u8) \<Rightarrow> (tcp_client_evloop_data_t \<Rightarrow> world \<Rightarrow> run_result) \<Rightarrow>
   init_result \<times> world \<Rightarrow> run_result" where
  "tcp_client_main en ev_ok fill evloop = app_main (run_sizes (tcp_client_run en ev_ok fill evloop))"

section \<open>What the sender does\<close>

definition tcp_msg_eff :: "env \<Rightarrow> nb_sys_args_t \<Rightarrow> ctx \<Rightarrow> nat \<Rightarrow> u32 \<Rightarrow> bytes \<Rightarrow> effect list" where
  "tcp_msg_eff en a c k seq buf =
     record_effects (rec_at en k (user_id a) seq (msg_size a) ''client.snd_begin'') @
     [SockWrite c buf] @
     record_effects (rec_at en (k + 1) (user_id a) seq (msg_size a) ''client.snd_end'')"

definition tcp_fail_eff :: "env \<Rightarrow> nb_sys_args_t \<Rightarrow> ctx \<Rightarrow> nat \<Rightarrow> u32 \<Rightarrow> bytes \<Rightarrow> effect list" where
  "tcp_fail_eff en a c k seq buf =
     tcp_msg_eff en a c k seq buf @
     [Log L_ERROR ''failed write message: seq=%u'', SockShutdown c]"

lemma tcp_send_one_world:
  "\<exists>w'. tcp_send_one en a c q buf w = (wr en (n_wr w) = to_int (msg_size a), w') \<and>
    trace w' = trace w @
      (if wr en (n_wr w) = to_int (msg_size a) then tcp_msg_eff en a c (n_clk w) q buf
       else tcp_fail_eff en a c (n_clk w) q buf) \<and>
    n_clk w' = n_clk w + 2 \<and> n_wr w' = n_wr w + 1"
  by (simp add: tcp_send_one_def tcp_fail_eff_def tcp_msg_eff_def sock_write_def)

interpretation tcp_sender: observed_sender "tcp_send_one en a c" "\<lambda>k. wr en k = to_int (msg_size a)"
  "tcp_msg_eff en a c" "tcp_fail_eff en a c" "written_to c" for en a c
proof unfold_locales
  fix w q buf k and xs ys :: "effect list"
  show "\<exists>w'. tcp_send_one en a c q buf w = (True, w') \<and>
      trace w' = trace w @ tcp_msg_eff en a c (n_clk w) q buf \<and>
      n_clk w' = n_clk w + 2 \<and> n_wr w' = n_wr w + 1" if "wr en (n_wr w) = to_int (msg_size a)"
    using tcp_send_one_world [of en a c q buf w] that by simp
  show "\<exists>w'. tcp_send_one en a c q buf w = (False, w') \<and>
      trace w' = trace w @ tcp_fail_eff en a c (n_clk w) q buf \<and> n_wr w' = n_wr w + 1"
    if "wr en (n_wr w) \<noteq> to_int (msg_size a)"
    using tcp_send_one_world [of en a c q buf w] that by force
qed (simp_all add: tcp_msg_eff_def tcp_fail_eff_def)

section \<open>The timer is a timer that works in rounds\<close>

definition tcp_due :: "nb_sys_args_t \<Rightarrow> timespec \<Rightarrow> timespec \<Rightarrow> bool" where
  "tcp_due a t last_ts \<longleftrightarrow> uint (round_interval_ms a) \<le> tcp_elapsed_ms t last_ts"

definition tcp_of :: "round_state \<Rightarrow> tcp_client_evloop_data_t" where
  "tcp_of s = \<lparr>tc_ctx = rs_ctx s, tc_last_ts = rs_last_ts s, tc_round_index = rs_index s,
     tc_datas = rs_datas s\<rparr>"

abbreviation tcp_of_w :: "round_state \<times> world \<Rightarrow> tcp_client_evloop_data_t \<times> world" where
  "tcp_of_w sw \<equiv> (tcp_of (fst sw), snd sw)"

definition tcp_tick ::
  "env \<Rightarrow> nb_sys_args_t \<Rightarrow> tcp_client_evloop_data_t \<times> world \<Rightarrow> (tcp_client_evloop_data_t \<times> world) option"
where
  "tcp_tick en a s = tcp_client_on_timer en a (fst s) (snd s)"

lemma tcp_of_simps [simp]:
  "tc_ctx (tcp_of s) = rs_ctx s" "tc_last_ts (tcp_of s) = rs_last_ts s"
  "tc_round_index (tcp_of s) = rs_index s" "tc_datas (tcp_of s) = rs_datas s"
  by (simp_all add: tcp_of_def)

lemma tcp_of_surj: "\<exists>s. d = tcp_of s"
proof
  show "d = tcp_of \<lparr>rs_ctx = tc_ctx d, rs_last_ts = tc_last_ts d, rs_index = tc_round_index d,
      rs_datas = tc_datas d\<rparr>"
    by (cases d) (simp add: tcp_of_def)
qed

lemma tcp_of_update [simp]:
  "tcp_of (s\<lparr>rs_last_ts := t\<rparr>) = (tcp_of s)\<lparr>tc_last_ts := t\<rparr>"
  "tcp_of (s\<lparr>rs_index := i\<rparr>) = (tcp_of s)\<lparr>tc_round_index := i\<rparr>"
  "tcp_of (s\<lparr>rs_datas := m\<rparr>) = (tcp_of s)\<lparr>tc_datas := m\<rparr>"
  by (simp_all add: tcp_of_def)

lemma tcp_timer_rounds:
  "tcp_tick en a (tcp_of_w sw) =
     map_option tcp_of_w (round_timer en a (tcp_send_one en a) (tcp_due a) sw)"
proof -
  obtain s w where sw: "sw = (s, w)" by (cases sw)
  show ?thesis
    by (auto simp: sw tcp_tick_def tcp_client_on_timer_def round_timer_def read_clock_def tcp_due_def
        not_le Let_def split: option.split bind_split bool.split)
qed

lemma tcp_ticks_rounds:
  "ticks (tcp_tick en a) k (tcp_of_w sw) =
     map_option tcp_of_w (ticks (round_timer en a (tcp_send_one en a) (tcp_due a)) k sw)"
  by (rule ticks_map [where f = tcp_of_w]) (rule tcp_timer_rounds)

lemma tcp_timer_some:
  assumes "round_timer en a (tcp_send_one en a) (tcp_due a) (s, w) = Some (s', w')"
  shows "tcp_client_on_timer en a (tcp_of s) w = Some (tcp_of s', w')"
  using tcp_timer_rounds [of en a "(s, w)"] assms by (simp add: tcp_tick_def)

interpretation tcp_round: round_sender en a "tcp_send_one en a" "tcp_due a" "tcp_msg_eff en a"
  "tcp_fail_eff en a" written_to for en a
  by unfold_locales simp_all

definition tcp_client_ok :: "nb_sys_args_t \<Rightarrow> tcp_client_evloop_data_t \<Rightarrow> bool" where
  "tcp_client_ok a d \<longleftrightarrow>
     config_ok a \<and> datas_ok a (tc_datas d) \<and> tc_round_index d \<le> round_num a"

lemma tcp_client_ok_of [simp]: "tcp_client_ok a (tcp_of s) = round_state_ok a s"
  by (simp add: tcp_client_ok_def round_state_ok_def)

section \<open>Properties\<close>

text \<open>C19: A due timer of a connected TCP client whose socket takes every message sends exactly the
  messages of the round, in order and unchanged, each between its two records with consecutive
  clock readings, and moves to the next round.\<close>

theorem tcp_timer_sends_round:
  assumes "tcp_client_ok a d" and "tc_round_index d < round_num a"
    and "tc_ctx d = Some c" and "tcp_due a (clk en (n_clk w)) (tc_last_ts d)"
    and "\<And>j. j < unat (num_per_round a) \<Longrightarrow> wr en (n_wr w + j) = to_int (msg_size a)"
  shows "\<exists>w'. tcp_client_on_timer en a d w =
      Some (d\<lparr>tc_last_ts := clk en (n_clk w), tc_round_index := tc_round_index d + 1\<rparr>, w') \<and>
    trace w' = trace w @ [Log L_DEBUG ''round[%u] start''] @
      round_effects (tcp_msg_eff en a c) (n_clk w + 1)
        (round_msgs a (tc_datas d) (unat (tc_round_index d))) @
      [Log L_DEBUG ''round[%u] completed''] \<and>
    written_to c (trace w') = written_to c (trace w) @
      round_slots a (tc_datas d) (unat (tc_round_index d)) \<and>
    n_wr w' = n_wr w + unat (num_per_round a)"
proof -
  obtain s where d: "d = tcp_of s" using tcp_of_surj by blast
  obtain w' where "round_timer en a (tcp_send_one en a) (tcp_due a) (s, w) =
      Some (s\<lparr>rs_last_ts := clk en (n_clk w), rs_index := rs_index s + 1\<rparr>, w')"
    "trace w' = trace w @ [Log L_DEBUG ''round[%u] start''] @
      round_effects (tcp_msg_eff en a c) (n_clk w + 1) (round_msgs a (rs_datas s) (unat (rs_index s))) @
      [Log L_DEBUG ''round[%u] completed'']" "n_wr w' = n_wr w + unat (num_per_round a)"
    using tcp_round.tick_sends [of a s c en w] assms by (auto simp: d)
  then show ?thesis
    by (auto simp: d tcp_round.obs_round dest: tcp_timer_some)
qed

definition demo_client :: tcp_client_evloop_data_t where
  "demo_client = \<lparr>tc_ctx = Some 3, tc_last_ts = \<lparr>tv_sec = -5, tv_nsec = 0\<rparr>, tc_round_index = 0,
     tc_datas = demo_mem\<rparr>"

lemma demo_client_simps [simp]:
  "tc_ctx demo_client = Some 3" "tc_round_index demo_client = 0" "tc_datas demo_client = demo_mem"
  "tc_last_ts demo_client = \<lparr>tv_sec = -5, tv_nsec = 0\<rparr>"
  "tcp_client_ok demo_args demo_client"
  "tcp_due demo_args \<lparr>tv_sec = 0, tv_nsec = 0\<rparr> \<lparr>tv_sec = -5, tv_nsec = 0\<rparr>"
  by (simp_all add: demo_client_def tcp_client_ok_def tcp_due_def tcp_elapsed_ms_def c_div_def)

theorem tcp_timer_sends_round_witness:
  "\<exists>w'. tcp_client_on_timer demo_env demo_args demo_client world0 =
      Some (demo_client\<lparr>tc_last_ts := \<lparr>tv_sec = 0, tv_nsec = 0\<rparr>, tc_round_index := 1\<rparr>, w') \<and>
    written_to 3 (trace w') = [msg_head demo_args 0, msg_head demo_args 1]"
  using tcp_timer_sends_round [of demo_args demo_client 3 demo_env world0]
  by auto

text \<open>When the socket does not take the message at position \<open>j\<close> of the round, the timer sends the
  messages before it and that one, logs the failure, shuts the connection down and stops; array
  and round index are unchanged, so the whole round is sent again after the reconnect.\<close>

theorem tcp_timer_write_failure:
  assumes "tcp_client_ok a d" and "tc_round_index d < round_num a"
    and "tc_ctx d = Some c" and "tcp_due a (clk en (n_clk w)) (tc_last_ts d)" and "j < unat (num_per_round a)"
    and "\<And>i. i < j \<Longrightarrow> wr en (n_wr w + i) = to_int (msg_size a)"
    and "wr en (n_wr w + j) \<noteq> to_int (msg_size a)"
  shows "\<exists>w' es. tcp_client_on_timer en a d w = Some (d\<lparr>tc_last_ts := clk en (n_clk w)\<rparr>, w') \<and>
    trace w' = trace w @ es @ [Log L_ERROR ''failed write message: seq=%u'', SockShutdown c] \<and>
    SockShutdown c \<notin> set es \<and>
    written_to c es = take (Suc j) (round_slots a (tc_datas d) (unat (tc_round_index d)))"
proof -
  obtain s where s: "d = tcp_of s" using tcp_of_surj by blast
  let ?ms = "round_msgs a (tc_datas d) (unat (tc_round_index d))"
  let ?es = "[Log L_DEBUG ''round[%u] start''] @
      round_effects (tcp_msg_eff en a c) (n_clk w + 1) (take j ?ms) @
      tcp_msg_eff en a c (n_clk w + 1 + 2 * j) (fst (?ms ! j)) (snd (?ms ! j))"
  obtain w' where w': "tcp_client_on_timer en a d w = Some (d\<lparr>tc_last_ts := clk en (n_clk w)\<rparr>, w')"
    "trace w' = trace w @ ?es @ [Log L_ERROR ''failed write message: seq=%u'', SockShutdown c]"
    using tcp_round.tick_fails [of a s c en w j] assms
    by (auto simp: s tcp_fail_eff_def dest: tcp_timer_some)
  have "SockShutdown c \<notin> set (round_effects (tcp_msg_eff en a c) k ms)" for k ms
    by (induction ms arbitrary: k) (auto simp: tcp_msg_eff_def record_effects_def)
  then have no: "SockShutdown c \<notin> set ?es" by (auto simp: tcp_msg_eff_def record_effects_def)
  have "take (Suc j) ?ms = take j ?ms @ [?ms ! j]"
    using assms(5) by (simp add: take_Suc_conv_app_nth)
  then have "written_to c ?es = map snd (take (Suc j) ?ms)"
    by (simp add: tcp_round.obs_round tcp_sender.obs_msg)
  then have "written_to c ?es = take (Suc j) (round_slots a (tc_datas d) (unat (tc_round_index d)))"
    by (simp only: take_map [symmetric] round_msgs_snd)
  with w' no show ?thesis by blast
qed

theorem tcp_timer_write_failure_witness:
  "\<exists>w' es. tcp_client_on_timer demo_env_fail demo_args demo_client world0 =
      Some (demo_client\<lparr>tc_last_ts := \<lparr>tv_sec = 0, tv_nsec = 0\<rparr>\<rparr>, w') \<and>
    trace w' = es @ [Log L_ERROR ''failed write message: seq=%u'', SockShutdown 3] \<and>
    written_to 3 es = [msg_head demo_args 0, msg_head demo_args 1]"
  using tcp_timer_write_failure [of demo_args demo_client 3 demo_env_fail world0 1]
  by auto

text \<open>C17: Whatever the clock and the socket answer, a timer of the TCP client stays inside its message
  array, leaves the messages as they are, advances by at most one round and never past the last,
  and fails none of its assertions.\<close>

theorem tcp_timer_safe:
  assumes "tcp_client_ok a d"
  shows "\<exists>d' w' es. tcp_client_on_timer en a d w = Some (d', w') \<and> tcp_client_ok a d' \<and>
    tc_datas d' = tc_datas d \<and> tc_ctx d' = tc_ctx d \<and>
    unat (tc_round_index d') \<in> {unat (tc_round_index d), Suc (unat (tc_round_index d))} \<and>
    trace w' = trace w @ es \<and> asserts_ok es"
proof -
  obtain s where d: "d = tcp_of s" using tcp_of_surj by blast
  obtain s' w' es where "round_timer en a (tcp_send_one en a) (tcp_due a) (s, w) = Some (s', w')"
    "round_state_ok a s'" "rs_datas s' = rs_datas s" "rs_ctx s' = rs_ctx s"
    "unat (rs_index s') \<in> {unat (rs_index s), Suc (unat (rs_index s))}"
    "trace w' = trace w @ es" "asserts_ok es"
    using tcp_round.tick_invariant [of a s en w] assms by (auto simp: d)
  then show ?thesis
    by (intro exI [of _ "tcp_of s'"] exI [of _ w'] exI [of _ es]) (simp add: d tcp_timer_some)
qed

theorem tcp_timer_safe_witness:
  "\<exists>d' w' es. tcp_client_on_timer demo_env_fail demo_args demo_client world0 = Some (d', w') \<and>
    tcp_client_ok demo_args d' \<and> trace w' = es \<and> asserts_ok es"
  using tcp_timer_safe [of demo_args demo_client demo_env_fail world0] by auto

lemma tcp_ticks_in_order:
  assumes "config_ok a" and mem: "datas_ok a mem"
    and "\<And>j. n_wr w \<le> j \<Longrightarrow> wr en j = to_int (msg_size a)"
    and "ticks (tcp_tick en a) k
      (\<lparr>tc_ctx = Some c, tc_last_ts = t, tc_round_index = 0, tc_datas = mem\<rparr>, w) = Some (d', w')"
  shows "written_to c (trace w') = written_to c (trace w) @
      map (slot a mem) [0 ..< unat (tc_round_index d') * unat (num_per_round a)]"
    and "unat (tc_round_index d') \<le> unat (round_num a)"
proof -
  let ?s = "(\<lparr>rs_ctx = Some c, rs_last_ts = t, rs_index = 0, rs_datas = mem\<rparr>, w)"
  have "map_option tcp_of_w (ticks (round_timer en a (tcp_send_one en a) (tcp_due a)) k ?s) =
      Some (d', w')"
    using tcp_ticks_rounds [of en a k ?s] assms(4) by (simp add: tcp_of_def)
  then obtain s' where s':
    "ticks (round_timer en a (tcp_send_one en a) (tcp_due a)) k ?s = Some (s', w')" "d' = tcp_of s'"
    by auto
  have g: "round_state_ok a (fst ?s) \<and> rs_datas (fst ?s) = mem" and o: "round_online en a c ?s"
    using assms(1,3) mem by (simp_all add: round_state_ok_def round_online_def)
  from tcp_round.rounds.ticks_online [OF g o s'(1)]
  show "written_to c (trace w') = written_to c (trace w) @
      map (slot a mem) [0 ..< unat (tc_round_index d') * unat (num_per_round a)]"
    by (simp add: concat_round_slots s'(2))
  from tcp_round.rounds.ticks_good [OF g, of en k] s'(1) have "round_state_ok a s'" by auto
  then show "unat (tc_round_index d') \<le> unat (round_num a)"
    by (simp add: s'(2) round_state_ok_def tcp_of_def word_le_nat_alt)
qed

text \<open>From the start of the program, however the timer ticks fall in time: as long as the connection
  holds and the socket takes what it is given, what was written is exactly the first
  \<open>idx * num_per_round\<close> messages of the run, each once and in order, with header, user id
  and sequence number as promised.\<close>

theorem tcp_client_in_order:
  assumes "config_ok a" and "prepare_datas a fill = Some mem"
    and "\<And>j. n_wr w \<le> j \<Longrightarrow> wr en j = to_int (msg_size a)"
    and "ticks (tcp_tick en a) k
      (\<lparr>tc_ctx = Some c, tc_last_ts = t, tc_round_index = 0, tc_datas = mem\<rparr>, w) = Some (d', w')"
  shows "written_to c (trace w') = written_to c (trace w) @
      map (slot a mem) [0 ..< unat (tc_round_index d') * unat (num_per_round a)] \<and>
    (\<forall>i < n_msgs a. length (slot a mem i) = unat (msg_size a) \<and>
       dec_hdr (slot a mem i) = \<lparr>msg_id = 1, payload_len = msg_size a - 8\<rparr> \<and>
       dec_data (drop 8 (slot a mem i)) = \<lparr>msg_user_id = user_id a, msg_sequence = word_of_nat i\<rparr>)"
proof -
  note mem = prepare_datas_datas_ok [OF assms(1,2)]
  from tcp_ticks_in_order(1) [OF assms(1) mem assms(3,4)] slot_dec [OF assms(1) mem]
  show ?thesis by simp
qed

theorem tcp_client_in_order_witness:
  "\<exists>d' w'. ticks (tcp_tick demo_env demo_args) 1
      (\<lparr>tc_ctx = Some 3, tc_last_ts = \<lparr>tv_sec = -5, tv_nsec = 0\<rparr>, tc_round_index = 0,
        tc_datas = demo_mem\<rparr>, world0) = Some (d', w') \<and> tc_round_index d' = 1 \<and>
    written_to 3 (trace w') = [msg_head demo_args 0, msg_head demo_args 1]"
proof -
  obtain s where s: "demo_client = tcp_of s" using tcp_of_surj by blast
  have "round_state_ok demo_args s" "rs_index s = 0" "rs_ctx s = Some 3" "rs_datas s = demo_mem"
    "rs_last_ts s = \<lparr>tv_sec = -5, tv_nsec = 0\<rparr>"
    using demo_client_simps [unfolded s] by simp_all
  then obtain w' where w': "ticks (tcp_tick demo_env demo_args) 1 (demo_client, world0) =
      Some (demo_client\<lparr>tc_last_ts := \<lparr>tv_sec = 0, tv_nsec = 0\<rparr>, tc_round_index := 1\<rparr>, w')"
    using tcp_round.tick_sends [of demo_args s 3 demo_env world0]
    by (auto simp: tcp_tick_def s dest: tcp_timer_some)
  then have "written_to 3 (trace w') = [msg_head demo_args 0, msg_head demo_args 1]"
    using tcp_client_in_order [of demo_args "\<lambda>_. 0" demo_mem world0 demo_env 1 3]
    by (auto simp: demo_client_def slot_def demo_mem_def upt_rec)
  with w' show ?thesis by (simp add: demo_client_def)
qed

text \<open>From any state with an open connection: all rounds that are left, then the exit.\<close>

lemma tcp_ticks_finish:
  assumes "tcp_client_ok a d" and "tc_ctx d = Some c"
    and "\<And>j. n_wr w \<le> j \<Longrightarrow> wr en j = to_int (msg_size a)"
    and "round_fair en (tcp_due a)"
  shows "\<exists>k d' w'. ticks (tcp_tick en a) k (d, w) = Some (d', w') \<and>
    last (trace w') = EvloopExit \<and> EvloopExit \<in> set (trace w') \<and>
    written_to c (trace w') = written_to c (trace w) @
      concat (map (round_slots a (tc_datas d)) [unat (tc_round_index d) ..< unat (round_num a)])"
proof -
  obtain s where d: "d = tcp_of s" using tcp_of_surj by blast
  have "round_state_ok a (fst (s, w)) \<and> rs_datas (fst (s, w)) = rs_datas s" "round_online en a c (s, w)"
    using assms(1-3) by (simp_all add: round_online_def d)
  from tcp_round.rounds.complete [OF this assms(4)]
  obtain k s' w' where "ticks (round_timer en a (tcp_send_one en a) (tcp_due a)) k (s, w) = Some (s', w')"
    "exited (trace w')"
    "written_to c (trace w') = written_to c (trace w) @
      concat (map (round_slots a (rs_datas s)) [unat (rs_index s) ..< unat (round_num a)])"
    by (auto simp del: ticks.simps)
  then show ?thesis
    using tcp_ticks_rounds [of en a k "(s, w)"]
    by (intro exI [of _ k]) (auto simp: d exited_def simp del: ticks.simps dest: last_in_set)
qed

lemma tcp_ticks_complete:
  assumes "config_ok a" and "datas_ok a mem"
    and "\<And>j. n_wr w \<le> j \<Longrightarrow> wr en j = to_int (msg_size a)"
    and "round_fair en (tcp_due a)"
  shows "\<exists>k d' w'. ticks (tcp_tick en a) k
      (\<lparr>tc_ctx = Some c, tc_last_ts = t, tc_round_index = 0, tc_datas = mem\<rparr>, w) = Some (d', w') \<and>
    last (trace w') = EvloopExit \<and> EvloopExit \<in> set (trace w') \<and>
    written_to c (trace w') = written_to c (trace w) @ map (slot a mem) [0 ..< n_msgs a]"
  using tcp_ticks_finish [where d = "\<lparr>tc_ctx = Some c, tc_last_ts = t, tc_round_index = 0, tc_datas = mem\<rparr>"
      and c = c, OF _ _ assms(3,4)] assms(1,2)
  by (simp add: tcp_client_ok_def concat_round_slots config_n_msgs [OF assms(1)] mult.commute del: ticks.simps)

text \<open>C11: Once connected, with a socket that takes everything and a clock that goes on, the program sends
  every message of every round exactly once, in order, and then leaves the event loop: after
  some number of ticks, of which any number may come too early, as those do while the
  \<open>cli_wait\<close> seconds after the connect have not passed.\<close>

theorem tcp_client_sends_everything:
  assumes "config_ok a" and "prepare_datas a fill = Some mem"
    and "\<And>j. n_wr w \<le> j \<Longrightarrow> wr en j = to_int (msg_size a)"
    and "round_fair en (tcp_due a)"
  shows "\<exists>k d' w'. ticks (tcp_tick en a) k
      (\<lparr>tc_ctx = Some c, tc_last_ts = t, tc_round_index = 0, tc_datas = mem\<rparr>, w) = Some (d', w') \<and>
    last (trace w') = EvloopExit \<and>
    written_to c (trace w') = written_to c (trace w) @ map (slot a mem) [0 ..< n_msgs a]"
  using tcp_ticks_complete [OF assms(1) prepare_datas_datas_ok [OF assms(1,2)] assms(3,4)] by blast

text \<open>A clock that goes on for ever makes every round due at some time.\<close>

lemma advancing_clock_fair:
  assumes "\<And>b n. \<exists>i \<ge> n. b \<le> tv_sec (clk en i)" and "\<And>i. 0 \<le> tv_nsec (clk en i)"
  shows "round_fair en (tcp_due a)"
  unfolding round_fair_def
proof (intro allI)
  fix t :: timespec and n
  obtain q m where q: "q = c_div (tv_nsec t) 1000000" and m: "m = uint (round_interval_ms a)" by blast
  obtain i where i: "n \<le> i" "tv_sec t + m + \<bar>q\<bar> \<le> tv_sec (clk en i)"
    using assms(1) by blast
  have "0 \<le> c_div (tv_nsec (clk en i)) 1000000"
    using assms(2) [of i] by (simp add: c_div_nonneg pos_imp_zdiv_nonneg_iff)
  moreover have "0 \<le> m" by (simp add: m)
  ultimately have "m \<le> tcp_elapsed_ms (clk en i) t"
    unfolding tcp_elapsed_ms_def q [symmetric] left_diff_distrib using i(2) by linarith
  with i(1) show "\<exists>i \<ge> n. tcp_due a (clk en i) t" by (auto simp: tcp_due_def m)
qed

lemma demo_fair: "round_fair demo_env (tcp_due demo_args)"
proof (rule advancing_clock_fair)
  show "\<exists>i \<ge> n. b \<le> tv_sec (clk demo_env i)" for b n
    by (rule exI [of _ "n + nat b"]) simp
qed simp

theorem tcp_client_sends_everything_witness:
  "\<exists>k d' w'. ticks (tcp_tick demo_env demo_args) k
      (\<lparr>tc_ctx = Some 3, tc_last_ts = \<lparr>tv_sec = 60, tv_nsec = 0\<rparr>, tc_round_index = 0,
        tc_datas = demo_mem\<rparr>, world0) = Some (d', w') \<and>
    last (trace w') = EvloopExit \<and>
    written_to 3 (trace w') = [msg_head demo_args 0, msg_head demo_args 1,
      msg_head demo_args 2, msg_head demo_args 3]"
  using tcp_client_sends_everything [OF demo_config demo_prepare _ demo_fair, of world0 3
      "\<lparr>tv_sec = 60, tv_nsec = 0\<rparr>"]
  by (auto simp del: ticks.simps)

lemma tcp_client_run_opened:
  assumes "cstr (conn_host a) \<noteq> ''''" and "cstr (conn_port a) \<noteq> ''''"
    and "16 \<le> unat (msg_size a)" and "opens_after en w k fd"
  shows "\<exists>t w'. no_writes w w' \<and> tcp_client_run en True fill evloop a w =
     (case prepare_datas a fill of
        None \<Rightarrow> OutOfBoundsRun
      | Some mem \<Rightarrow> run_bind (evloop \<lparr>tc_ctx = None, tc_last_ts = t, tc_round_index = 0, tc_datas = mem\<rparr> w')
          cleanup)"
proof -
  let ?data = "\<lambda>t mem. \<lparr>tc_ctx = None, tc_last_ts = t, tc_round_index = 0, tc_datas = mem\<rparr>"
  let ?k = "\<lambda>w. add_opened (nb_tcp_connect en a w)
      (\<lambda>w. let (t, w) = read_clock en w;
               w = emit (Call ''malloc'' [ANat (unat (datas_size a))]) w
           in case prepare_datas a fill of
                None \<Rightarrow> OutOfBoundsRun
              | Some mem \<Rightarrow> evloop_run_and_delete (evloop (?data t mem)) [Call ''free'' []] w)"
  obtain es where es: "tcp_client_run en True fill evloop a w = ?k (emits es w)"
    "no_writes w (emits es w)"
    using assms(1-3) with_evloop_quiet
      [of "[''add_ctx'', ''close'', ''release'', ''msg'', ''timer'']" "to_int (round_interval_ms a)" a ?k w]
    by (auto simp: tcp_client_run_def)
  obtain w1 where w1: "nb_tcp_connect en a (emits es w) = Some (\<lparr>cx_fd = fd, cx_type = CtxTcpClient\<rparr>, w1)"
    "no_writes (emits es w) w1"
    using connect_quiet [of en "emits es w" k fd a] assms(4) by auto
  from add_opened_quiet [OF quiet.rel_trans [OF es(2) w1(2)],
      where fd = fd and ty = CtxTcpClient and run = "\<lambda>t mem. evloop (?data t mem)"]
  show ?thesis unfolding es(1) w1(1) by blast
qed



lemma tcp_client_run_returns:
  assumes "cstr (conn_host a) \<noteq> ''''" and "cstr (conn_port a) \<noteq> ''''" and "config_ok a"
    and "opened en (n_open w) = Some fd"
    and "\<And>d w. tcp_client_ok a d \<Longrightarrow> \<exists>w'. evloop d w = Ran w'"
  shows "\<exists>w'. tcp_client_run en True fill evloop a w = Ran w'"
proof -
  obtain mem where mem: "prepare_datas a fill = Some mem" "datas_ok a mem"
    using prepare_datas_ok [OF assms(3)] by blast
  have M: "16 \<le> unat (msg_size a)" using assms(3) by (simp add: config_ok_def)
  have op: "opens_after en w 0 fd" using assms(4) by (simp add: opens_after_def)
  obtain t w1 where run: "tcp_client_run en True fill evloop a w =
      run_bind (evloop \<lparr>tc_ctx = None, tc_last_ts = t, tc_round_index = 0, tc_datas = mem\<rparr> w1) cleanup"
    using tcp_client_run_opened [OF assms(1,2) M op, of fill evloop] mem(1) by auto
  obtain w2 where "evloop \<lparr>tc_ctx = None, tc_last_ts = t, tc_round_index = 0, tc_datas = mem\<rparr> w1 = Ran w2"
    using assms(5) [of "\<lparr>tc_ctx = None, tc_last_ts = t, tc_round_index = 0, tc_datas = mem\<rparr>"]
      assms(3) mem(2) by (force simp: tcp_client_ok_def)
  then show ?thesis unfolding run by auto
qed

text \<open>Without a message size on the command line the TCP client runs all of its default sizes, none of
  which overruns its array, and returns after cleaning up the contexts of its thread.\<close>

theorem tcp_client_main_default_sizes:
  assumes "cstr (conn_host a) \<noteq> ''''" and "cstr (conn_port a) \<noteq> ''''" and "msg_size a = 0"
    and "1024 * (unat (num_per_round a) * unat (round_num a)) < 4294967296"
    and "\<And>k. opened en k = Some (fds k)"
    and "\<And>a d w. tcp_client_ok a d \<Longrightarrow> \<exists>w'. evloop d w = Ran w'"
  shows "\<exists>es w'. tcp_client_main en True fill evloop (InitTrue a c, w) = Ran w' \<and>
    trace w' = es @ [Call ''muggle_ma_ring_thread_ctx_cleanup'' [],
                     Call ''haclog_thread_context_cleanup'' []]"
proof -
  have "\<exists>w'. tcp_client_run en True fill evloop (a\<lparr>msg_size := sz\<rparr>) w = Ran w'"
    if "sz \<in> set msg_size_arr \<or> sz = msg_size a \<and> sz \<noteq> 0" for sz w
  proof (rule tcp_client_run_returns)
    have sz: "16 \<le> unat sz" "unat sz \<le> 1024" using that assms(3) msg_size_arr_bounds by auto
    have "unat sz * (unat (num_per_round a) * unat (round_num a)) \<le>
        1024 * (unat (num_per_round a) * unat (round_num a))"
      using sz(2) by (rule mult_le_mono1)
    also note assms(4)
    finally show "config_ok (a\<lparr>msg_size := sz\<rparr>)" using sz(1) by (simp add: config_ok_def)
  qed (use assms in auto)
  then obtain w1 where "run_sizes (tcp_client_run en True fill evloop) a w = Ran w1"
    using run_sizes_Ran [of a "tcp_client_run en True fill evloop" w] by blast
  then show ?thesis
    by (simp add: tcp_client_main_def app_main_def nb_log_cleanup_thread_ctx_def
        nb_record_cleanup_thread_ctx_def)
qed

theorem tcp_client_main_default_sizes_witness:
  "\<exists>es w'. tcp_client_main demo_env True (\<lambda>_. 0) (\<lambda>d w. Ran (emit EvloopExit w))
      (InitTrue (demo_args\<lparr>msg_size := 0\<rparr>) nb_record_get_instance, world0) = Ran w' \<and>
    trace w' = es @ [Call ''muggle_ma_ring_thread_ctx_cleanup'' [],
                     Call ''haclog_thread_context_cleanup'' []]"
  by (rule tcp_client_main_default_sizes [where fds = "\<lambda>_. 5"]) simp_all

end
