(* ===== verification/TcpClientLife.thy ===== *)
theory TcpClientLife
  imports TcpClient RefBuffer Lifecycle
begin

text \<open>
  The connection of the TCP client over its whole life: events of the event loop in any order the
  environment can give them, and the invariant that the context the timer writes to is open.
\<close>

section \<open>Events\<close>

text \<open>What the environment decides when a context is added.\<close>

record add_answers =
  aa_nodelay :: int
  aa_huge :: bool
  aa_junk :: u32

datatype client_event = ClTimer | ClMessage ctx "bytes list" | ClRelease ctx

definition client_add :: "env \<Rightarrow> nb_sys_args_t \<Rightarrow> 'b bytes_buffer \<Rightarrow> add_answers \<Rightarrow> ctx \<Rightarrow>
  'b tcp_client \<Rightarrow> 'b tcp_client" where
  "client_add en a ops p c st = tcp_client_on_add_ctx en a ops (aa_nodelay p) (aa_huge p) (aa_junk p) c st"

definition client_event :: "env \<Rightarrow> nb_sys_args_t \<Rightarrow> 'b bytes_buffer \<Rightarrow> client_event \<Rightarrow>
  'b tcp_client \<Rightarrow> 'b tcp_client option" where
  "client_event en a ops e st =
     (case e of
        ClTimer \<Rightarrow> map_option (\<lambda>(d, w). st\<lparr>cs_data := d, cs_world := w\<rparr>)
          (tcp_client_on_timer en a (cs_data st) (cs_world st))
      | ClMessage c rds \<Rightarrow> Option.bind (tcp_client_on_message ops c rds st) (\<lambda>r. r)
      | ClRelease c \<Rightarrow> Some (tcp_client_on_release c st))"

text \<open>A released context is closed.\<close>

definition client_allowed :: "client_event \<Rightarrow> ctx set \<Rightarrow> 'b tcp_client \<Rightarrow> bool" where
  "client_allowed e U st \<longleftrightarrow> (case e of ClRelease c \<Rightarrow> c \<notin> U | _ \<Rightarrow> True)"

definition client_conns :: "'b tcp_client \<Rightarrow> nat" where
  "client_conns st = async_connects (trace (cs_world st))"

abbreviation client_cur :: "'b tcp_client \<Rightarrow> ctx option" where
  "client_cur st \<equiv> tc_ctx (cs_data st)"

definition client_good :: "ctx set \<Rightarrow> 'b tcp_client \<Rightarrow> bool" where
  "client_good U st \<longleftrightarrow> (\<forall>c. client_cur st = Some c \<longrightarrow> c \<in> U)"

section \<open>The callbacks keep the contract\<close>

lemma tcp_send_one_connects:
  "async_connects (trace (snd (tcp_send_one en a c q buf w))) = async_connects (trace w)"
  by (simp add: tcp_send_one_def sock_write_def Let_def)

lemma tcp_timer_connects:
  assumes "tcp_client_on_timer en a d w = Some (d', w')"
  shows "tc_ctx d' = tc_ctx d \<and> async_connects (trace w') = async_connects (trace w)"
proof -
  note sr = connects.send_round_rel [of "tcp_send_one en a c" for c, OF tcp_send_one_connects]
  show ?thesis
    using assms
    by (auto simp: tcp_client_on_timer_def read_clock_def Let_def bind_eq_Some_conv
        split: if_splits option.splits bool.splits prod.splits dest!: sr)
qed

lemma client_on_message_connects:
  assumes "tcp_client_on_message ops c rds st = Some (Some st')"
  shows "cs_data st' = cs_data st \<and>
    async_connects (trace (cs_world st')) = async_connects (trace (cs_world st))"
proof (cases "cs_sess st c")
  case None
  with assms show ?thesis by (simp add: tcp_client_on_message_def)
next
  case (Some s)
  with assms obtain rest s' w' where
    m: "nb_tcp_session_on_msg ops tcp_client_call c rds s (cs_world st) = Some (Some (rest, s', w'))"
    and st': "st' = st\<lparr>cs_sess := (cs_sess st)(c \<mapsto> s'), cs_world := w'\<rparr>"
    by (auto simp: tcp_client_on_message_def)
  have "async_connects (trace w') = async_connects (trace (cs_world st))"
    by (rule connects.on_msg_rel [OF _ m, THEN conjunct2]) (drule tcp_client_call_Some, simp)
  with st' show ?thesis by simp
qed

interpretation client_life: reconnecting "client_add en a ops" tcp_client_on_close
  "client_event en a ops" client_allowed client_conns client_cur client_good for en a ops
proof unfold_locales
  fix s :: "'a tcp_client" and c p
  assume "client_good {} s"
  then have "client_cur s = None" by (auto simp: client_good_def)
  then show "client_good {c} (client_add en a ops p c s) \<and>
      client_conns (client_add en a ops p c s) = client_conns s"
    by (auto simp: client_add_def tcp_client_on_add_ctx_def client_good_def client_conns_def
        read_clock_def Let_def nb_tcp_session_new_def split: prod.splits)
next
  fix s :: "'a tcp_client" and c
  show "client_good {} (tcp_client_on_close c s) \<and>
      client_conns (tcp_client_on_close c s) = Suc (client_conns s)"
    by (simp add: tcp_client_on_close_def client_good_def client_conns_def nb_tcp_async_connect_def)
next
  fix U and s s' :: "'a tcp_client" and q
  assume "client_good U s" "client_allowed q U s" "client_event en a ops q s = Some s'"
  then show "client_good U s' \<and> client_conns s' = client_conns s"
    by (cases q)
       (auto simp: client_event_def client_good_def client_conns_def tcp_client_on_release_def Let_def
         bind_eq_Some_conv split: option.splits dest!: tcp_timer_connects client_on_message_connects)
next
  fix U and s :: "'a tcp_client" and c
  assume "client_good U s" "client_cur s = Some c"
  then show "c \<in> U" by (simp add: client_good_def)
qed

section \<open>Properties\<close>

definition client_start :: "timespec \<Rightarrow> bytes \<Rightarrow> world \<Rightarrow> 'b tcp_client" where
  "client_start t mem w =
     \<lparr>cs_data = \<lparr>tc_ctx = None, tc_last_ts = t, tc_round_index = 0, tc_datas = mem\<rparr>,
      cs_sess = Map.empty, cs_world = w\<rparr>"

text \<open>C15: In every state the event loop can reach, the TCP client has exactly one open connection or exactly
  one connecting thread under way, and the context its timer writes to, if there is one, is the
  connection that is open: it never writes to a closed one and never reconnects twice.\<close>

theorem tcp_client_no_dangling:
  assumes "life (client_add en a ops) tcp_client_on_close (client_event en a ops) client_allowed
    client_conns (client_start t mem w) st"
  shows "(lf_open st = {} \<and> lf_pending st = 1 \<or> (\<exists>c. lf_open st = {c}) \<and> lf_pending st = 0) \<and>
    (\<forall>c. tc_ctx (cs_data (lf_app st)) = Some c \<longrightarrow> lf_open st = {c})"
proof -
  have "client_good {} (client_start t mem w)" by (simp add: client_good_def client_start_def)
  with client_life.life_invariant [OF assms] client_life.life_cur [OF assms] show ?thesis by blast
qed

theorem tcp_client_no_dangling_witness:
  "\<exists>st. life (client_add demo_env demo_args (list_bb True)) tcp_client_on_close
      (client_event demo_env demo_args (list_bb True)) client_allowed client_conns
      (client_start \<lparr>tv_sec = 0, tv_nsec = 0\<rparr> demo_mem world0) st \<and>
    tc_ctx (cs_data (lf_app st)) = Some 3 \<and> lf_open st = {3} \<and> lf_pending st = 0"
proof -
  let ?life = "life (client_add demo_env demo_args (list_bb True)) tcp_client_on_close
      (client_event demo_env demo_args (list_bb True)) client_allowed client_conns
      (client_start \<lparr>tv_sec = 0, tv_nsec = 0\<rparr> demo_mem world0)"
  let ?p = "\<lparr>aa_nodelay = 0, aa_huge = True, aa_junk = 0\<rparr>"
  let ?s = "client_start \<lparr>tv_sec = 0, tv_nsec = 0\<rparr> demo_mem world0 :: (nat \<times> bytes) tcp_client"
  have cur: "tc_ctx (cs_data (client_add demo_env demo_args (list_bb True) ?p 3 ?s)) = Some 3"
    by (simp add: client_add_def tcp_client_on_add_ctx_def nb_tcp_session_new_def read_clock_def
        client_start_def Let_def)
  have "?life \<lparr>lf_open = {}, lf_pending = 1, lf_app = ?s\<rparr>" by (rule life.start)
  from life.add [OF this, where c = 3 and p = ?p]
  obtain n where n: "?life \<lparr>lf_open = {3}, lf_pending = n,
      lf_app = client_add demo_env demo_args (list_bb True) ?p 3 ?s\<rparr>" by auto
  from tcp_client_no_dangling [OF n] n cur show ?thesis by fastforce
qed

text \<open>C38: The callback of a new connection that cannot set TCP_NODELAY shuts it down without noting it: when
  the connection then closes, the assertion of the close callback fails. With the option
  set it holds.\<close>

theorem tcp_client_close_assertion:
  assumes "tc_ctx (cs_data st) = None"
  shows "\<exists>es. trace (cs_world (tcp_client_on_close c
        (tcp_client_on_add_ctx en a ops ret huge junk c st))) = trace (cs_world st) @ es \<and>
    (asserts_ok es \<longleftrightarrow> ret = 0) \<and> async_connects es = 1 \<and>
    tc_ctx (cs_data (tcp_client_on_close c (tcp_client_on_add_ctx en a ops ret huge junk c st))) = None"
  using assms
  by (simp add: tcp_client_on_close_def tcp_client_on_add_ctx_def nb_tcp_session_new_def read_clock_def
      nb_tcp_async_connect_def Let_def)

theorem tcp_client_close_assertion_witness:
  "\<not> asserts_ok (trace (cs_world (tcp_client_on_close 3 (tcp_client_on_add_ctx demo_env demo_args
     (list_bb True) (-1) True 0 3 (client_start \<lparr>tv_sec = 0, tv_nsec = 0\<rparr> demo_mem world0)))))"
  using tcp_client_close_assertion [of "client_start \<lparr>tv_sec = 0, tv_nsec = 0\<rparr> demo_mem world0" 3 demo_env
      demo_args "list_bb True" "-1" True 0]
  by (auto simp: client_start_def)

section \<open>Leaving the event loop\<close>

text \<open>
  When all rounds are done while a connecting thread is under way, the timer leaves the event loop
  all the same. \<open>run\<close> then deletes the loop, which the detached thread still uses.
\<close>

theorem tcp_client_exit_while_connecting:
  assumes "life (client_add en a ops) tcp_client_on_close (client_event en a ops) client_allowed
      client_conns s0 st"
    and "lf_pending st = 1" and "round_num a \<le> tc_round_index (cs_data (lf_app st))"
  shows "\<exists>s'. life (client_add en a ops) tcp_client_on_close (client_event en a ops) client_allowed
      client_conns s0 \<lparr>lf_open = lf_open st, lf_pending = 1, lf_app = s'\<rparr> \<and>
    last (trace (cs_world s')) = EvloopExit"
proof -
  let ?w = "emits [Log L_INFO ''task[msg_size=%u] completed, exit evloop'', EvloopExit] (cs_world (lf_app st))"
  have e: "client_event en a ops ClTimer (lf_app st) = Some ((lf_app st)\<lparr>cs_data := cs_data (lf_app st), cs_world := ?w\<rparr>)"
    using assms(3) by (simp add: client_event_def tcp_client_on_timer_def)
  from life.other [OF assms(1) _ e] assms(2) show ?thesis
    by (intro exI [of _ "(lf_app st)\<lparr>cs_data := cs_data (lf_app st), cs_world := ?w\<rparr>"])
       (simp add: client_allowed_def client_conns_def)
qed

section \<open>The wait after connecting\<close>

lemma tcp_elapsed_add:
  "tcp_elapsed_ms t (l\<lparr>tv_sec := tv_sec l + n\<rparr>) = tcp_elapsed_ms t l - 1000 * n"
  by (simp add: tcp_elapsed_ms_def algebra_simps)

lemma tcp_early_ticks:
  assumes "tc_round_index d < round_num a" and "tc_ctx d = Some c"
    and "\<And>j. j < k \<Longrightarrow> \<not> tcp_due a (clk en (n_clk w + j)) (tc_last_ts d)"
  shows "ticks (tcp_tick en a) k (d, w) = Some (d, w\<lparr>n_clk := n_clk w + k\<rparr>)"
  using assms(3)
proof (induction k arbitrary: w)
  case 0
  then show ?case by simp
next
  case (Suc k)
  have "tcp_tick en a (d, w) = Some (d, w\<lparr>n_clk := n_clk w + 1\<rparr>)"
    using Suc.prems [of 0] assms(1,2)
    by (simp add: tcp_tick_def tcp_client_on_timer_def read_clock_def tcp_due_def not_le)
  moreover have "\<not> tcp_due a (clk en (n_clk (w\<lparr>n_clk := n_clk w + 1\<rparr>) + j)) (tc_last_ts d)" if "j < k" for j
    using Suc.prems [of "Suc j"] that by simp
  ultimately show ?case using Suc.IH [of "w\<lparr>n_clk := n_clk w + 1\<rparr>"] by simp
qed

text \<open>C18: A connection whose options could be set rests for \<open>cli_wait\<close> seconds and one interval from
  the time it was added, also when it replaces one that broke: however many timers fire in this
  time, they write nothing, record nothing and log nothing. A timer is due from then on.\<close>

theorem tcp_client_waits:
  assumes "tcp_client_on_add_ctx en a ops 0 huge junk c st = st'"
    and "t0 = clk en (n_clk (cs_world st))" and "tc_round_index (cs_data st) < round_num a"
    and "\<And>j. j < k \<Longrightarrow> tcp_elapsed_ms (clk en (n_clk (cs_world st') + j)) t0 <
      1000 * uint (cli_wait a) + uint (round_interval_ms a)"
  shows "ticks (tcp_tick en a) k (cs_data st', cs_world st') =
      Some (cs_data st', (cs_world st')\<lparr>n_clk := n_clk (cs_world st') + k\<rparr>) \<and>
    (\<forall>t. tcp_due a t (tc_last_ts (cs_data st')) \<longleftrightarrow>
      1000 * uint (cli_wait a) + uint (round_interval_ms a) \<le> tcp_elapsed_ms t t0) \<and>
    written_to c (trace (cs_world st')) = written_to c (trace (cs_world st))"
proof -
  have st': "tc_ctx (cs_data st') = Some c" "tc_round_index (cs_data st') = tc_round_index (cs_data st)"
    "tc_last_ts (cs_data st') = t0\<lparr>tv_sec := tv_sec t0 + uint (cli_wait a)\<rparr>"
    "written_to c (trace (cs_world st')) = written_to c (trace (cs_world st))"
    unfolding assms(1) [symmetric] assms(2)
    by (simp_all add: tcp_client_on_add_ctx_def nb_tcp_session_new_def read_clock_def Let_def)
  have due: "tcp_due a t (tc_last_ts (cs_data st')) \<longleftrightarrow>
      1000 * uint (cli_wait a) + uint (round_interval_ms a) \<le> tcp_elapsed_ms t t0" for t
    unfolding st'(3) tcp_due_def tcp_elapsed_add by linarith
  have "ticks (tcp_tick en a) k (cs_data st', cs_world st') =
      Some (cs_data st', (cs_world st')\<lparr>n_clk := n_clk (cs_world st') + k\<rparr>)"
    using assms(3,4) st'(1,2) by (intro tcp_early_ticks) (simp_all add: due not_le)
  with due st'(4) show ?thesis by blast
qed

theorem tcp_client_waits_witness:
  "let a = demo_args\<lparr>cli_wait := 3\<rparr>;
       st = tcp_client_on_add_ctx demo_env a (list_bb True) 0 True 0 3
         (client_start \<lparr>tv_sec = 0, tv_nsec = 0\<rparr> demo_mem world0)
   in ticks (tcp_tick demo_env a) 3 (cs_data st, cs_world st) =
      Some (cs_data st, (cs_world st)\<lparr>n_clk := 4\<rparr>)"
proof -
  let ?a = "demo_args\<lparr>cli_wait := 3\<rparr>"
  let ?st = "client_start \<lparr>tv_sec = 0, tv_nsec = 0\<rparr> demo_mem world0 :: (nat \<times> bytes) tcp_client"
  let ?st' = "tcp_client_on_add_ctx demo_env ?a (list_bb True) 0 True 0 3 ?st"
  have n: "n_clk (cs_world ?st') = 1"
    by (simp add: tcp_client_on_add_ctx_def nb_tcp_session_new_def read_clock_def client_start_def Let_def)
  have "tcp_elapsed_ms (clk demo_env (n_clk (cs_world ?st') + j)) \<lparr>tv_sec = 0, tv_nsec = 0\<rparr> <
      1000 * uint (cli_wait ?a) + uint (round_interval_ms ?a)" if "j < 3" for j
    using that by (simp add: n tcp_elapsed_ms_def c_div_def)
  with tcp_client_waits [where st = ?st and k = 3 and en = demo_env and a = ?a and ops = "list_bb True"
      and huge = True and junk = 0 and c = 3, OF refl refl] n
  show ?thesis by (simp add: client_start_def)
qed

end
