(* ===== verification/RoundLog.thy ===== *)
theory RoundLog
  imports RoundTimer "HOL-Library.Sublist"
begin

text \<open>
  What a client that works in rounds may write over its whole life, failures included: an abstract
  machine for the log of its writes and the answers of the socket, and that the timer of
  \<open>RoundTimer\<close> only makes steps of it.
\<close>

section \<open>The machine\<close>

text \<open>
  \<open>sz\<close> is the answer that means success, \<open>ms r\<close> the messages of round
  \<open>r\<close>. A step is a complete round, or an attempt that stops at the first message that is
  not taken.
\<close>

inductive round_log ::
  "int \<Rightarrow> (nat \<Rightarrow> bytes list) \<Rightarrow> nat \<Rightarrow> nat \<Rightarrow> (bytes \<times> int) list \<Rightarrow> bool"
  for sz ms tot where
  start: "round_log sz ms tot 0 []"
| cut: "round_log sz ms tot r l \<Longrightarrow> r < tot \<Longrightarrow> j < length (ms r) \<Longrightarrow> x \<noteq> sz \<Longrightarrow>
    round_log sz ms tot r (l @ map (\<lambda>m. (m, sz)) (take j (ms r)) @ [(ms r ! j, x)])"
| full: "round_log sz ms tot r l \<Longrightarrow> r < tot \<Longrightarrow>
    round_log sz ms tot (Suc r) (l @ map (\<lambda>m. (m, sz)) (ms r))"

text \<open>The messages the socket took.\<close>

definition taken :: "int \<Rightarrow> (bytes \<times> int) list \<Rightarrow> bytes list" where
  "taken sz l = map fst (filter (\<lambda>(_, x). x = sz) l)"

lemma taken_append [simp]: "taken sz (xs @ ys) = taken sz xs @ taken sz ys"
  by (simp add: taken_def)

lemma taken_all [simp]: "taken sz (map (\<lambda>m. (m, sz)) ms) = ms"
  by (induction ms) (simp_all add: taken_def)

lemma taken_bad [simp]: "x \<noteq> sz \<Longrightarrow> taken sz [(m, x)] = []"
  by (simp add: taken_def)

lemma round_log_index: "round_log sz ms tot r l \<Longrightarrow> r \<le> tot"
  by (induction rule: round_log.induct) auto

text \<open>Every message of the completed rounds was taken, in order, with possible repeats between.\<close>

lemma round_log_taken:
  "round_log sz ms tot r l \<Longrightarrow> subseq (concat (map ms [0..<r])) (taken sz l)"
proof (induction rule: round_log.induct)
  case (cut r l j x)
  have "subseq (concat (map ms [0..<r]) @ []) (taken sz l @ take j (ms r))"
    by (rule list_emb_append_mono [OF cut.IH]) simp
  with cut.hyps(4) show ?case by simp
next
  case (full r l)
  then show ?case by (simp add: list_emb_append_mono)
qed simp

text \<open>Nothing is written ahead of the current round.\<close>

lemma round_log_writes:
  "round_log sz ms tot r l \<Longrightarrow> (m, x) \<in> set l \<Longrightarrow> \<exists>q \<le> r. q < tot \<and> m \<in> set (ms q)"
proof (induction rule: round_log.induct)
  case (cut r l j x')
  then show ?case using in_set_takeD [of m j "ms r"] nth_mem [of j "ms r"] by auto
next
  case (full r l)
  then consider "(m, x) \<in> set l" | "m \<in> set (ms r)" by auto
  then show ?case
  proof cases
    case 1
    with full.IH obtain q where "q \<le> r" "q < tot" "m \<in> set (ms q)" by blast
    then show ?thesis by (intro exI [of _ q]) simp
  next
    case 2
    with full.hyps(2) show ?thesis by (intro exI [of _ r]) simp
  qed
qed simp

text \<open>Without a failure every message is written once.\<close>

lemma round_log_good:
  "round_log sz ms tot r l \<Longrightarrow> (\<forall>(m, x) \<in> set l. x = sz) \<Longrightarrow>
   map fst l = concat (map ms [0..<r])"
  by (induction rule: round_log.induct) (auto simp: o_def)

text \<open>Nothing is written ahead of the current round, as positions in the array.\<close>

lemma round_log_ahead:
  assumes "config_ok a"
    and rl: "round_log sz (round_slots a mem) (unat (round_num a)) r l" and mx: "(m, x) \<in> set l"
  shows "\<exists>k < min (n_msgs a) (Suc r * unat (num_per_round a)). m = slot a mem k"
proof -
  let ?n = "unat (num_per_round a)"
  obtain q where q: "q \<le> r" "q < unat (round_num a)" "m \<in> set (round_slots a mem q)"
    using round_log_writes [OF rl mx] by blast
  then obtain k where k: "m = slot a mem k" "k < Suc q * ?n" by (auto simp: round_slots_def)
  have "Suc q * ?n \<le> Suc r * ?n" using q(1) by (intro mult_le_mono1) simp
  with k(2) have "k < Suc r * ?n" by (rule less_le_trans)
  moreover have "Suc q * ?n \<le> unat (round_num a) * ?n" using q(2) by (intro mult_le_mono1) simp
  with k(2) have "k < unat (round_num a) * ?n" by (rule less_le_trans)
  then have "k < n_msgs a" by (simp add: config_n_msgs [OF assms(1)] mult.commute)
  ultimately show ?thesis using k(1) by (intro exI [of _ k]) simp
qed

text \<open>A log of all rounds: every message of the run was taken, and nothing else was written.\<close>

lemma round_log_finished:
  assumes "config_ok a"
    and "round_log sz (round_slots a mem) (unat (round_num a)) (unat (round_num a)) l"
  shows "subseq (map (slot a mem) [0..<n_msgs a]) (taken sz l)"
    and "set (map fst l) \<subseteq> slot a mem ` {0..<n_msgs a}"
proof -
  have all: "concat (map (round_slots a mem) [0..<unat (round_num a)]) = map (slot a mem) [0..<n_msgs a]"
    by (simp add: concat_round_slots config_n_msgs [OF assms(1)] mult.commute)
  from round_log_taken [OF assms(2)] show "subseq (map (slot a mem) [0..<n_msgs a]) (taken sz l)"
    unfolding all .
  have "set (map fst l) \<subseteq> set (concat (map (round_slots a mem) [0..<unat (round_num a)]))"
    using round_log_writes [OF assms(2)] by fastforce
  then show "set (map fst l) \<subseteq> slot a mem ` {0..<n_msgs a}" unfolding all by simp
qed

section \<open>Writes and their answers\<close>

fun answered :: "env \<Rightarrow> nat \<Rightarrow> bytes list \<Rightarrow> (bytes \<times> int) list" where
  "answered en k [] = []"
| "answered en k (b # bs) = (b, wr en k) # answered en (Suc k) bs"

lemma answered_append: "answered en k (xs @ ys) = answered en k xs @ answered en (k + length xs) ys"
  by (induction xs arbitrary: k) simp_all

lemma answered_fst [simp]: "map fst (answered en k bs) = bs"
  by (induction bs arbitrary: k) simp_all

lemma answered_good:
  "(\<And>i. i < length bs \<Longrightarrow> wr en (k + i) = sz) \<Longrightarrow> answered en k bs = map (\<lambda>m. (m, sz)) bs"
proof (induction bs arbitrary: k)
  case (Cons b bs)
  have "wr en (Suc k + i) = sz" if "i < length bs" for i using Cons.prems [of "Suc i"] that by simp
  from Cons.IH [OF this] Cons.prems [of 0] show ?case by simp
qed simp

section \<open>The timer makes steps of the machine\<close>

context round_sender begin

lemma obs_fail: "obs c (fail_eff c k q buf) = [buf]"
  by (rule observed_sender.obs_msg(2) [OF sends])

definition log_step :: "bytes \<Rightarrow> nat \<Rightarrow> nat \<Rightarrow> nat \<Rightarrow> bytes list \<Rightarrow> bool" where
  "log_step mem r r' k bs \<longleftrightarrow>
     (\<forall>l. round_log (to_int (msg_size a)) (round_slots a mem) (unat (round_num a)) r l \<longrightarrow>
       round_log (to_int (msg_size a)) (round_slots a mem) (unat (round_num a)) r'
         (l @ answered en k bs))"

lemma log_step_Nil: "log_step mem r r k []"
  by (simp add: log_step_def)

lemma length_round_slots [simp]: "length (round_slots a mem r) = unat (num_per_round a)"
  by (simp add: round_slots_def)

lemma log_step_full:
  assumes "r < unat (round_num a)"
    and "\<And>j. j < unat (num_per_round a) \<Longrightarrow> wr en (k + j) = to_int (msg_size a)"
  shows "log_step mem r (Suc r) k (round_slots a mem r)"
proof -
  have "answered en k (round_slots a mem r) =
      map (\<lambda>m. (m, to_int (msg_size a))) (round_slots a mem r)"
    by (rule answered_good) (use assms(2) in simp)
  with assms(1) show ?thesis by (auto simp: log_step_def intro: round_log.full)
qed

lemma log_step_cut:
  assumes "r < unat (round_num a)" and "j < unat (num_per_round a)"
    and "\<And>i. i < j \<Longrightarrow> wr en (k + i) = to_int (msg_size a)" and "wr en (k + j) \<noteq> to_int (msg_size a)"
  shows "log_step mem r r k (take j (round_slots a mem r) @ [round_slots a mem r ! j])"
proof -
  have "answered en k (take j (round_slots a mem r)) =
      map (\<lambda>m. (m, to_int (msg_size a))) (take j (round_slots a mem r))"
    by (rule answered_good) (use assms(3) in simp)
  with assms(2) have "answered en k (take j (round_slots a mem r) @ [round_slots a mem r ! j]) =
      map (\<lambda>m. (m, to_int (msg_size a))) (take j (round_slots a mem r)) @
        [(round_slots a mem r ! j, wr en (k + j))]"
    by (simp add: answered_append min_def)
  with assms(1,2,4) show ?thesis by (auto simp: log_step_def intro: round_log.cut)
qed

lemma tick_log:
  assumes ok: "round_state_ok a s" and c: "rs_ctx s = Some c"
    and t: "round_timer en a send due (s, w) = Some (s', w')"
  shows "\<exists>bs. obs c (trace w') = obs c (trace w) @ bs \<and> n_wr w' = n_wr w + length bs \<and>
    log_step (rs_datas s) (unat (rs_index s)) (unat (rs_index s')) (n_wr w) bs"
proof -
  consider (finished) "rs_index s = round_num a"
    | (early) "rs_index s < round_num a" "\<not> due (clk en (n_clk w)) (rs_last_ts s)"
    | (round) "rs_index s < round_num a" "due (clk en (n_clk w)) (rs_last_ts s)"
    using round_state_okD(3) [OF ok] by (auto simp: le_less)
  then show ?thesis
  proof cases
    case finished
    with t show ?thesis
      by (intro exI [of _ "[]"]) (auto simp: tick_finished obs_append obs_log2 obs_Nil log_step_Nil)
  next
    case early
    with t c show ?thesis
      by (intro exI [of _ "[]"]) (auto simp: tick_early log_step_Nil)
  next
    case round
    let ?ms = "round_slots a (rs_datas s) (unat (rs_index s))"
    have lt: "unat (rs_index s) < unat (round_num a)" using round(1) by (simp add: word_less_nat_alt)
    show ?thesis
    proof (cases "\<forall>j < unat (num_per_round a). wr en (n_wr w + j) = to_int (msg_size a)")
      case True
      with tick_sends [OF ok round(1) c round(2)] t index_succ [OF round(1)]
      have "obs c (trace w') = obs c (trace w) @ ?ms" "n_wr w' = n_wr w + length ?ms"
        "unat (rs_index s') = Suc (unat (rs_index s))"
        by (auto simp: obs_append obs_log2 obs_Nil obs_round)
      with log_step_full [OF lt, of "n_wr w"] True show ?thesis by (intro exI [of _ ?ms]) simp
    next
      case False
      obtain j where j: "j < unat (num_per_round a)"
        "\<And>i. i < j \<Longrightarrow> wr en (n_wr w + i) = to_int (msg_size a)"
        "wr en (n_wr w + j) \<noteq> to_int (msg_size a)"
        by (rule first_bad [OF False]) blast
      let ?rm = "round_msgs a (rs_datas s) (unat (rs_index s))"
      have snd: "map snd (take j ?rm) = take j ?ms" "snd (?rm ! j) = ?ms ! j"
        using j(1) by (simp_all add: take_map [symmetric]) (simp add: round_msgs_def round_slots_def)
      from tick_fails [OF ok round(1) c round(2) j] t
      have "obs c (trace w') = obs c (trace w) @ take j ?ms @ [?ms ! j]"
        "n_wr w' = n_wr w + Suc j" "rs_index s' = rs_index s"
        by (auto simp: obs_append obs_log2 obs_Nil obs_round obs_fail snd)
      with log_step_cut [OF lt j] j(1) show ?thesis
        by (intro exI [of _ "take j ?ms @ [?ms ! j]"]) (simp add: min_def)
    qed
  qed
qed

end

end
