(* ===== verification/TcpClientLog.thy ===== *)
theory TcpClientLog
  imports TcpClientLife RoundLog Quiet
begin

text \<open>
  What the TCP client has written over its whole life, with connections that break, writes that
  fail and timers and events in any order: a log the machine of \<open>RoundLog\<close> accepts.
\<close>

section \<open>Events that write nothing\<close>

lemma client_add_quiet:
  "no_writes (cs_world st) (cs_world (client_add en a ops p c st)) \<and>
   tc_round_index (cs_data (client_add en a ops p c st)) = tc_round_index (cs_data st) \<and>
   tc_datas (cs_data (client_add en a ops p c st)) = tc_datas (cs_data st)"
  by (simp add: client_add_def tcp_client_on_add_ctx_def nb_tcp_session_new_def read_clock_def
      no_writes_def Let_def)

lemma client_close_quiet:
  "no_writes (cs_world st) (cs_world (tcp_client_on_close c st)) \<and>
   tc_round_index (cs_data (tcp_client_on_close c st)) = tc_round_index (cs_data st) \<and>
   tc_datas (cs_data (tcp_client_on_close c st)) = tc_datas (cs_data st)"
  by (simp add: tcp_client_on_close_def nb_tcp_async_connect_def no_writes_def Let_def)

lemma client_release_quiet:
  "no_writes (cs_world st) (cs_world (tcp_client_on_release c st)) \<and>
   cs_data (tcp_client_on_release c st) = cs_data st"
  by (auto simp: tcp_client_on_release_def nb_tcp_session_delete_def no_writes_def Let_def
      split: option.splits)

lemma client_message_quiet:
  assumes "tcp_client_on_message ops c rds st = Some (Some st')"
  shows "no_writes (cs_world st) (cs_world st') \<and> cs_data st' = cs_data st"
proof (cases "cs_sess st c")
  case None
  with assms quiet.rel_refl show ?thesis by (simp add: tcp_client_on_message_def)
next
  case (Some s)
  with assms obtain rest s' w' where
    m: "nb_tcp_session_on_msg ops tcp_client_call c rds s (cs_world st) = Some (Some (rest, s', w'))"
    and st': "st' = st\<lparr>cs_sess := (cs_sess st)(c \<mapsto> s'), cs_world := w'\<rparr>"
    by (auto simp: tcp_client_on_message_def)
  have "no_writes (cs_world st) w'"
    using quiet.on_msg_rel [OF _ m] quiet.rel_refl tcp_client_call_Some by blast
  with st' show ?thesis by simp
qed

section \<open>The timer\<close>

interpretation tcp_log: round_sender en a "tcp_send_one en a" "tcp_due a" "tcp_msg_eff en a"
  "tcp_fail_eff en a" "\<lambda>_. all_written" for en a
  by unfold_locales (simp_all add: tcp_msg_eff_def tcp_fail_eff_def)

lemma tcp_send_one_no_exit:
  "EvloopExit \<in> set (trace (snd (tcp_send_one en a c q buf w))) \<longrightarrow> EvloopExit \<in> set (trace w)"
  by (auto simp: tcp_send_one_def sock_write_def record_effects_def Let_def)

text \<open>The timer leaves the event loop only when all rounds are done.\<close>

lemma tcp_timer_exit:
  assumes "tcp_client_on_timer en a d w = Some (d', w')"
    and "EvloopExit \<in> set (trace w')"
  shows "EvloopExit \<in> set (trace w) \<or> round_num a \<le> tc_round_index d \<and> d' = d"
proof -
  note sr = no_exit.send_round_rel [of "tcp_send_one en a c" for c, OF tcp_send_one_no_exit]
  show ?thesis
    using assms
    by (auto simp: tcp_client_on_timer_def read_clock_def Let_def bind_eq_Some_conv
        split: if_splits option.splits bool.splits prod.splits dest!: sr)
qed

lemma tcp_timer_log:
  assumes ok: "tcp_client_ok a d" and t: "tcp_client_on_timer en a d w = Some (d', w')"
  shows "tcp_client_ok a d' \<and> tc_datas d' = tc_datas d \<and>
    (\<exists>bs. all_written (trace w') = all_written (trace w) @ bs \<and> n_wr w' = n_wr w + length bs \<and>
    tcp_log.log_step en a (tc_datas d) (unat (tc_round_index d)) (unat (tc_round_index d')) (n_wr w) bs)"
proof -
  obtain s where d: "d = tcp_of s" using tcp_of_surj by blast
  obtain s' where s': "round_timer en a (tcp_send_one en a) (tcp_due a) (s, w) = Some (s', w')" "d' = tcp_of s'"
    using tcp_timer_rounds [of en a "(s, w)"] t by (auto simp: tcp_tick_def d)
  have inv: "round_state_ok a s' \<and> rs_datas s' = rs_datas s"
    using tcp_round.tick_invariant [of a s en w] s'(1) ok by (auto simp: d)
  show ?thesis
  proof (cases "rs_ctx s")
    case None
    have "all_written (trace w') = all_written (trace w) \<and> n_wr w' = n_wr w \<and> s' = s"
      using s'(1) None by (auto simp: round_timer_def split: if_splits)
    then show ?thesis by (intro conjI exI [of _ "[]"]) (use inv in \<open>simp_all add: d s'(2) tcp_log.log_step_Nil\<close>)
  next
    case (Some c)
    from tcp_log.tick_log [OF _ Some s'(1)] ok inv show ?thesis by (simp add: d s'(2))
  qed
qed

section \<open>The invariant\<close>

definition client_log :: "env \<Rightarrow> 'b tcp_client \<Rightarrow> (bytes \<times> int) list" where
  "client_log en st = answered en 0 (all_written (trace (cs_world st)))"

definition client_logged :: "env \<Rightarrow> nb_sys_args_t \<Rightarrow> bytes \<Rightarrow> 'b tcp_client \<Rightarrow> bool" where
  "client_logged en a mem st \<longleftrightarrow> tcp_client_ok a (cs_data st) \<and> tc_datas (cs_data st) = mem \<and>
     n_wr (cs_world st) = length (all_written (trace (cs_world st))) \<and>
     round_log (to_int (msg_size a)) (round_slots a mem) (unat (round_num a))
       (unat (tc_round_index (cs_data st))) (client_log en st) \<and>
     (EvloopExit \<in> set (trace (cs_world st)) \<longrightarrow> tc_round_index (cs_data st) = round_num a)"

lemma client_logged_quiet:
  assumes "client_logged en a mem st" and "no_writes (cs_world st) (cs_world st')"
    and "tc_round_index (cs_data st') = tc_round_index (cs_data st)"
    and "tc_datas (cs_data st') = tc_datas (cs_data st)"
  shows "client_logged en a mem st'"
  using assms by (auto simp: client_logged_def no_writes_def client_log_def tcp_client_ok_def)

lemma client_logged_timer:
  assumes l: "client_logged en a mem st"
    and t: "tcp_client_on_timer en a (cs_data st) (cs_world st) = Some (d', w')"
  shows "client_logged en a mem (st\<lparr>cs_data := d', cs_world := w'\<rparr>)"
proof -
  let ?d = "cs_data st" and ?w = "cs_world st"
  have ok: "tcp_client_ok a ?d" and mem: "tc_datas ?d = mem"
    and n: "n_wr ?w = length (all_written (trace ?w))"
    and rl: "round_log (to_int (msg_size a)) (round_slots a mem) (unat (round_num a))
       (unat (tc_round_index ?d)) (answered en 0 (all_written (trace ?w)))"
    and ex: "EvloopExit \<in> set (trace ?w) \<Longrightarrow> tc_round_index ?d = round_num a"
    using l by (auto simp: client_logged_def client_log_def)
  obtain bs where d': "tcp_client_ok a d'" "tc_datas d' = mem" and bs: "all_written (trace w') = all_written (trace ?w) @ bs" "n_wr w' = n_wr ?w + length bs"
    "tcp_log.log_step en a mem (unat (tc_round_index ?d)) (unat (tc_round_index d')) (n_wr ?w) bs"
    using tcp_timer_log [OF ok t] mem by auto
  have rl': "round_log (to_int (msg_size a)) (round_slots a mem) (unat (round_num a))
       (unat (tc_round_index d')) (answered en 0 (all_written (trace w')))"
    using bs(3) rl by (simp add: tcp_log.log_step_def bs(1) answered_append n)
  have "tc_round_index d' = round_num a" if "EvloopExit \<in> set (trace w')"
  proof -
    from tcp_timer_exit [OF t that] ex have "round_num a \<le> tc_round_index ?d" by auto
    moreover from this t have "d' = ?d" by (simp add: tcp_client_on_timer_def)
    ultimately show ?thesis using d'(1) by (simp add: tcp_client_ok_def)
  qed
  with d' rl' bs(1,2) n show ?thesis by (simp add: client_logged_def client_log_def)
qed

lemma client_logged_reachable:
  assumes "life (client_add en a ops) tcp_client_on_close (client_event en a ops) client_allowed
    client_conns s0 st" and "client_logged en a mem s0"
  shows "client_logged en a mem (lf_app st)"
proof (rule life_preserved [where P = "client_logged en a mem", OF assms])
  fix p c and s :: "'a tcp_client"
  assume s: "client_logged en a mem s"
  show "client_logged en a mem (client_add en a ops p c s)"
    using client_logged_quiet [OF s] client_add_quiet by blast
  show "client_logged en a mem (tcp_client_on_close c s)"
    using client_logged_quiet [OF s] client_close_quiet by blast
next
  fix q U and s s' :: "'a tcp_client"
  assume s: "client_logged en a mem s" and e: "client_event en a ops q s = Some s'"
  show "client_logged en a mem s'"
  proof (cases q)
    case ClTimer
    with e client_logged_timer [OF s] show ?thesis by (auto simp: client_event_def)
  next
    case (ClMessage c rds)
    with e have "tcp_client_on_message ops c rds s = Some (Some s')"
      by (auto simp: client_event_def bind_eq_Some_conv)
    from client_logged_quiet [OF s, of s'] client_message_quiet [OF this] show ?thesis by simp
  next
    case (ClRelease c)
    with e have "s' = tcp_client_on_release c s" by (simp add: client_event_def)
    with client_logged_quiet [OF s, of s'] client_release_quiet [of s c] show ?thesis by simp
  qed
qed

section \<open>Properties\<close>

text \<open>C7: Over the whole life of the TCP client, with connections lost and made again, failed writes and
  events in any order: its writes and the answers of the socket are, round after round, some
  attempts that stop at the first message not taken and then the whole round. So every
  message of the completed rounds was taken at least once, in order; nothing is written ahead of the
  current round; and the client leaves the event loop only when every message of the run was taken.\<close>

theorem tcp_client_at_least_once:
  assumes "config_ok a" and "prepare_datas a fill = Some mem"
    and "all_written (trace w) = []" and "n_wr w = 0" and "EvloopExit \<notin> set (trace w)"
    and "life (client_add en a ops) tcp_client_on_close (client_event en a ops) client_allowed
      client_conns (client_start t mem w) st"
  shows "let r = unat (tc_round_index (cs_data (lf_app st))); l = client_log en (lf_app st) in
    round_log (to_int (msg_size a)) (round_slots a mem) (unat (round_num a)) r l \<and>
    subseq (map (slot a mem) [0..<r * unat (num_per_round a)]) (taken (to_int (msg_size a)) l) \<and>
    (\<forall>(m, x) \<in> set l. \<exists>k < min (n_msgs a) (Suc r * unat (num_per_round a)). m = slot a mem k) \<and>
    (EvloopExit \<in> set (trace (cs_world (lf_app st))) \<longrightarrow>
      subseq (map (slot a mem) [0..<n_msgs a]) (taken (to_int (msg_size a)) l))"
proof -
  let ?r = "unat (tc_round_index (cs_data (lf_app st)))" and ?l = "client_log en (lf_app st)"
  let ?sz = "to_int (msg_size a)" and ?n = "unat (num_per_round a)"
  have "datas_ok a mem" by (rule prepare_datas_datas_ok [OF assms(1,2)])
  then have "client_logged en a mem (client_start t mem w)"
    using assms(1,3,4,5)
    by (simp add: client_logged_def client_start_def tcp_client_ok_def client_log_def round_log.start)
  note inv = client_logged_reachable [OF assms(6) this, unfolded client_logged_def]
  have rl: "round_log ?sz (round_slots a mem) (unat (round_num a)) ?r ?l" using inv by blast
  have sub: "subseq (map (slot a mem) [0..<?r * ?n]) (taken ?sz ?l)"
    using round_log_taken [OF rl] by (simp add: concat_round_slots)
  note ahead = round_log_ahead [OF assms(1) rl]
  have "subseq (map (slot a mem) [0..<n_msgs a]) (taken ?sz ?l)"
    if "EvloopExit \<in> set (trace (cs_world (lf_app st)))"
  proof -
    have "tc_round_index (cs_data (lf_app st)) = round_num a" using inv that by blast
    with sub show ?thesis by (simp add: config_n_msgs [OF assms(1)] mult.commute)
  qed
  with rl sub ahead show ?thesis unfolding Let_def by blast
qed

definition demo_answers :: add_answers where
  "demo_answers = \<lparr>aa_nodelay = 0, aa_huge = True, aa_junk = 0\<rparr>"

definition demo_added :: "(nat \<times> bytes) tcp_client" where
  "demo_added = client_add demo_env_fail demo_args (list_bb True) demo_answers 3
     (client_start \<lparr>tv_sec = 0, tv_nsec = 0\<rparr> demo_mem world0)"

lemma demo_added_simps:
  "tc_ctx (cs_data demo_added) = Some 3" "tc_round_index (cs_data demo_added) = 0"
  "tc_datas (cs_data demo_added) = demo_mem"
  "tc_last_ts (cs_data demo_added) = \<lparr>tv_sec = 0, tv_nsec = 0\<rparr>"
  "all_written (trace (cs_world demo_added)) = []"
  "n_clk (cs_world demo_added) = 1" "n_wr (cs_world demo_added) = 0"
  by (simp_all add: demo_added_def client_add_def tcp_client_on_add_ctx_def nb_tcp_session_new_def
      read_clock_def client_start_def demo_answers_def demo_args_def zero_args_def Let_def)

lemma demo_round_msgs:
  "round_msgs demo_args demo_mem 0 = [(0, msg_head demo_args 0), (1, msg_head demo_args 1)]"
  by (simp add: round_msgs_def slot_def demo_mem_def upt_rec)

text \<open>The second message of the first round is not taken.\<close>

lemma demo_failed:
  "\<exists>w'. tcp_client_on_timer demo_env_fail demo_args (cs_data demo_added) (cs_world demo_added) =
      Some ((cs_data demo_added)\<lparr>tc_last_ts := \<lparr>tv_sec = 1, tv_nsec = 0\<rparr>\<rparr>, w') \<and>
    all_written (trace w') = [msg_head demo_args 0, msg_head demo_args 1]"
proof -
  obtain s where s: "cs_data demo_added = tcp_of s" using tcp_of_surj by blast
  have d: "rs_ctx s = Some 3" "rs_index s = 0" "rs_datas s = demo_mem"
    "rs_last_ts s = \<lparr>tv_sec = 0, tv_nsec = 0\<rparr>"
    using demo_added_simps(1-4) by (simp_all add: s)
  have "tcp_due demo_args \<lparr>tv_sec = 1, tv_nsec = 0\<rparr> \<lparr>tv_sec = 0, tv_nsec = 0\<rparr>"
    by (simp add: tcp_due_def tcp_elapsed_ms_def c_div_def)
  then obtain w' where w': "round_timer demo_env_fail demo_args (tcp_send_one demo_env_fail demo_args)
      (tcp_due demo_args) (s, cs_world demo_added) = Some (s\<lparr>rs_last_ts := \<lparr>tv_sec = 1, tv_nsec = 0\<rparr>\<rparr>, w')"
    "all_written (trace w') = [msg_head demo_args 0, msg_head demo_args 1]"
    using tcp_log.tick_fails [of demo_args s 3 demo_env_fail "cs_world demo_added" 1]
    by (auto simp: d demo_added_simps round_state_ok_def tcp_log.obs_fail demo_round_msgs tcp_msg_eff_def)
  from tcp_timer_some [OF w'(1)] w'(2) show ?thesis by (simp add: s)
qed

lemma demo_failed_life:
  "\<exists>st. life (client_add demo_env_fail demo_args (list_bb True)) tcp_client_on_close
      (client_event demo_env_fail demo_args (list_bb True)) client_allowed client_conns
      (client_start \<lparr>tv_sec = 0, tv_nsec = 0\<rparr> demo_mem world0) st \<and>
    tc_round_index (cs_data (lf_app st)) = 0 \<and>
    all_written (trace (cs_world (lf_app st))) = [msg_head demo_args 0, msg_head demo_args 1]"
proof -
  let ?life = "life (client_add demo_env_fail demo_args (list_bb True)) tcp_client_on_close
      (client_event demo_env_fail demo_args (list_bb True)) client_allowed client_conns
      (client_start \<lparr>tv_sec = 0, tv_nsec = 0\<rparr> demo_mem world0)"
  have "?life \<lparr>lf_open = {}, lf_pending = 1,
      lf_app = client_start \<lparr>tv_sec = 0, tv_nsec = 0\<rparr> demo_mem world0\<rparr>" by (rule life.start)
  from life.add [OF this, where c = 3 and p = demo_answers]
  obtain n where n: "?life \<lparr>lf_open = {3}, lf_pending = n, lf_app = demo_added\<rparr>"
    by (auto simp: demo_added_def)
  obtain w' where w': "tcp_client_on_timer demo_env_fail demo_args (cs_data demo_added) (cs_world demo_added) =
      Some ((cs_data demo_added)\<lparr>tc_last_ts := \<lparr>tv_sec = 1, tv_nsec = 0\<rparr>\<rparr>, w')"
    "all_written (trace w') = [msg_head demo_args 0, msg_head demo_args 1]"
    using demo_failed by blast
  let ?s = "demo_added\<lparr>cs_data := (cs_data demo_added)\<lparr>tc_last_ts := \<lparr>tv_sec = 1, tv_nsec = 0\<rparr>\<rparr>, cs_world := w'\<rparr>"
  have e: "client_event demo_env_fail demo_args (list_bb True) ClTimer demo_added = Some ?s"
    by (simp add: client_event_def w'(1))
  obtain m where m: "?life \<lparr>lf_open = {3}, lf_pending = m, lf_app = ?s\<rparr>"
    using life.other [OF n, where q = ClTimer and s' = ?s] e by (auto simp: client_allowed_def)
  then show ?thesis
    by (intro exI [of _ "\<lparr>lf_open = {3}, lf_pending = m, lf_app = ?s\<rparr>"]) (simp add: w'(2) demo_added_simps)
qed

theorem tcp_client_at_least_once_witness:
  "\<exists>st. life (client_add demo_env_fail demo_args (list_bb True)) tcp_client_on_close
      (client_event demo_env_fail demo_args (list_bb True)) client_allowed client_conns
      (client_start \<lparr>tv_sec = 0, tv_nsec = 0\<rparr> demo_mem world0) st \<and>
    round_log 16 (round_slots demo_args demo_mem) 2 0 (client_log demo_env_fail (lf_app st)) \<and>
    client_log demo_env_fail (lf_app st) = [(msg_head demo_args 0, 16), (msg_head demo_args 1, -1)]"
proof -
  obtain st where st: "life (client_add demo_env_fail demo_args (list_bb True)) tcp_client_on_close
      (client_event demo_env_fail demo_args (list_bb True)) client_allowed client_conns
      (client_start \<lparr>tv_sec = 0, tv_nsec = 0\<rparr> demo_mem world0) st"
    "tc_round_index (cs_data (lf_app st)) = 0"
    "all_written (trace (cs_world (lf_app st))) = [msg_head demo_args 0, msg_head demo_args 1]"
    using demo_failed_life by blast
  then have "client_log demo_env_fail (lf_app st) = [(msg_head demo_args 0, 16), (msg_head demo_args 1, -1)]"
    by (simp add: client_log_def)
  with st(1,2) tcp_client_at_least_once [OF _ _ _ _ _ st(1), of "\<lambda>_. 0"] show ?thesis
    by (intro exI [of _ st]) (simp add: Let_def)
qed

end
