(* ===== verification/TcpClientRun.thy ===== *)
theory TcpClientRun
  imports TcpClientLog
begin

text \<open>
  The whole \<open>run\<close> function of the TCP client: connecting, the message array, the event loop
  and the cleanup. Of the event loop it is only used that all that happens while it runs are calls
  of the callbacks, and that it does not return before \<open>muggle_evloop_exit\<close> was called. Whether it
  returns is up to the environment (a peer that never takes a message keeps it running), so
  returning is not assumed; what is proved instead is that from every state the
  loop can be in, timers alone lead to the exit once the socket takes what it is given.
\<close>

section \<open>The contract of the event loop\<close>

abbreviation client_life_at ::
  "env \<Rightarrow> nb_sys_args_t \<Rightarrow> 'b bytes_buffer \<Rightarrow> 'b tcp_client \<Rightarrow> 'b tcp_client life_state \<Rightarrow> bool" where
  "client_life_at en a ops \<equiv> life (client_add en a ops) tcp_client_on_close (client_event en a ops)
     client_allowed client_conns"

definition evloop_contract ::
  "env \<Rightarrow> nb_sys_args_t \<Rightarrow> 'b bytes_buffer \<Rightarrow> (tcp_client_evloop_data_t \<Rightarrow> world \<Rightarrow> run_result) \<Rightarrow>
   tcp_client_evloop_data_t \<Rightarrow> world \<Rightarrow> bool" where
  "evloop_contract en a ops evloop d w \<longleftrightarrow>
     (\<forall>w'. evloop d w = Ran w' \<longrightarrow>
       (\<exists>st. client_life_at en a ops \<lparr>cs_data = d, cs_sess = Map.empty, cs_world = w\<rparr> st \<and>
         w' = cs_world (lf_app st) \<and> EvloopExit \<in> set (trace w')))"

section \<open>Properties\<close>

lemma life_ticks:
  assumes "life (client_add en a ops) tcp_client_on_close (client_event en a ops) client_allowed
      client_conns s0 st"
    and "ticks (tcp_tick en a) k (cs_data (lf_app st), cs_world (lf_app st)) = Some (d', w')"
  shows "\<exists>st'. life (client_add en a ops) tcp_client_on_close (client_event en a ops) client_allowed
      client_conns s0 st' \<and> cs_data (lf_app st') = d' \<and> cs_world (lf_app st') = w'"
  using assms
proof (induction k arbitrary: st)
  case 0
  then show ?case by (intro exI [of _ st]) simp
next
  case (Suc k)
  obtain d1 w1 where t: "tcp_client_on_timer en a (cs_data (lf_app st)) (cs_world (lf_app st)) = Some (d1, w1)"
    "ticks (tcp_tick en a) k (d1, w1) = Some (d', w')"
    using Suc.prems(2) by (cases "tcp_tick en a (cs_data (lf_app st), cs_world (lf_app st))")
      (auto simp: tcp_tick_def [of en a "(cs_data (lf_app st), cs_world (lf_app st))"])
  let ?s = "(lf_app st)\<lparr>cs_data := d1, cs_world := w1\<rparr>"
  have e: "client_event en a ops ClTimer (lf_app st) = Some ?s" by (simp add: client_event_def t(1))
  have "client_allowed ClTimer (lf_open st) (lf_app st)" by (simp add: client_allowed_def)
  from Suc.IH [OF life.other [OF Suc.prems(1) this e]] t(2) show ?case by simp
qed

text \<open>C8: The whole \<open>run\<close> of the TCP client, with sizes and counts that fit 32 bits and a first connect
  that succeeds after any number of attempts: \<open>run\<close> is the event loop on the array of all messages
  followed by the cleanup. Whenever it returns, whatever happened to its connections, writes
  and timers meanwhile, every message of the run was taken by a socket at least once, in
  order, and nothing else was written. And it can always be finished: from every state the event
  loop can reach in which a connection is open whose socket takes everything from then on, some
  number of timer calls leads to the exit, with a clock of which some reading is always due.\<close>

theorem tcp_client_run_delivers:
  assumes "cstr (conn_host a) \<noteq> ''''" and "cstr (conn_port a) \<noteq> ''''" and "config_ok a"
    and "opens_after en w k fd"
    and "all_written (trace w) = []" and "n_wr w = 0" and "EvloopExit \<notin> set (trace w)"
    and "\<And>t mem w'. prepare_datas a fill = Some mem \<Longrightarrow> evloop_contract en a ops evloop
      \<lparr>tc_ctx = None, tc_last_ts = t, tc_round_index = 0, tc_datas = mem\<rparr> w'"
  shows "\<exists>mem t w1. prepare_datas a fill = Some mem \<and> no_writes w w1 \<and>
    tcp_client_run en True fill evloop a w = run_bind
      (evloop \<lparr>tc_ctx = None, tc_last_ts = t, tc_round_index = 0, tc_datas = mem\<rparr> w1) cleanup \<and>
    (\<forall>w'. tcp_client_run en True fill evloop a w = Ran w' \<longrightarrow>
      (\<exists>es. trace w' = es @ [Call ''free'' [], Call ''muggle_socket_evloop_handle_destroy'' [],
                             Call ''muggle_evloop_delete'' []]) \<and>
      subseq (map (slot a mem) [0..<n_msgs a])
        (taken (to_int (msg_size a)) (answered en 0 (all_written (trace w')))) \<and>
      set (all_written (trace w')) \<subseteq> slot a mem ` {0..<n_msgs a}) \<and>
    (\<forall>st c. client_life_at en a ops (client_start t mem w1) st \<and> tc_ctx (cs_data (lf_app st)) = Some c \<and>
        (\<forall>j \<ge> n_wr (cs_world (lf_app st)). wr en j = to_int (msg_size a)) \<and> round_fair en (tcp_due a) \<longrightarrow>
      (\<exists>k d' w'. ticks (tcp_tick en a) k (cs_data (lf_app st), cs_world (lf_app st)) = Some (d', w') \<and>
         last (trace w') = EvloopExit))"
proof -
  obtain mem where mem: "prepare_datas a fill = Some mem" "datas_ok a mem"
    using prepare_datas_ok [OF assms(3)] by blast
  have "16 \<le> unat (msg_size a)" using assms(3) by (simp add: config_ok_def)
  from tcp_client_run_opened [OF assms(1,2) this assms(4), of fill evloop] mem(1)
  obtain t w1 where w1: "no_writes w w1" "tcp_client_run en True fill evloop a w =
      run_bind (evloop \<lparr>tc_ctx = None, tc_last_ts = t, tc_round_index = 0, tc_datas = mem\<rparr> w1) cleanup" by auto
  have start: "client_logged en a mem (client_start t mem w1)"
    using assms(3,5-7) mem(2) w1(1)
    by (simp add: client_logged_def client_start_def tcp_client_ok_def client_log_def round_log.start no_writes_def)
  note inv = client_logged_reachable [OF _ start, unfolded client_logged_def client_log_def]
  have ran: "(\<exists>es. trace w' = es @ [Call ''free'' [], Call ''muggle_socket_evloop_handle_destroy'' [],
                                 Call ''muggle_evloop_delete'' []]) \<and>
      subseq (map (slot a mem) [0..<n_msgs a])
        (taken (to_int (msg_size a)) (answered en 0 (all_written (trace w')))) \<and>
      set (all_written (trace w')) \<subseteq> slot a mem ` {0..<n_msgs a}"
    if run: "tcp_client_run en True fill evloop a w = Ran w'" for w'
  proof -
    obtain w2 where w2: "evloop \<lparr>tc_ctx = None, tc_last_ts = t, tc_round_index = 0, tc_datas = mem\<rparr> w1 = Ran w2"
      "cleanup w2 = Ran w'" using run w1(2) by (auto simp: run_bind_Ran)
    obtain st where st: "client_life_at en a ops (client_start t mem w1) st" "w2 = cs_world (lf_app st)"
      "EvloopExit \<in> set (trace w2)"
      using assms(8) [OF mem(1), of t w1] w2(1) by (auto simp: evloop_contract_def client_start_def)
    have "round_log (to_int (msg_size a)) (round_slots a mem) (unat (round_num a)) (unat (round_num a))
        (answered en 0 (all_written (trace w2)))"
      using inv [OF st(1)] st(2,3) by auto
    from round_log_finished [OF assms(3) this] w2(2) show ?thesis by auto
  qed
  have finish: "\<exists>k d' w'. ticks (tcp_tick en a) k (cs_data (lf_app st), cs_world (lf_app st)) = Some (d', w') \<and>
      last (trace w') = EvloopExit"
    if "client_life_at en a ops (client_start t mem w1) st" "tc_ctx (cs_data (lf_app st)) = Some c"
      "\<forall>j \<ge> n_wr (cs_world (lf_app st)). wr en j = to_int (msg_size a)" "round_fair en (tcp_due a)" for st c
    using tcp_ticks_finish [of a "cs_data (lf_app st)" c "cs_world (lf_app st)" en] inv [OF that(1)] that(2-4)
    by blast
  show ?thesis using mem(1) w1 ran finish by blast
qed

lemma demo_life_exits:
  "\<exists>st. client_life_at demo_env demo_args (list_bb True)
      (client_start t demo_mem w :: (nat \<times> bytes) tcp_client) st \<and>
    EvloopExit \<in> set (trace (cs_world (lf_app st)))"
proof -
  let ?life = "life (client_add demo_env demo_args (list_bb True)) tcp_client_on_close
      (client_event demo_env demo_args (list_bb True)) client_allowed client_conns
      (client_start t demo_mem w :: (nat \<times> bytes) tcp_client)"
  let ?s = "client_add demo_env demo_args (list_bb True) demo_answers 3 (client_start t demo_mem w)"
  have "?life \<lparr>lf_open = {}, lf_pending = 1, lf_app = client_start t demo_mem w\<rparr>" by (rule life.start)
  from life.add [OF this, where c = 3 and p = demo_answers]
  obtain n where n: "?life \<lparr>lf_open = {3}, lf_pending = n, lf_app = ?s\<rparr>" by auto
  have "\<exists>t. cs_data ?s = \<lparr>tc_ctx = Some 3, tc_last_ts = t, tc_round_index = 0, tc_datas = demo_mem\<rparr>"
    by (simp add: client_add_def tcp_client_on_add_ctx_def nb_tcp_session_new_def read_clock_def
        client_start_def demo_answers_def Let_def)
  then obtain t' where t': "cs_data ?s = \<lparr>tc_ctx = Some 3, tc_last_ts = t', tc_round_index = 0,
      tc_datas = demo_mem\<rparr>" by blast
  have good: "wr demo_env j = to_int (msg_size demo_args)" for j by simp
  obtain k d' w' where "ticks (tcp_tick demo_env demo_args) k (cs_data ?s, cs_world ?s) = Some (d', w')"
    "EvloopExit \<in> set (trace w')"
    using tcp_ticks_complete [OF demo_config demo_datas good demo_fair,
        where w = "cs_world ?s" and c = 3 and t = t']
    unfolding t' by blast
  with life_ticks [OF n, of k d' w'] show ?thesis by (auto simp del: ticks.simps)
qed

theorem tcp_client_run_delivers_witness:
  "\<exists>evloop w'. tcp_client_run demo_env True (\<lambda>_. 0) evloop demo_args world0 = Ran w' \<and>
    subseq [msg_head demo_args 0, msg_head demo_args 1, msg_head demo_args 2, msg_head demo_args 3]
      (all_written (trace w'))"
proof -
  define reached where "reached t w st \<longleftrightarrow> client_life_at demo_env demo_args (list_bb True)
      (client_start t demo_mem w :: (nat \<times> bytes) tcp_client) st \<and>
    EvloopExit \<in> set (trace (cs_world (lf_app st)))" for t w st
  have "\<forall>t w. \<exists>st. reached t w st"
    using demo_life_exits unfolding reached_def by blast
  then obtain f where f: "\<And>t w. reached t w (f t w)" by metis
  let ?evloop = "\<lambda>d w. Ran (cs_world (lf_app (f (tc_last_ts d) w)))"
  have contract: "evloop_contract demo_env demo_args (list_bb True) ?evloop
      \<lparr>tc_ctx = None, tc_last_ts = t, tc_round_index = 0, tc_datas = mem\<rparr> w"
    if "prepare_datas demo_args (\<lambda>_. 0) = Some mem" for t mem w
    using f [of t w] that by (auto simp: evloop_contract_def reached_def client_start_def)
  have op: "opens_after demo_env world0 0 5" by (simp add: opens_after_def)
  obtain mem t w1 where w1: "prepare_datas demo_args (\<lambda>_. 0) = Some mem"
    "tcp_client_run demo_env True (\<lambda>_. 0) ?evloop demo_args world0 = run_bind
      (?evloop \<lparr>tc_ctx = None, tc_last_ts = t, tc_round_index = 0, tc_datas = mem\<rparr> w1) cleanup"
    "\<And>w'. tcp_client_run demo_env True (\<lambda>_. 0) ?evloop demo_args world0 = Ran w' \<Longrightarrow>
      subseq (map (slot demo_args mem) [0..<n_msgs demo_args])
        (taken (to_int (msg_size demo_args)) (answered demo_env 0 (all_written (trace w'))))"
    using tcp_client_run_delivers [OF _ _ demo_config op _ _ _ contract, where fill = "\<lambda>_. 0"] by auto
  have good: "answered demo_env 0 bs = map (\<lambda>m. (m, 16)) bs" for bs by (rule answered_good) simp
  obtain w' where "tcp_client_run demo_env True (\<lambda>_. 0) ?evloop demo_args world0 = Ran w'"
    using w1(2) by simp
  with w1(1,3) good show ?thesis by (intro exI [of _ ?evloop] exI [of _ w']) simp
qed

end
