(* ===== verification/TcpServer.thy ===== *)
theory TcpServer
  imports RefBuffer Receiver Demo Evloop
begin

text \<open>
  The TCP server (\<open>app/tcp_server\<close>): it accepts clients, connects to one upstream, and
  forwards every message of a client to the upstream. As in the TCP client, contexts are
  numbers and \<open>ss_sess\<close> maps a context to its session.
\<close>

section \<open>State\<close>

abbreviation SERVER_SESSION_ROLE_NULL :: u32 where "SERVER_SESSION_ROLE_NULL \<equiv> 0"
abbreviation SERVER_SESSION_ROLE_CLIENT :: u32 where "SERVER_SESSION_ROLE_CLIENT \<equiv> 1"
abbreviation SERVER_SESSION_ROLE_UPSTREAM :: u32 where "SERVER_SESSION_ROLE_UPSTREAM \<equiv> 2"

record tcp_server_evloop_data_t =
  sv_listen_ctx :: "ctx option"
  sv_conn_ctx :: "ctx option"

record 'b tcp_server =
  ss_data :: tcp_server_evloop_data_t
  ss_sess :: "ctx \<Rightarrow> 'b nb_tcp_session_t option"
  ss_world :: world

section \<open>The callbacks of connections\<close>

definition tcp_server_on_add_ctx ::
  "'b bytes_buffer \<Rightarrow> int \<Rightarrow> bool \<Rightarrow> u32 \<Rightarrow> ctx \<Rightarrow> ctx_type \<Rightarrow> 'b tcp_server \<Rightarrow> 'b tcp_server" where
  "tcp_server_on_add_ctx ops nodelay_ret huge_ok junk c ty st =
     (case ty of
        CtxTcpListen \<Rightarrow> st\<lparr>ss_data := (ss_data st)\<lparr>sv_listen_ctx := Some c\<rparr>\<rparr>
      | CtxTcpClient \<Rightarrow>
          (let d = (ss_data st)\<lparr>sv_conn_ctx := Some c\<rparr>;
               w = emit (Call ''muggle_setsockopt'' [ANat c]) (ss_world st);
               w = (if nodelay_ret \<noteq> 0
                    then emits [Log L_ERROR ''failed set TCP NODELAY'', SockShutdown c] w else w);
               (s, w) = nb_tcp_session_new ops Fn_tcp_server_handle_message huge_ok junk w;
               s = s\<lparr>role := SERVER_SESSION_ROLE_UPSTREAM\<rparr>
           in st\<lparr>ss_data := d, ss_sess := (ss_sess st)(c \<mapsto> s), ss_world := w\<rparr>)
      | CtxUdp \<Rightarrow> st)"

definition tcp_server_on_connect ::
  "'b bytes_buffer \<Rightarrow> int \<Rightarrow> bool \<Rightarrow> u32 \<Rightarrow> ctx \<Rightarrow> 'b tcp_server \<Rightarrow> 'b tcp_server" where
  "tcp_server_on_connect ops nodelay_ret huge_ok junk c st =
     (let w = emits [Log L_INFO ''session connect: remote_addr=%s'',
                     Call ''muggle_setsockopt'' [ANat c]] (ss_world st)
      in if nodelay_ret \<noteq> 0
         then st\<lparr>ss_world := emits [Log L_ERROR ''failed set TCP NODELAY'', SockShutdown c] w\<rparr>
         else
           let (s, w) = nb_tcp_session_new ops Fn_tcp_server_handle_message huge_ok junk w;
               s = s\<lparr>role := SERVER_SESSION_ROLE_CLIENT\<rparr>
           in st\<lparr>ss_sess := (ss_sess st)(c \<mapsto> s), ss_world := w\<rparr>)"

definition tcp_server_on_close :: "ctx \<Rightarrow> 'b tcp_server \<Rightarrow> 'b tcp_server" where
  "tcp_server_on_close c st =
     (case ss_sess st c of
        None \<Rightarrow> st
      | Some s \<Rightarrow>
          if role s = SERVER_SESSION_ROLE_UPSTREAM
          then (let w = emit (Log L_WARNING ''upstream session close: remote_addr=%s'') (ss_world st);
                    w = nb_tcp_async_connect w
                in st\<lparr>ss_data := (ss_data st)\<lparr>sv_conn_ctx := None\<rparr>, ss_world := w\<rparr>)
          else if role s = SERVER_SESSION_ROLE_CLIENT
          then st\<lparr>ss_world := emit (Log L_WARNING ''client session close: remote_addr=%s'') (ss_world st)\<rparr>
          else st)"

definition tcp_server_on_release :: "ctx \<Rightarrow> 'b tcp_server \<Rightarrow> 'b tcp_server" where
  "tcp_server_on_release c st =
     (let w = emit (Log L_WARNING ''session release: remote_addr=%s'') (ss_world st)
      in case ss_sess st c of
           None \<Rightarrow> st\<lparr>ss_world := w\<rparr>
         | Some s \<Rightarrow> st\<lparr>ss_sess := (ss_sess st)(c := None), ss_world := nb_tcp_session_delete s w\<rparr>)"

section \<open>Messages\<close>

text \<open>
  \<open>ro\<close> is the role of the session of the context the message came from, \<open>None\<close>
  when it has no session. The data block and the message are read from the memory at
  the header; a read past its end is \<open>None\<close>.
\<close>

definition tcp_server_handle_message ::
  "env \<Rightarrow> tcp_server_evloop_data_t \<Rightarrow> u32 option \<Rightarrow> msg_callback" where
  "tcp_server_handle_message en d ro w mem datalen =
     (let w = nb_assert (msg_id (dec_hdr mem) = 1) ''hdr->msg_id == 1'' w
      in case ro of
           None \<Rightarrow> Some (emit (Log L_ERROR ''failed get session'') w)
         | Some r \<Rightarrow>
             let msz = 8 + datalen
             in if r = SERVER_SESSION_ROLE_CLIENT
                then if length mem < sizeof_hdr + sizeof_data then None
                     else
                       let m = dec_data (drop sizeof_hdr mem);
                           w = netbench_record en (msg_user_id m) (msg_sequence m) msz ''server.rcv'' w
                       in case sv_conn_ctx d of
                            None \<Rightarrow> Some (emit (Log L_WARNING ''upstream connection not ready yet'') w)
                          | Some u \<Rightarrow>
                              let w = netbench_record en (msg_user_id m) (msg_sequence m) msz
                                        ''server.snd_begin'' w
                              in do { buf \<leftarrow> get_bytes mem 0 (unat msz);
                                      let (num_bytes, w) = sock_write en u buf w
                                      in if num_bytes \<noteq> to_int (datalen + 8)
                                         then Some (emits [Log L_ERROR ''failed write message: seq=%u'',
                                                           SockShutdown u] w)
                                         else Some w }
                else Some w)"

text \<open>The program has no other function a session's callback could be.\<close>

definition tcp_server_call ::
  "env \<Rightarrow> tcp_server_evloop_data_t \<Rightarrow> u32 option \<Rightarrow> fn_nb_msg_callback \<Rightarrow> msg_callback" where
  "tcp_server_call en d ro fn =
     (case fn of Fn_tcp_server_handle_message \<Rightarrow> tcp_server_handle_message en d ro | _ \<Rightarrow> (\<lambda>_ _ _. None))"

lemma tcp_server_call_simps [simp]:
  "tcp_server_call en d ro Fn_tcp_server_handle_message = tcp_server_handle_message en d ro"
  by (simp add: tcp_server_call_def)

lemma tcp_server_call_Some:
  "tcp_server_call en d ro fn w mem n = Some w' \<Longrightarrow> tcp_server_handle_message en d ro w mem n = Some w'"
  by (cases fn) (simp_all add: tcp_server_call_def)

text \<open>The result carries the reads of the socket that were not made.\<close>

definition tcp_server_on_message ::
  "env \<Rightarrow> 'b bytes_buffer \<Rightarrow> ctx \<Rightarrow> bytes list \<Rightarrow> 'b tcp_server \<Rightarrow>
   (bytes list \<times> 'b tcp_server) option option" where
  "tcp_server_on_message en ops c rds st =
     (case ss_sess st c of
        None \<Rightarrow> Some (Some (rds, st))
      | Some s \<Rightarrow>
          map_option (map_option (\<lambda>(rest, s', w).
              (rest, st\<lparr>ss_sess := (ss_sess st)(c \<mapsto> s'), ss_world := w\<rparr>)))
            (nb_tcp_session_on_msg ops (tcp_server_call en (ss_data st) (Some (role s)))
               c rds s (ss_world st)))"

section \<open>run and main\<close>

definition tcp_server_run ::
  "env \<Rightarrow> bool \<Rightarrow> (tcp_server_evloop_data_t \<Rightarrow> world \<Rightarrow> run_result) \<Rightarrow>
   nb_sys_args_t \<Rightarrow> world \<Rightarrow> run_result" where
  "tcp_server_run en ev_ok evloop a w =
     (if cstr (serv_host a) = '''' \<or> cstr (serv_port a) = ''''
      then Ran (emit (Log L_ERROR ''server run without server host/port'') w)
      else if cstr (conn_host a) = '''' \<or> cstr (conn_port a) = ''''
      then Ran (emit (Log L_ERROR ''server run without conn host/port'') w)
      else with_evloop ev_ok [''add_ctx'', ''conn'', ''close'', ''release'', ''msg''] (-1) a
        (\<lambda>w. add_opened (nb_tcp_listen en a w)
          (\<lambda>w. add_opened (nb_tcp_connect en a w)
            (evloop_run_and_delete
               (evloop \<lparr>sv_listen_ctx = None, sv_conn_ctx = None\<rparr>) []))) w)"

definition tcp_server_main ::
  "env \<Rightarrow> bool \<Rightarrow> (tcp_server_evloop_data_t \<Rightarrow> world \<Rightarrow> run_result) \<Rightarrow>
   init_result \<times> world \<Rightarrow> run_result" where
  "tcp_server_main en ev_ok evloop = app_main (tcp_server_run en ev_ok evloop)"

section \<open>What the server does with a message\<close>

text \<open>The effects for a message of a client, with the clock read \<open>k\<close> and the socket written \<open>n\<close> times.\<close>

definition server_rec :: "env \<Rightarrow> nat \<Rightarrow> bytes \<Rightarrow> string \<Rightarrow> nb_ts_record_t" where
  "server_rec en k f act =
     (let m = dec_data (drop 8 f)
      in rec_at en k (msg_user_id m) (msg_sequence m) (8 + payload_len (dec_hdr f)) act)"

definition server_effects :: "env \<Rightarrow> ctx option \<Rightarrow> bytes \<Rightarrow> nat \<Rightarrow> nat \<Rightarrow> effect list" where
  "server_effects en conn f k n =
     (if msg_id (dec_hdr f) = 1 then [] else [AssertFailed ''hdr->msg_id == 1'']) @
     record_effects (server_rec en k f ''server.rcv'') @
     (case conn of
        None \<Rightarrow> [Log L_WARNING ''upstream connection not ready yet'']
      | Some u \<Rightarrow>
          record_effects (server_rec en (k + 1) f ''server.snd_begin'') @ [SockWrite u f] @
          (if wr en n = to_int (8 + payload_len (dec_hdr f)) then []
           else [Log L_ERROR ''failed write message: seq=%u'', SockShutdown u]))"

definition server_world :: "env \<Rightarrow> tcp_server_evloop_data_t \<Rightarrow> bytes \<Rightarrow> world \<Rightarrow> world" where
  "server_world en d f w =
     (case tcp_server_handle_message en d (Some SERVER_SESSION_ROLE_CLIENT) w f (payload_len (dec_hdr f)) of
        None \<Rightarrow> w | Some w' \<Rightarrow> w')"

lemma frame_msz:
  "is_frame f \<Longrightarrow> length f < 4294967296 \<Longrightarrow> unat (8 + payload_len (dec_hdr f)) = length f"
  using frame_len_word [of f] by (simp add: is_frame_def frame_len_def)

lemma server_handles_frame:
  assumes f: "is_frame f" "16 \<le> length f" "length f < 4294967296"
    and mem: "length f \<le> length mem" "take (length f) mem = f"
  shows "\<exists>w'. tcp_server_handle_message en d (Some SERVER_SESSION_ROLE_CLIENT) w mem
      (payload_len (dec_hdr f)) = Some w' \<and>
    trace w' = trace w @ server_effects en (sv_conn_ctx d) f (n_clk w) (n_wr w) \<and>
    n_clk w' = n_clk w + (if sv_conn_ctx d = None then 1 else 2) \<and>
    n_wr w' = n_wr w + (if sv_conn_ctx d = None then 0 else 1)"
proof -
  obtain r where m: "mem = f @ r" using mem(2) by (metis append_take_drop_id)
  have hd: "dec_hdr mem = dec_hdr f" using f(2) by (simp add: m dec_hdr_append)
  have d2: "dec_data (drop 8 mem) = dec_data (drop 8 f)"
    using f(2) by (simp add: m dec_data_def un32_append)
  have buf: "get_bytes mem 0 (unat (8 + payload_len (dec_hdr f))) = Some f"
    unfolding frame_msz [OF f(1,3)] by (simp add: m get_bytes_def)
  have lm: "16 \<le> length mem" using f(2) mem(1) by simp
  have comm: "payload_len (dec_hdr f) + 8 = 8 + payload_len (dec_hdr f)" by simp
  show ?thesis
  proof (cases "sv_conn_ctx d")
    case None
    then show ?thesis
      using lm by (simp add: tcp_server_handle_message_def hd d2 server_effects_def server_rec_def Let_def)
  next
    case (Some u)
    then show ?thesis
      using lm buf
      by (simp add: tcp_server_handle_message_def hd d2 server_effects_def server_rec_def sock_write_def
          Let_def comm)
  qed
qed

lemma server_handle_prefix:
  assumes f: "is_frame f" "16 \<le> length f" "length f < 4294967296"
    and mem: "length f \<le> length mem" "take (length f) mem = f"
  shows "tcp_server_handle_message en d ro w mem (payload_len (dec_hdr f)) =
    tcp_server_handle_message en d ro w f (payload_len (dec_hdr f))"
proof -
  obtain r where m: "mem = f @ r" using mem(2) by (metis append_take_drop_id)
  have hd: "dec_hdr mem = dec_hdr f" using f(2) by (simp add: m dec_hdr_append)
  have d2: "dec_data (drop 8 mem) = dec_data (drop 8 f)"
    using f(2) by (simp add: m dec_data_def un32_append)
  have buf: "get_bytes mem 0 (unat (8 + payload_len (dec_hdr f))) =
      get_bytes f 0 (unat (8 + payload_len (dec_hdr f)))"
    unfolding frame_msz [OF f(1,3)] by (simp add: m get_bytes_def)
  have "\<not> length mem < 16" "\<not> length f < 16" using f(2) mem(1) by simp_all
  then show ?thesis
    unfolding tcp_server_handle_message_def Let_def hd d2 buf
    by (simp cong del: option.case_cong_weak)
qed

lemma server_frame_cb:
  assumes "is_frame f" and "16 \<le> length f" and "length f < 4294967296"
  shows "frame_cb (tcp_server_handle_message en d (Some SERVER_SESSION_ROLE_CLIENT))
    (server_world en d) f"
  unfolding frame_cb_def
proof (intro allI impI)
  fix w and mem :: bytes
  assume mem: "length f \<le> length mem \<and> take (length f) mem = f"
  obtain w' where "tcp_server_handle_message en d (Some SERVER_SESSION_ROLE_CLIENT) w f
      (payload_len (dec_hdr f)) = Some w'"
    using server_handles_frame [OF assms, of f en d w] by auto
  moreover have "tcp_server_handle_message en d (Some SERVER_SESSION_ROLE_CLIENT) w mem
      (payload_len (dec_hdr f)) =
    tcp_server_handle_message en d (Some SERVER_SESSION_ROLE_CLIENT) w f (payload_len (dec_hdr f))"
    using server_handle_prefix [OF assms] mem by blast
  ultimately show "tcp_server_handle_message en d (Some SERVER_SESSION_ROLE_CLIENT) w mem
      (payload_len (dec_hdr f)) = Some (server_world en d f w)"
    by (simp add: server_world_def)
qed

lemma server_world_trace:
  assumes "is_frame f" and "16 \<le> length f" and "length f < 4294967296"
  shows "trace (server_world en d f w) =
      trace w @ server_effects en (sv_conn_ctx d) f (n_clk w) (n_wr w)"
  using server_handles_frame [OF assms, of f en d w] by (auto simp: server_world_def)

text \<open>What can be observed of the effects: the bytes for the upstream, and the records.\<close>

definition rec_key :: "nb_ts_record_t \<Rightarrow> u32 \<times> u32 \<times> u32 \<times> string" where
  "rec_key r = (r_user_id r, r_id r, r_msg_size r, r_action r)"

definition frame_key :: "bytes \<Rightarrow> string \<Rightarrow> u32 \<times> u32 \<times> u32 \<times> string" where
  "frame_key f act = (let m = dec_data (drop 8 f)
     in (msg_user_id m, msg_sequence m, 8 + payload_len (dec_hdr f), act))"

lemma rec_key_server [simp]: "rec_key (server_rec en k f act) = frame_key f act"
  by (simp add: rec_key_def server_rec_def rec_at_def frame_key_def Let_def)

lemma server_effects_written:
  "written_to u (server_effects en conn f k n) = (if conn = Some u then [f] else [])"
  by (auto simp: server_effects_def split: option.split)

lemma server_effects_records:
  "map rec_key (committed (server_effects en conn f k n)) =
     frame_key f ''server.rcv'' #
     (if conn = None then [] else [frame_key f ''server.snd_begin''])"
  by (auto simp: server_effects_def split: option.split)

lemma server_fold:
  assumes "\<forall>f \<in> set (map snd ms). valid_frame f"
  shows "written_to u (trace (fold (deliver (server_world en d)) ms w)) =
      written_to u (trace w) @ (if sv_conn_ctx d = Some u then map snd ms else [])"
    and "map rec_key (committed (trace (fold (deliver (server_world en d)) ms w))) =
      map rec_key (committed (trace w)) @ concat (map (\<lambda>f. frame_key f ''server.rcv'' #
        (if sv_conn_ctx d = None then [] else [frame_key f ''server.snd_begin''])) (map snd ms))"
  using assms
  by (induction ms arbitrary: w)
     (auto simp: valid_frame_def server_world_trace server_effects_written server_effects_records deliver_def)

section \<open>The server forwards\<close>

text \<open>
  A well-formed state of a client's session: the buffer keeps its contract, there is no
  length limit, the role is that of a client.
\<close>

definition client_session ::
  "'b bytes_buffer \<Rightarrow> ('b \<Rightarrow> bool) \<Rightarrow> ('b \<Rightarrow> bytes) \<Rightarrow> 'b nb_tcp_session_t \<Rightarrow> bool" where
  "client_session ops ok data s \<longleftrightarrow>
     bytes_buffer_ok ops ok data \<and> ok (bytes_buf s) \<and> msg_len_limit s = 0 \<and>
     role s = SERVER_SESSION_ROLE_CLIENT \<and> session_cb s = Fn_tcp_server_handle_message"

definition server_receives ::
  "'b bytes_buffer \<Rightarrow> ('b \<Rightarrow> bool) \<Rightarrow> ('b \<Rightarrow> bytes) \<Rightarrow> ctx \<Rightarrow> tcp_server_evloop_data_t \<Rightarrow>
   'b tcp_server \<Rightarrow> bool" where
  "server_receives ops ok data c d st \<longleftrightarrow> ss_data st = d \<and>
     (\<exists>s. ss_sess st c = Some s \<and> client_session ops ok data s \<and> incomplete (data (bytes_buf s)))"

definition server_pend :: "('b \<Rightarrow> bytes) \<Rightarrow> ctx \<Rightarrow> 'b tcp_server \<Rightarrow> bytes" where
  "server_pend data c st = (case ss_sess st c of None \<Rightarrow> [] | Some s \<Rightarrow> data (bytes_buf s))"

lemma server_on_message_frames:
  assumes st: "server_receives ops ok data c d st" and rds: "reads_ok rds"
    and wf: "\<And>k. wf_stream (server_pend data c st @ concat (take k rds))"
  shows "\<exists>us rest st' w0 ms. tcp_server_on_message en ops c rds st = Some (Some (rest, st')) \<and>
    server_receives ops ok data c d st' \<and>
    server_pend data c st' = snd (split_frames (server_pend data c st @ concat us)) \<and>
    ss_world st' = fold (deliver (server_world en d)) ms w0 \<and>
    map snd ms = fst (split_frames (server_pend data c st @ concat us)) \<and>
    (w0 = ss_world st \<or> w0 = emit (Log L_ERROR ''bytes buffer full'') (ss_world st)) \<and>
    (\<forall>f \<in> set (fst (split_frames (server_pend data c st @ concat us))). valid_frame f) \<and>
    (rds = us @ rest \<or> rds = us @ [] # rest)"
proof -
  obtain s where s: "ss_data st = d" "ss_sess st c = Some s" "bytes_buffer_ok ops ok data"
    "ok (bytes_buf s)" "msg_len_limit s = 0" "role s = SERVER_SESSION_ROLE_CLIENT"
    "session_cb s = Fn_tcp_server_handle_message"
    using st by (auto simp: server_receives_def client_session_def)
  have p: "server_pend data c st = data (bytes_buf s)" by (simp add: server_pend_def s(2))
  have rl: "\<And>bs. bs \<in> set rds \<Longrightarrow> length bs \<le> NET_BENCH_TCP_RECV_UNIT_SIZE"
    using rds by (simp add: reads_ok_def)
  have cb: "\<And>f. is_frame f \<Longrightarrow> 16 \<le> length f \<Longrightarrow> length f < 2147483648 \<Longrightarrow>
      frame_cb (tcp_server_call en d (Some SERVER_SESSION_ROLE_CLIENT) (session_cb s)) (server_world en d) f"
    unfolding s(7) tcp_server_call_simps by (rule server_frame_cb) simp_all
  obtain us rest b' w0 ms where r: "nb_tcp_session_on_msg ops
      (tcp_server_call en d (Some SERVER_SESSION_ROLE_CLIENT)) c rds s (ss_world st) =
      Some (Some (rest, s\<lparr>bytes_buf := b'\<rparr>, fold (deliver (server_world en d)) ms w0))"
    "map snd ms = fst (split_frames (data (bytes_buf s) @ concat us))"
    "ok b'" "data b' = snd (split_frames (data (bytes_buf s) @ concat us))"
    "\<forall>f \<in> set (fst (split_frames (data (bytes_buf s) @ concat us))). valid_frame f"
    "rds = us @ rest \<or> rds = us @ [] # rest"
    "w0 = ss_world st \<or> w0 = emit (Log L_ERROR ''bytes buffer full'') (ss_world st)"
    using on_msg_frames [where call = "tcp_server_call en d (Some SERVER_SESSION_ROLE_CLIENT)" and s = s,
      OF s(3-5) rl wf [unfolded p] cb, of c "ss_world st"] by blast
  show ?thesis
    using r s p split_rest_incomplete [of "data (bytes_buf s) @ concat us"]
    by (intro exI [of _ us] exI [of _ rest] exI [of _ "st\<lparr>ss_sess := (ss_sess st)(c \<mapsto> s\<lparr>bytes_buf := b'\<rparr>),
          ss_world := fold (deliver (server_world en d)) ms w0\<rparr>"] exI [of _ w0] exI [of _ ms])
       (simp add: tcp_server_on_message_def server_receives_def server_pend_def client_session_def)
qed

interpretation server_fwd: receiver "tcp_server_on_message en ops c" "server_receives ops ok data c d"
  "server_pend data c" "\<lambda>st. written_to u (trace (ss_world st))"
  "\<lambda>f. if sv_conn_ctx d = Some u then [f] else []" for en ops c ok data d u
proof unfold_locales
  fix st :: "'a tcp_server" and rds
  assume st: "server_receives ops ok data c d st"
  then show "incomplete (server_pend data c st)" by (auto simp: server_receives_def server_pend_def)
  assume rds: "reads_ok rds" "\<And>k. wf_stream (server_pend data c st @ concat (take k rds))"
  show "\<exists>us rest st'. tcp_server_on_message en ops c rds st = Some (Some (rest, st')) \<and>
      server_receives ops ok data c d st' \<and>
      server_pend data c st' = snd (split_frames (server_pend data c st @ concat us)) \<and>
      written_to u (trace (ss_world st')) = written_to u (trace (ss_world st)) @
        concat (map (\<lambda>f. if sv_conn_ctx d = Some u then [f] else [])
          (fst (split_frames (server_pend data c st @ concat us)))) \<and>
      (rds = us @ rest \<or> rds = us @ [] # rest)"
    using server_on_message_frames [OF st rds, of en] by (elim exE conjE disjE) (force simp: server_fold)+
qed

interpretation server_log: receiver "tcp_server_on_message en ops c" "server_receives ops ok data c d"
  "server_pend data c" "\<lambda>st. map rec_key (committed (trace (ss_world st)))"
  "\<lambda>f. frame_key f ''server.rcv'' #
     (if sv_conn_ctx d = None then [] else [frame_key f ''server.snd_begin''])" for en ops c ok data d
proof unfold_locales
  fix st :: "'a tcp_server" and rds
  assume st: "server_receives ops ok data c d st"
  then show "incomplete (server_pend data c st)" by (auto simp: server_receives_def server_pend_def)
  assume rds: "reads_ok rds" "\<And>k. wf_stream (server_pend data c st @ concat (take k rds))"
  show "\<exists>us rest st'. tcp_server_on_message en ops c rds st = Some (Some (rest, st')) \<and>
      server_receives ops ok data c d st' \<and>
      server_pend data c st' = snd (split_frames (server_pend data c st @ concat us)) \<and>
      map rec_key (committed (trace (ss_world st'))) =
        map rec_key (committed (trace (ss_world st))) @
        concat (map (\<lambda>f. frame_key f ''server.rcv'' #
            (if sv_conn_ctx d = None then [] else [frame_key f ''server.snd_begin'']))
          (fst (split_frames (server_pend data c st @ concat us)))) \<and>
      (rds = us @ rest \<or> rds = us @ [] # rest)"
    using server_on_message_frames [OF st rds, of en] by (elim exE conjE disjE) (force simp: server_fold)+
qed

section \<open>Properties\<close>

lemma concat_if: "concat (map (\<lambda>f. if P then [f] else []) fs) = (if P then fs else [])"
  by simp

text \<open>C5: However the network cuts the stream of a client and however the event loop spreads its reads over
  events, the server writes to its upstream exactly the complete messages received so far,
  byte for byte and in order, and to nobody else; without an upstream it writes nothing. What
  stays in its buffer is less than one message, and nothing is lost: forwarded messages, buffered bytes
  and unread bytes make up the stream.\<close>

theorem tcp_server_forwards:
  assumes "server_receives ops ok data c d st" and "server_pend data c st = []" and "reads_ok rds"
    and "\<And>f. f \<in> set fs \<Longrightarrow> valid_frame f" and "concat fs = concat rds @ e"
  shows "\<exists>k rest st'. drain (tcp_server_on_message en ops c) n rds st = Some (Some (rest, st')) \<and>
    written_to u (trace (ss_world st')) = written_to u (trace (ss_world st)) @
      (if sv_conn_ctx d = Some u then take k fs else []) \<and>
    incomplete (server_pend data c st') \<and>
    concat (take k fs) @ server_pend data c st' @ concat rest @ e = concat fs \<and>
    (concat rest = [] \<and> e = [] \<longrightarrow> take k fs = fs)"
  using server_fwd.drain_messages [OF assms(1,3,2,4,5), where en = en and u = u and n = n]
    server_fwd.good_pend unfolding concat_if by blast

definition demo_session :: "(nat \<times> bytes) nb_tcp_session_t" where
  "demo_session = \<lparr>session_cb = Fn_tcp_server_handle_message, mem_res = True, bytes_buf = (NET_BENCH_TCP_BUF_SIZE, []), msg_len_limit = 0,
     role = SERVER_SESSION_ROLE_CLIENT\<rparr>"

definition demo_server :: "ctx option \<Rightarrow> (nat \<times> bytes) tcp_server" where
  "demo_server up = \<lparr>ss_data = \<lparr>sv_listen_ctx = Some 1, sv_conn_ctx = up\<rparr>,
     ss_sess = [4 \<mapsto> demo_session], ss_world = world0\<rparr>"

lemma demo_server_receives [simp]:
  "server_receives (list_bb t) list_bb_ok snd 4 \<lparr>sv_listen_ctx = Some 1, sv_conn_ctx = up\<rparr> (demo_server up)"
  by (simp add: server_receives_def demo_server_def client_session_def demo_session_def
      list_bb_contract list_bb_ok_def)

lemma demo_server_simps [simp]:
  "server_pend snd 4 (demo_server up) = []" "ss_world (demo_server up) = world0"
  by (simp_all add: server_pend_def demo_server_def demo_session_def)

lemma demo_reads_ok [simp]: "reads_ok demo_reads"
  by (simp add: reads_ok_def demo_reads_def)

theorem tcp_server_forwards_witness:
  "\<exists>k rest st'. drain (tcp_server_on_message demo_env (list_bb False) 4) 2 demo_reads
      (demo_server (Some 3)) = Some (Some (rest, st')) \<and>
    written_to 3 (trace (ss_world st')) = take k demo_msgs \<and>
    concat (take k demo_msgs) @ server_pend snd 4 st' @ concat rest = concat demo_msgs"
  using tcp_server_forwards [where en = demo_env and u = 3 and n = 2 and e = "[]" and fs = demo_msgs,
      OF demo_server_receives [of False "Some 3"] _ demo_reads_ok demo_msgs_valid]
  by auto

text \<open>For every message the server takes from a client it commits a receive record with the user id, the
  sequence number and the full size of that message, followed by the record of its send when
  there is an upstream, and no other records.\<close>

theorem tcp_server_records:
  assumes "server_receives ops ok data c d st" and "server_pend data c st = []" and "reads_ok rds"
    and "\<And>f. f \<in> set fs \<Longrightarrow> valid_frame f" and "concat fs = concat rds @ e"
  shows "\<exists>k rest st'. drain (tcp_server_on_message en ops c) n rds st = Some (Some (rest, st')) \<and>
    map rec_key (committed (trace (ss_world st'))) = map rec_key (committed (trace (ss_world st))) @
      concat (map (\<lambda>f. frame_key f ''server.rcv'' #
        (if sv_conn_ctx d = None then [] else [frame_key f ''server.snd_begin''])) (take k fs)) \<and>
    concat (take k fs) @ server_pend data c st' @ concat rest @ e = concat fs \<and>
    (concat rest = [] \<and> e = [] \<longrightarrow> take k fs = fs)"
  using server_log.drain_messages [OF assms(1,3,2,4,5), where en = en and n = n] by blast

theorem tcp_server_records_witness:
  "\<exists>k rest st'. drain (tcp_server_on_message demo_env (list_bb True) 4) 2 demo_reads
      (demo_server None) = Some (Some (rest, st')) \<and>
    map rec_key (committed (trace (ss_world st'))) =
      map (\<lambda>f. frame_key f ''server.rcv'') (take k demo_msgs)"
  using tcp_server_records [where en = demo_env and n = 2 and e = "[]" and fs = demo_msgs,
      OF demo_server_receives [of True None] _ demo_reads_ok demo_msgs_valid]
  by auto

text \<open>C33: The handler does not check that a message has room for a data block. A message of a client with a
  payload of less than 8 bytes that has to be copied out of the buffer is read past the end of its copy.\<close>

theorem tcp_server_short_message:
  assumes "server_receives ops ok data c d st" and "ss_sess st c = Some s"
    and "split_frames (f @ r) = (f # fs, r')" and "length f < 16"
    and "bb_writer_fc ops (bytes_buf s) (int NET_BENCH_TCP_RECV_UNIT_SIZE) = Some p"
    and "bb_writer_move_n ops (bytes_buf s) p (f @ r) = Some b'" and "ok b'" and "data b' = f @ r"
    and "bb_writer_fc ops b' (int NET_BENCH_TCP_RECV_UNIT_SIZE) = Some p'"
    and "bb_reader_fc ops b' (int (length f)) = None"
  shows "tcp_server_on_message en ops c [f @ r] st = Some None"
proof -
  have s: "bytes_buffer_ok ops ok data" "msg_len_limit s = 0" "role s = SERVER_SESSION_ROLE_CLIENT"
    "session_cb s = Fn_tcp_server_handle_message"
    using assms(1,2) by (auto simp: server_receives_def client_session_def)
  have f: "is_frame f" using split_frames_are_frames [of f "f @ r"] assms(3) by simp
  then have ne: "f @ r \<noteq> []" by (auto simp: is_frame_def)
  have "read_loop ops c [f @ r] (bytes_buf s) w = (False, [], b', w)" for w
    using ne assms(5,6,9) by (subst read_loop.simps, simp, subst read_loop.simps) auto
  moreover have "call_cb (tcp_server_handle_message en d (Some SERVER_SESSION_ROLE_CLIENT)) f w = None" for w
    using assms(4) by (simp add: call_cb_def tcp_server_handle_message_def Let_def)
  then have "parse_loop ops (tcp_server_handle_message en (ss_data st) (Some (role s))) c
      (s\<lparr>bytes_buf := b'\<rparr>) w = Some None" for w
    using parse_loop_out_of_bounds [OF s(1), of "s\<lparr>bytes_buf := b'\<rparr>" f r] assms(7,8,10) s(2,3) f
      assms(1) by (simp add: server_receives_def)
  ultimately show ?thesis
    using assms(2) s(4) by (simp add: tcp_server_on_message_def nb_tcp_session_on_msg_def)
qed

theorem tcp_server_short_message_witness:
  "tcp_server_on_message demo_env (list_bb False) 4 [enc_hdr \<lparr>msg_id = 1, payload_len = 0\<rparr>]
     (demo_server (Some 3)) = Some None"
proof -
  let ?f = "enc_hdr \<lparr>msg_id = 1, payload_len = 0\<rparr>"
  have "is_frame ?f" using is_frame_enc [of "\<lparr>msg_id = 1, payload_len = 0\<rparr>" "[]"] by simp
  then have "split_frames (?f @ []) = ([?f], [])"
    using split_frame [of ?f "[]"] by (simp add: split_incomplete)
  from tcp_server_short_message [OF demo_server_receives [of False "Some 3"] _ this,
      where s = demo_session and en = demo_env and b' = "(NET_BENCH_TCP_BUF_SIZE, ?f)"]
  show ?thesis
    by (simp add: demo_server_def demo_session_def list_bb_limit_def list_bb_ok_def)
qed

end
