(* ===== verification/TcpServerClients.thy ===== *)
theory TcpServerClients
  imports TcpServer
begin

text \<open>
  The TCP server with any number of clients whose events come in any order. Each client has its own
  session and its own stream; all of them share the upstream connection.
\<close>

section \<open>Serving several clients\<close>

text \<open>
  \<open>net c\<close> is what the reads of client \<open>c\<close> will give; an event of \<open>c\<close> makes some of them. An
  empty element is a read that gives nothing, so every spreading of the bytes over the events is
  an instance.
\<close>

type_synonym 'b served = "(ctx \<Rightarrow> bytes list) \<times> 'b tcp_server"

definition serve_event :: "env \<Rightarrow> 'b bytes_buffer \<Rightarrow> ctx \<Rightarrow> 'b served \<Rightarrow> 'b served option option" where
  "serve_event en ops c = (\<lambda>(net, st).
     map_option (map_option (\<lambda>(rest, st'). (net(c := rest), st')))
       (tcp_server_on_message en ops c (net c) st))"

fun serve :: "env \<Rightarrow> 'b bytes_buffer \<Rightarrow> ctx list \<Rightarrow> 'b served \<Rightarrow> 'b served option option" where
  "serve en ops [] ns = Some (Some ns)"
| "serve en ops (c # cs) ns =
     (case serve_event en ops c ns of
        Some (Some ns') \<Rightarrow> serve en ops cs ns'
      | r \<Rightarrow> r)"

definition served_ok ::
  "'b bytes_buffer \<Rightarrow> ('b \<Rightarrow> bool) \<Rightarrow> ('b \<Rightarrow> bytes) \<Rightarrow> tcp_server_evloop_data_t \<Rightarrow> ctx \<Rightarrow> 'b served \<Rightarrow> bool" where
  "served_ok ops ok data d c = (\<lambda>(net, st). server_receives ops ok data c d st \<and> reads_ok (net c) \<and>
     (\<forall>k. wf_stream (server_pend data c st @ concat (take k (net c)))))"

text \<open>The messages of a log of forwarded messages that came from client \<open>c\<close>.\<close>

definition of_client :: "ctx \<Rightarrow> (ctx \<times> bytes) list \<Rightarrow> bytes list" where
  "of_client c log = map snd (filter (\<lambda>(c', _). c' = c) log)"

lemma of_client_simps [simp]:
  "of_client c [] = []" "of_client c (xs @ ys) = of_client c xs @ of_client c ys"
  "of_client c (map (Pair c') fs) = (if c' = c then fs else [])"
  by (simp_all add: of_client_def filter_map o_def)

text \<open>An event of one client leaves the sessions of the others alone.\<close>

lemma on_message_other:
  assumes "tcp_server_on_message en ops c rds st = Some (Some (rest, st'))" and "c' \<noteq> c"
  shows "ss_sess st' c' = ss_sess st c'"
  using assms by (auto simp: tcp_server_on_message_def split: option.splits)

lemma serve_event_frames:
  assumes ok: "served_ok ops ok data d c ns" and u: "sv_conn_ctx d = Some u"
  shows "\<exists>us ns'. serve_event en ops c ns = Some (Some ns') \<and> served_ok ops ok data d c ns' \<and>
    concat (fst ns c) = us @ concat (fst ns' c) \<and>
    server_pend data c (snd ns') = snd (split_frames (server_pend data c (snd ns) @ us)) \<and>
    written_to u (trace (ss_world (snd ns'))) = written_to u (trace (ss_world (snd ns))) @
      fst (split_frames (server_pend data c (snd ns) @ us))"
proof -
  obtain net st where ns: "ns = (net, st)" by (cases ns)
  have st: "server_receives ops ok data c d st" "reads_ok (net c)"
    "\<And>k. wf_stream (server_pend data c st @ concat (take k (net c)))"
    using ok by (simp_all add: served_ok_def ns)
  obtain us rest st' where r: "tcp_server_on_message en ops c (net c) st = Some (Some (rest, st'))"
    "server_receives ops ok data c d st'"
    "server_pend data c st' = snd (split_frames (server_pend data c st @ concat us))"
    "written_to u (trace (ss_world st')) = written_to u (trace (ss_world st)) @
      fst (split_frames (server_pend data c st @ concat us))"
    "net c = us @ rest \<or> net c = us @ [] # rest"
    using server_fwd.step_frames [OF st, of en u] u unfolding concat_if by auto
  have "wf_stream (server_pend data c st' @ concat (take k rest))" for k
    unfolding r(3) by (rule server_fwd.wf_rest) (rule server_fwd.wf_take [OF r(5) st(3)])
  moreover have "reads_ok rest" using st(2) r(5) by (auto simp: reads_ok_def)
  ultimately show ?thesis
    using r by (intro exI [of _ "concat us"] exI [of _ "(net(c := rest), st')"])
      (auto simp: serve_event_def served_ok_def ns)
qed

lemma serve_event_other:
  assumes "serve_event en ops c ns = Some (Some ns')" and "c' \<noteq> c"
    and "served_ok ops ok data d c ns'"
  shows "fst ns' c' = fst ns c'" and "server_pend data c' (snd ns') = server_pend data c' (snd ns)"
    and "served_ok ops ok data d c' ns \<Longrightarrow> served_ok ops ok data d c' ns'"
proof -
  obtain net st where ns: "ns = (net, st)" by (cases ns)
  obtain rest st' where r: "tcp_server_on_message en ops c (net c) st = Some (Some (rest, st'))"
    "ns' = (net(c := rest), st')"
    using assms(1) by (auto simp: serve_event_def ns)
  have s: "ss_sess st' c' = ss_sess st c'" using on_message_other [OF r(1) assms(2)] .
  then show "fst ns' c' = fst ns c'" "server_pend data c' (snd ns') = server_pend data c' (snd ns)"
    using assms(2) by (simp_all add: ns r(2) server_pend_def)
  show "served_ok ops ok data d c' ns \<Longrightarrow> served_ok ops ok data d c' ns'"
    using assms(2,3) s by (auto simp: served_ok_def ns r(2) server_receives_def server_pend_def)
qed

text \<open>What happened to the stream of client \<open>c\<close>: some bytes were read, and the messages that
  they complete are \<open>fs\<close>.\<close>

definition stream_step :: "('b \<Rightarrow> bytes) \<Rightarrow> ctx \<Rightarrow> 'b served \<Rightarrow> 'b served \<Rightarrow> bytes list \<Rightarrow> bool" where
  "stream_step data c ns ns' fs \<longleftrightarrow> (\<exists>us. concat (fst ns c) = us @ concat (fst ns' c) \<and>
     server_pend data c (snd ns') = snd (split_frames (server_pend data c (snd ns) @ us)) \<and>
     fs = fst (split_frames (server_pend data c (snd ns) @ us)))"

lemma served_ok_incomplete: "served_ok ops ok data d c ns \<Longrightarrow> incomplete (server_pend data c (snd ns))"
  by (auto simp: served_ok_def server_receives_def server_pend_def)

lemma stream_step_refl:
  assumes "incomplete (server_pend data c (snd ns))"
    and "fst ns' c = fst ns c" and "server_pend data c (snd ns') = server_pend data c (snd ns)"
  shows "stream_step data c ns ns' []"
  unfolding stream_step_def by (rule exI [of _ "[]"]) (simp add: assms split_incomplete)

lemma stream_step_trans:
  assumes "stream_step data c ns ns1 fs1" and "stream_step data c ns1 ns' fs2"
  shows "stream_step data c ns ns' (fs1 @ fs2)"
proof -
  obtain us1 where us1: "concat (fst ns c) = us1 @ concat (fst ns1 c)"
    "server_pend data c (snd ns1) = snd (split_frames (server_pend data c (snd ns) @ us1))"
    "fs1 = fst (split_frames (server_pend data c (snd ns) @ us1))"
    using assms(1) by (auto simp: stream_step_def)
  obtain us where us: "concat (fst ns1 c) = us @ concat (fst ns' c)"
    "server_pend data c (snd ns') = snd (split_frames (server_pend data c (snd ns1) @ us))"
    "fs2 = fst (split_frames (server_pend data c (snd ns1) @ us))"
    using assms(2) by (auto simp: stream_step_def)
  have "split_frames (server_pend data c (snd ns) @ us1 @ us) =
      (fs1 @ fs2, snd (split_frames (server_pend data c (snd ns1) @ us)))"
    using frames.split_append [of "server_pend data c (snd ns) @ us1" us] by (simp add: us1(2,3) us(3))
  with us1(1) us(1,2) show ?thesis unfolding stream_step_def by (intro exI [of _ "us1 @ us"]) simp
qed

lemma serve_frames:
  assumes u: "sv_conn_ctx d = Some u"
  shows "\<forall>c \<in> C. served_ok ops ok data d c ns \<Longrightarrow> set cs \<subseteq> C \<Longrightarrow>
    \<exists>ns' log. serve en ops cs ns = Some (Some ns') \<and>
      written_to u (trace (ss_world (snd ns'))) = written_to u (trace (ss_world (snd ns))) @ map snd log \<and>
      fst ` set log \<subseteq> set cs \<and> (\<forall>c \<in> C. stream_step data c ns ns' (of_client c log))"
proof (induction cs arbitrary: ns)
  case Nil
  then have "stream_step data c ns ns []" if "c \<in> C" for c
    using that served_ok_incomplete [of ops ok data d c ns] by (intro stream_step_refl) simp_all
  then show ?case by (intro exI [of _ ns] exI [of _ "[]"]) simp
next
  case (Cons c cs)
  have c: "c \<in> C" "set cs \<subseteq> C" using Cons.prems(2) by simp_all
  obtain fs ns1 where e: "serve_event en ops c ns = Some (Some ns1)" "served_ok ops ok data d c ns1"
    "stream_step data c ns ns1 fs"
    "written_to u (trace (ss_world (snd ns1))) = written_to u (trace (ss_world (snd ns))) @ fs"
    using serve_event_frames [OF bspec [OF Cons.prems(1) c(1)] u] unfolding stream_step_def by blast
  note oth = serve_event_other [OF e(1) _ e(2)]
  have ok1: "\<forall>c' \<in> C. served_ok ops ok data d c' ns1"
    using oth(3) e(2) Cons.prems(1) by metis
  obtain ns' log where IH: "serve en ops cs ns1 = Some (Some ns')"
    "written_to u (trace (ss_world (snd ns'))) = written_to u (trace (ss_world (snd ns1))) @ map snd log"
    "fst ` set log \<subseteq> set cs" "\<forall>c \<in> C. stream_step data c ns1 ns' (of_client c log)"
    using Cons.IH [OF ok1 c(2)] by (elim exE conjE) (rule that)
  let ?log = "map (Pair c) fs @ log"
  have "stream_step data c' ns ns' (of_client c' ?log)" if c': "c' \<in> C" for c'
  proof (cases "c' = c")
    case True
    with stream_step_trans [OF e(3)] IH(4) c' show ?thesis by simp
  next
    case False
    have "stream_step data c' ns ns1 []"
      using served_ok_incomplete [of ops ok data d c' ns] Cons.prems(1) c' oth(1,2) [OF False]
      by (intro stream_step_refl) simp_all
    moreover have "stream_step data c' ns1 ns' (of_client c' log)" using IH(4) c' by blast
    ultimately have "stream_step data c' ns ns' ([] @ of_client c' log)" by (rule stream_step_trans)
    with False show ?thesis by simp
  qed
  with e(1,4) IH(1-3) show ?case
    by (intro exI [of _ ns'] exI [of _ ?log]) (auto simp: comp_def)
qed

text \<open>A log made of prefixes of the clients' streams.\<close>

lemma log_from_streams:
  assumes "\<forall>c \<in> C. \<exists>k. of_client c log = take k (fs c)" and "fst ` set log \<subseteq> C" and "(c, m) \<in> set log"
  shows "c \<in> C \<and> m \<in> set (fs c)"
proof -
  have c: "c \<in> C" using assms(2,3) by force
  have "m \<in> set (of_client c log)" using assms(3) by (force simp: of_client_def)
  with assms(1) c show ?thesis using in_set_takeD by metis
qed

lemma of_client_prefix: "prefix (of_client c (take i log)) (of_client c log)"
proof -
  have "of_client c log = of_client c (take i log) @ of_client c (drop i log)"
    by (simp flip: of_client_simps(2))
  then show ?thesis by (simp add: prefix_def)
qed

lemma serve_messages:
  assumes "sv_conn_ctx d = Some u" and "set cs \<subseteq> C"
    and "\<And>c. c \<in> C \<Longrightarrow> server_receives ops ok data c d st \<and> server_pend data c st = [] \<and> reads_ok (net c)"
    and "\<And>c f. c \<in> C \<Longrightarrow> f \<in> set (fs c) \<Longrightarrow> valid_frame f"
    and "\<And>c. c \<in> C \<Longrightarrow> concat (fs c) = concat (net c) @ e c"
  shows "\<exists>net' st' log. serve en ops cs (net, st) = Some (Some (net', st')) \<and>
    written_to u (trace (ss_world st')) = written_to u (trace (ss_world st)) @ map snd log \<and>
    fst ` set log \<subseteq> set cs \<and>
    (\<forall>c \<in> C. \<exists>k. of_client c log = take k (fs c) \<and> incomplete (server_pend data c st') \<and>
      concat (take k (fs c)) @ server_pend data c st' @ concat (net' c) @ e c = concat (fs c))"
proof -
  have "\<forall>c \<in> C. served_ok ops ok data d c (net, st)"
  proof
    fix c assume c: "c \<in> C"
    have "wf_stream (concat (take k (net c)))" for k
    proof (rule wf_stream_prefix [OF assms(4) [OF c]])
      show "concat (fs c) = concat (take k (net c)) @ concat (drop k (net c)) @ e c"
        using assms(5) [OF c] by (metis append.assoc append_take_drop_id concat_append)
    qed
    with assms(3) [OF c] show "served_ok ops ok data d c (net, st)" by (simp add: served_ok_def)
  qed
  then obtain ns' log where r: "serve en ops cs (net, st) = Some (Some ns')"
    "written_to u (trace (ss_world (snd ns'))) = written_to u (trace (ss_world st)) @ map snd log"
    "fst ` set log \<subseteq> set cs"
    "\<And>c. c \<in> C \<Longrightarrow> \<exists>us. concat (net c) = us @ concat (fst ns' c) \<and>
        server_pend data c (snd ns') = snd (split_frames (server_pend data c st @ us)) \<and>
        of_client c log = fst (split_frames (server_pend data c st @ us))"
    using serve_frames [OF assms(1) _ assms(2), of ops ok data "(net, st)" en] unfolding stream_step_def by auto
  have "\<exists>k. of_client c log = take k (fs c) \<and> incomplete (server_pend data c (snd ns')) \<and>
      concat (take k (fs c)) @ server_pend data c (snd ns') @ concat (fst ns' c) @ e c = concat (fs c)"
    if c: "c \<in> C" for c
  proof -
    obtain us where us: "concat (net c) = us @ concat (fst ns' c)"
      "server_pend data c (snd ns') = snd (split_frames us)" "of_client c log = fst (split_frames us)"
      using r(4) [OF c] assms(3) [OF c] by auto
    obtain k where k: "fst (split_frames us) = take k (fs c)"
      using split_frames_prefix [of "fs c" us "concat (fst ns' c) @ e c"] assms(4,5) [OF c] us(1) by auto
    have "concat (take k (fs c)) @ server_pend data c (snd ns') = us"
      using frames.split_concat [of us] us(2) k by simp
    with us k assms(5) [OF c] split_rest_incomplete [of us] show ?thesis by (metis append.assoc)
  qed
  with r(1-3) show ?thesis
    by (intro exI [of _ "fst ns'"] exI [of _ "snd ns'"] exI [of _ log]) simp
qed

section \<open>Properties\<close>

text \<open>C6: With any number of clients and their events in any order, what the server writes to the upstream is an
  interleaving of whole messages: those of each client are exactly its complete messages so far, in
  its order, and no message comes from nowhere. For every client, forwarded messages, buffered
  bytes, which are less than one message, and bytes not read yet make up its stream.\<close>

theorem tcp_server_merges_clients:
  assumes "sv_conn_ctx d = Some u" and "set cs \<subseteq> C"
    and "\<And>c. c \<in> C \<Longrightarrow> server_receives ops ok data c d st \<and> server_pend data c st = [] \<and> reads_ok (net c)"
    and "\<And>c f. c \<in> C \<Longrightarrow> f \<in> set (fs c) \<Longrightarrow> valid_frame f"
    and "\<And>c. c \<in> C \<Longrightarrow> concat (fs c) = concat (net c) @ e c"
  shows "\<exists>net' st' log. serve en ops cs (net, st) = Some (Some (net', st')) \<and>
    written_to u (trace (ss_world st')) = written_to u (trace (ss_world st)) @ map snd log \<and>
    fst ` set log \<subseteq> set cs \<and>
    (\<forall>c \<in> C. \<exists>k. of_client c log = take k (fs c) \<and> incomplete (server_pend data c st') \<and>
      concat (take k (fs c)) @ server_pend data c st' @ concat (net' c) @ e c = concat (fs c))"
  by (rule serve_messages [OF assms(1,2)]) (erule assms(3), erule (1) assms(4), erule assms(5))

definition demo_two_clients :: "(nat \<times> bytes) tcp_server" where
  "demo_two_clients = (demo_server (Some 3))\<lparr>ss_sess := [4 \<mapsto> demo_session, 5 \<mapsto> demo_session]\<rparr>"

lemma demo_two_clients_receives:
  "c \<in> {4, 5} \<Longrightarrow> server_receives (list_bb True) list_bb_ok snd c
     \<lparr>sv_listen_ctx = Some 1, sv_conn_ctx = Some 3\<rparr> demo_two_clients \<and> server_pend snd c demo_two_clients = []"
  by (auto simp: demo_two_clients_def demo_server_def server_receives_def server_pend_def
      client_session_def demo_session_def list_bb_contract list_bb_ok_def)

definition demo_net :: "ctx \<Rightarrow> bytes list" where
  "demo_net c = (if c = 5 then [msg_head demo_args 9] else demo_reads)"

definition demo_sent :: "ctx \<Rightarrow> bytes list" where
  "demo_sent c = (if c = 5 then [msg_head demo_args 9] else demo_msgs)"

theorem tcp_server_merges_clients_witness:
  "\<exists>net' st' log. serve demo_env (list_bb True) [4, 5, 4] (demo_net, demo_two_clients) = Some (Some (net', st')) \<and>
    written_to 3 (trace (ss_world st')) = map snd log \<and>
    (\<exists>k. of_client 4 log = take k demo_msgs) \<and> (\<exists>k. of_client 5 log = take k [msg_head demo_args 9])"
proof -
  have w: "ss_world demo_two_clients = world0"
    by (simp add: demo_two_clients_def)
  have s: "server_receives (list_bb True) list_bb_ok snd c \<lparr>sv_listen_ctx = Some 1, sv_conn_ctx = Some 3\<rparr>
      demo_two_clients \<and> server_pend snd c demo_two_clients = [] \<and> reads_ok (demo_net c)"
    if "c \<in> {4, 5}" for c
    using that demo_two_clients_receives by (auto simp: demo_net_def reads_ok_def demo_reads_def)
  have v: "valid_frame f" if "c \<in> {4, 5}" "f \<in> set (demo_sent c)" for c f
    using that demo_msgs_valid by (auto simp: demo_sent_def split: if_splits)
  have e: "concat (demo_sent c) = concat (demo_net c) @ []" if "c \<in> {4, 5}" for c
    using that by (auto simp: demo_sent_def demo_net_def)
  have cs: "set [4, 5, 4 :: nat] \<subseteq> {4, 5}" by simp
  have u: "sv_conn_ctx \<lparr>sv_listen_ctx = Some 1, sv_conn_ctx = Some 3\<rparr> = Some (3 :: ctx)" by simp
  have "\<exists>net' st' log. serve demo_env (list_bb True) [4, 5, 4] (demo_net, demo_two_clients) = Some (Some (net', st')) \<and>
    written_to 3 (trace (ss_world st')) = written_to 3 (trace (ss_world demo_two_clients)) @ map snd log \<and>
    fst ` set log \<subseteq> set [4, 5, 4] \<and>
    (\<forall>c \<in> {4, 5}. \<exists>k. of_client c log = take k (demo_sent c) \<and> incomplete (server_pend snd c st') \<and>
      concat (take k (demo_sent c)) @ server_pend snd c st' @ concat (net' c) @ [] = concat (demo_sent c))"
  proof (rule tcp_server_merges_clients [OF u cs])
    fix c :: ctx assume c: "c \<in> {4, 5}"
    show "server_receives (list_bb True) list_bb_ok snd c \<lparr>sv_listen_ctx = Some 1, sv_conn_ctx = Some 3\<rparr>
      demo_two_clients \<and> server_pend snd c demo_two_clients = [] \<and> reads_ok (demo_net c)" by (rule s [OF c])
    show "concat (demo_sent c) = concat (demo_net c) @ []" by (rule e [OF c])
    fix f assume "f \<in> set (demo_sent c)"
    then show "valid_frame f" by (rule v [OF c])
  qed
  then obtain net' st' log where r: "serve demo_env (list_bb True) [4, 5, 4] (demo_net, demo_two_clients) = Some (Some (net', st'))"
    "written_to 3 (trace (ss_world st')) = written_to 3 (trace (ss_world demo_two_clients)) @ map snd log"
    "\<forall>c \<in> {4, 5}. \<exists>k. of_client c log = take k (demo_sent c) \<and> incomplete (server_pend snd c st') \<and>
      concat (take k (demo_sent c)) @ server_pend snd c st' @ concat (net' c) @ [] = concat (demo_sent c)"
    by blast
  have "\<exists>k. of_client 4 log = take k demo_msgs" "\<exists>k. of_client 5 log = take k [msg_head demo_args 9]"
    using r(3) by (auto simp: demo_sent_def)
  with r(1,2) w show ?thesis by (metis append_Nil world0_simps(1) written_to.simps(1))
qed

end
