(* ===== verification/TcpUpstream.thy ===== *)
theory TcpUpstream
  imports TcpServer
begin

text \<open>
  The TCP upstream (\<open>app/tcp_upstream\<close>): it accepts connections and records every message.
  It has no data of its own beside the sessions.
\<close>

section \<open>State and callbacks\<close>

record 'b tcp_upstream =
  us_sess :: "ctx \<Rightarrow> 'b nb_tcp_session_t option"
  us_world :: world

definition tcp_upstream_on_connect ::
  "'b bytes_buffer \<Rightarrow> int \<Rightarrow> bool \<Rightarrow> u32 \<Rightarrow> ctx \<Rightarrow> 'b tcp_upstream \<Rightarrow> 'b tcp_upstream" where
  "tcp_upstream_on_connect ops nodelay_ret huge_ok junk c st =
     (let w = emits [Log L_INFO ''session connect: remote_addr=%s'',
                     Call ''muggle_setsockopt'' [ANat c]] (us_world st)
      in if nodelay_ret \<noteq> 0
         then st\<lparr>us_world := emits [Log L_ERROR ''failed set TCP NODELAY'', SockShutdown c] w\<rparr>
         else
           let (s, w) = nb_tcp_session_new ops Fn_tcp_upstream_handle_message huge_ok junk w
           in st\<lparr>us_sess := (us_sess st)(c \<mapsto> s), us_world := w\<rparr>)"

definition tcp_upstream_on_close :: "ctx \<Rightarrow> 'b tcp_upstream \<Rightarrow> 'b tcp_upstream" where
  "tcp_upstream_on_close c st =
     st\<lparr>us_world := emit (Log L_WARNING ''session close: remote_addr=%s'') (us_world st)\<rparr>"

definition tcp_upstream_on_release :: "ctx \<Rightarrow> 'b tcp_upstream \<Rightarrow> 'b tcp_upstream" where
  "tcp_upstream_on_release c st =
     (let w = emit (Log L_WARNING ''session release: remote_addr=%s'') (us_world st)
      in case us_sess st c of
           None \<Rightarrow> st\<lparr>us_world := w\<rparr>
         | Some s \<Rightarrow> st\<lparr>us_sess := (us_sess st)(c := None), us_world := nb_tcp_session_delete s w\<rparr>)"

definition tcp_upstream_handle_message :: "env \<Rightarrow> msg_callback" where
  "tcp_upstream_handle_message en w mem datalen =
     (let w = nb_assert (msg_id (dec_hdr mem) = 1) ''hdr->msg_id == 1'' w;
          msz = 8 + datalen
      in if length mem < sizeof_hdr + sizeof_data then None
         else
           let m = dec_data (drop sizeof_hdr mem)
           in Some (netbench_record en (msg_user_id m) (msg_sequence m) msz ''upstream.rcv'' w))"

text \<open>The program has no other function a session's callback could be.\<close>

definition tcp_upstream_call :: "env \<Rightarrow> fn_nb_msg_callback \<Rightarrow> msg_callback" where
  "tcp_upstream_call en fn =
     (case fn of Fn_tcp_upstream_handle_message \<Rightarrow> tcp_upstream_handle_message en | _ \<Rightarrow> (\<lambda>_ _ _. None))"

lemma tcp_upstream_call_simps [simp]:
  "tcp_upstream_call en Fn_tcp_upstream_handle_message = tcp_upstream_handle_message en"
  by (simp add: tcp_upstream_call_def)

definition tcp_upstream_on_message ::
  "env \<Rightarrow> 'b bytes_buffer \<Rightarrow> ctx \<Rightarrow> bytes list \<Rightarrow> 'b tcp_upstream \<Rightarrow>
   (bytes list \<times> 'b tcp_upstream) option option" where
  "tcp_upstream_on_message en ops c rds st =
     (case us_sess st c of
        None \<Rightarrow> Some (Some (rds, st))
      | Some s \<Rightarrow>
          map_option (map_option (\<lambda>(rest, s', w).
              (rest, st\<lparr>us_sess := (us_sess st)(c \<mapsto> s'), us_world := w\<rparr>)))
            (nb_tcp_session_on_msg ops (tcp_upstream_call en) c rds s (us_world st)))"

section \<open>run and main\<close>

definition tcp_upstream_run ::
  "env \<Rightarrow> bool \<Rightarrow> (world \<Rightarrow> run_result) \<Rightarrow> nb_sys_args_t \<Rightarrow> world \<Rightarrow> run_result" where
  "tcp_upstream_run en ev_ok evloop a w =
     (if cstr (serv_host a) = '''' \<or> cstr (serv_port a) = ''''
      then Ran (emit (Log L_ERROR ''server run without server host/port'') w)
      else with_evloop ev_ok [''conn'', ''close'', ''release'', ''msg''] (-1) a
        (\<lambda>w. add_opened (nb_tcp_listen en a w) (evloop_run_and_delete evloop [])) w)"

definition tcp_upstream_main ::
  "env \<Rightarrow> bool \<Rightarrow> (world \<Rightarrow> run_result) \<Rightarrow> init_result \<times> world \<Rightarrow> run_result" where
  "tcp_upstream_main en ev_ok evloop = app_main (tcp_upstream_run en ev_ok evloop)"

section \<open>What it does with a message\<close>

definition upstream_world :: "env \<Rightarrow> bytes \<Rightarrow> world \<Rightarrow> world" where
  "upstream_world en f w =
     (let m = dec_data (drop 8 f)
      in netbench_record en (msg_user_id m) (msg_sequence m) (8 + payload_len (dec_hdr f)) ''upstream.rcv''
           (nb_assert (msg_id (dec_hdr f) = 1) ''hdr->msg_id == 1'' w))"

lemma upstream_frame_cb:
  assumes f: "16 \<le> length f"
  shows "frame_cb (tcp_upstream_handle_message en) (upstream_world en) f"
  unfolding frame_cb_def
proof (intro allI impI)
  fix w and mem :: bytes
  assume mem: "length f \<le> length mem \<and> take (length f) mem = f"
  then obtain r where m: "mem = f @ r" by (metis append_take_drop_id)
  have hd: "dec_hdr mem = dec_hdr f" using f by (simp add: m dec_hdr_append)
  have d2: "dec_data (drop 8 mem) = dec_data (drop 8 f)" using f by (simp add: m dec_data_def un32_append)
  have "\<not> length mem < 16" using f mem by simp
  then show "tcp_upstream_handle_message en w mem (payload_len (dec_hdr f)) = Some (upstream_world en f w)"
    unfolding tcp_upstream_handle_message_def upstream_world_def Let_def hd d2 by simp
qed

lemma upstream_fold:
  "map rec_key (committed (trace (fold (deliver (upstream_world en)) ms w))) =
     map rec_key (committed (trace w)) @ map (\<lambda>f. frame_key f ''upstream.rcv'') (map snd ms)"
  by (induction ms arbitrary: w)
     (auto simp: upstream_world_def Let_def rec_key_def rec_at_def frame_key_def deliver_def)

lemma upstream_asserts:
  "(\<And>f. f \<in> set (map snd ms) \<Longrightarrow> msg_id (dec_hdr f) = 1) \<Longrightarrow>
   asserts_ok (trace (fold (deliver (upstream_world en)) ms w)) = asserts_ok (trace w)"
  by (induction ms arbitrary: w) (auto simp: upstream_world_def Let_def deliver_def split: if_splits)

definition upstream_receives ::
  "'b bytes_buffer \<Rightarrow> ('b \<Rightarrow> bool) \<Rightarrow> ('b \<Rightarrow> bytes) \<Rightarrow> ctx \<Rightarrow> 'b tcp_upstream \<Rightarrow> bool" where
  "upstream_receives ops ok data c st \<longleftrightarrow>
     (\<exists>s. us_sess st c = Some s \<and> bytes_buffer_ok ops ok data \<and> ok (bytes_buf s) \<and>
        msg_len_limit s = 0 \<and> session_cb s = Fn_tcp_upstream_handle_message \<and> incomplete (data (bytes_buf s)))"

definition upstream_pend :: "('b \<Rightarrow> bytes) \<Rightarrow> ctx \<Rightarrow> 'b tcp_upstream \<Rightarrow> bytes" where
  "upstream_pend data c st = (case us_sess st c of None \<Rightarrow> [] | Some s \<Rightarrow> data (bytes_buf s))"

lemma upstream_on_message_frames:
  assumes st: "upstream_receives ops ok data c st" and rds: "reads_ok rds"
    and wf: "\<And>k. wf_stream (upstream_pend data c st @ concat (take k rds))"
  shows "\<exists>us rest st' w0 ms. tcp_upstream_on_message en ops c rds st = Some (Some (rest, st')) \<and>
    upstream_receives ops ok data c st' \<and>
    upstream_pend data c st' = snd (split_frames (upstream_pend data c st @ concat us)) \<and>
    us_world st' = fold (deliver (upstream_world en)) ms w0 \<and>
    map snd ms = fst (split_frames (upstream_pend data c st @ concat us)) \<and>
    (w0 = us_world st \<or> w0 = emit (Log L_ERROR ''bytes buffer full'') (us_world st)) \<and>
    (rds = us @ rest \<or> rds = us @ [] # rest)"
proof -
  obtain s where s: "us_sess st c = Some s" "bytes_buffer_ok ops ok data" "ok (bytes_buf s)"
    "msg_len_limit s = 0" "session_cb s = Fn_tcp_upstream_handle_message"
    using st by (auto simp: upstream_receives_def)
  have p: "upstream_pend data c st = data (bytes_buf s)" by (simp add: upstream_pend_def s(1))
  have rl: "\<And>bs. bs \<in> set rds \<Longrightarrow> length bs \<le> NET_BENCH_TCP_RECV_UNIT_SIZE"
    using rds by (simp add: reads_ok_def)
  have cb: "\<And>f. is_frame f \<Longrightarrow> 16 \<le> length f \<Longrightarrow> length f < 2147483648 \<Longrightarrow>
      frame_cb (tcp_upstream_call en (session_cb s)) (upstream_world en) f"
    unfolding s(5) tcp_upstream_call_simps by (rule upstream_frame_cb)
  obtain us rest b' w0 ms where r: "nb_tcp_session_on_msg ops (tcp_upstream_call en) c rds s
      (us_world st) = Some (Some (rest, s\<lparr>bytes_buf := b'\<rparr>, fold (deliver (upstream_world en)) ms w0))"
    "map snd ms = fst (split_frames (data (bytes_buf s) @ concat us))"
    "ok b'" "data b' = snd (split_frames (data (bytes_buf s) @ concat us))"
    "rds = us @ rest \<or> rds = us @ [] # rest"
    "w0 = us_world st \<or> w0 = emit (Log L_ERROR ''bytes buffer full'') (us_world st)"
    using on_msg_frames [where call = "tcp_upstream_call en" and s = s, OF s(2-4) rl wf [unfolded p] cb, of c "us_world st"] by blast
  show ?thesis
    using r s p split_rest_incomplete [of "data (bytes_buf s) @ concat us"]
    by (intro exI [of _ us] exI [of _ rest] exI [of _ "st\<lparr>us_sess := (us_sess st)(c \<mapsto> s\<lparr>bytes_buf := b'\<rparr>),
          us_world := fold (deliver (upstream_world en)) ms w0\<rparr>"] exI [of _ w0] exI [of _ ms])
       (simp add: tcp_upstream_on_message_def upstream_receives_def upstream_pend_def)
qed

interpretation upstream_log: receiver "tcp_upstream_on_message en ops c" "upstream_receives ops ok data c"
  "upstream_pend data c" "\<lambda>st. map rec_key (committed (trace (us_world st)))"
  "\<lambda>f. [frame_key f ''upstream.rcv'']" for en ops c ok data
proof unfold_locales
  fix st :: "'a tcp_upstream" and rds
  assume st: "upstream_receives ops ok data c st"
  then show "incomplete (upstream_pend data c st)" by (auto simp: upstream_receives_def upstream_pend_def)
  assume rds: "reads_ok rds" "\<And>k. wf_stream (upstream_pend data c st @ concat (take k rds))"
  show "\<exists>us rest st'. tcp_upstream_on_message en ops c rds st = Some (Some (rest, st')) \<and>
      upstream_receives ops ok data c st' \<and>
      upstream_pend data c st' = snd (split_frames (upstream_pend data c st @ concat us)) \<and>
      map rec_key (committed (trace (us_world st'))) = map rec_key (committed (trace (us_world st))) @
        concat (map (\<lambda>f. [frame_key f ''upstream.rcv''])
          (fst (split_frames (upstream_pend data c st @ concat us)))) \<and>
      (rds = us @ rest \<or> rds = us @ [] # rest)"
    using upstream_on_message_frames [OF st rds, of en]
    by (elim exE conjE disjE) (force simp: upstream_fold)+
qed

section \<open>Properties\<close>

text \<open>C16: However the stream of a connection is cut, the upstream commits one receive record for each
  complete message, in order, with the user id, sequence number and size of the message; what stays in
  its buffer is less than one message.\<close>

theorem tcp_upstream_records:
  assumes "upstream_receives ops ok data c st" and "upstream_pend data c st = []" and "reads_ok rds"
    and "\<And>f. f \<in> set fs \<Longrightarrow> valid_frame f" and "concat fs = concat rds @ e"
  shows "\<exists>k rest st'. drain (tcp_upstream_on_message en ops c) n rds st = Some (Some (rest, st')) \<and>
    map rec_key (committed (trace (us_world st'))) = map rec_key (committed (trace (us_world st))) @
      map (\<lambda>f. frame_key f ''upstream.rcv'') (take k fs) \<and>
    incomplete (upstream_pend data c st') \<and>
    concat (take k fs) @ upstream_pend data c st' @ concat rest @ e = concat fs \<and>
    (concat rest = [] \<and> e = [] \<longrightarrow> take k fs = fs)"
  using upstream_log.drain_messages [OF assms(1,3,2,4,5), where en = en and n = n]
    upstream_log.good_pend unfolding concat_map_singleton by blast

definition demo_upstream :: "(nat \<times> bytes) tcp_upstream" where
  "demo_upstream = \<lparr>us_sess = [4 \<mapsto> demo_session\<lparr>session_cb := Fn_tcp_upstream_handle_message\<rparr>], us_world = world0\<rparr>"

lemma demo_upstream_simps [simp]:
  "upstream_receives (list_bb t) list_bb_ok snd 4 demo_upstream" "upstream_pend snd 4 demo_upstream = []"
  "us_world demo_upstream = world0"
  by (simp_all add: upstream_receives_def upstream_pend_def demo_upstream_def demo_session_def
      list_bb_contract list_bb_ok_def)

theorem tcp_upstream_records_witness:
  "\<exists>k rest st'. drain (tcp_upstream_on_message demo_env (list_bb False) 4) 2 demo_reads
      demo_upstream = Some (Some (rest, st')) \<and>
    map rec_key (committed (trace (us_world st'))) =
      map (\<lambda>f. frame_key f ''upstream.rcv'') (take k demo_msgs)"
  using tcp_upstream_records [where en = demo_env and n = 2 and e = "[]" and fs = demo_msgs,
      OF demo_upstream_simps(1) [of False] demo_upstream_simps(2) demo_reads_ok demo_msgs_valid]
      demo_upstream_simps(3) by auto

end
