(* ===== verification/ClientMessages.thy ===== *)
theory ClientMessages
  imports TcpUpstream
begin

text \<open>
  The messages of a client's array as the receivers see them: whole frames with the user id,
  sequence number and size of the options.
\<close>

lemma slot_valid_frame:
  assumes "config_ok a" and "datas_ok a mem" and "i < n_msgs a"
  shows "valid_frame (slot a mem i)"
proof -
  have M: "16 \<le> unat (msg_size a)" using assms(1) by (simp add: config_ok_def)
  then have "unat (msg_size a - 8) = unat (msg_size a) - 8" by (simp add: unat_sub_le)
  with M slot_dec [OF assms] unat_u32_lt [of "msg_size a"] show ?thesis
    by (simp add: valid_frame_def is_frame_def frame_len_def)
qed

lemma slot_key:
  assumes "config_ok a" and "datas_ok a mem" and "i < n_msgs a"
  shows "frame_key (slot a mem i) act = (user_id a, word_of_nat i, msg_size a, act)"
  using slot_dec [OF assms] by (simp add: frame_key_def)

text \<open>How many messages a prefix of a stream holds is determined by its bytes.\<close>

lemma take_concat_unique:
  "(\<And>f. f \<in> set fs \<Longrightarrow> f \<noteq> []) \<Longrightarrow> concat (take j fs) = concat (take k fs) \<Longrightarrow> take j fs = take k fs"
proof (induction fs arbitrary: j k)
  case (Cons f fs)
  then show ?case by (cases j; cases k) auto
qed simp

lemma take_map_upt: "take j (map g [0..<n]) = map g [0..<min j n]"
  by (cases "j \<le> n") (simp_all add: take_map min_def)

lemma map_keys:
  assumes "config_ok a" and "datas_ok a mem" and "n \<le> n_msgs a"
  shows "map (\<lambda>f. frame_key f act) (map (slot a mem) [0..<n]) =
     map (\<lambda>q. (user_id a, word_of_nat q, msg_size a, act)) [0..<n]"
  using assms(3) by (simp add: slot_key [OF assms(1,2)])

lemma concat_keys:
  assumes "config_ok a" and "datas_ok a mem" and "n \<le> n_msgs a"
  shows "concat (map (\<lambda>f. [frame_key f x, frame_key f y]) (map (slot a mem) [0..<n])) =
     concat (map (\<lambda>q. [(user_id a, word_of_nat q, msg_size a, x), (user_id a, word_of_nat q, msg_size a, y)]) [0..<n])"
  using assms(3) by (intro arg_cong [where f = concat]) (simp add: slot_key [OF assms(1,2)])

lemma slot_msg_id:
  assumes "config_ok a" and "datas_ok a mem" and "i < n_msgs a"
  shows "is_frame (slot a mem i)" "16 \<le> length (slot a mem i)" "msg_id (dec_hdr (slot a mem i)) = 1"
  using slot_valid_frame [OF assms] slot_dec [OF assms] assms(1)
  by (simp_all add: valid_frame_def config_ok_def)

text \<open>The sequence number a message carries, which tells the messages of a run apart.\<close>

definition seq_of :: "bytes \<Rightarrow> nat" where
  "seq_of f = unat (msg_sequence (dec_data (drop 8 f)))"

lemma seq_of_slot:
  assumes "config_ok a" and "datas_ok a mem" and "i < n_msgs a"
  shows "seq_of (slot a mem i) = i"
proof -
  have "n_msgs a < 4294967296" unfolding n_msgs_def by (rule unat_u32_lt)
  with assms(3) slot_dec(3) [OF assms] show ?thesis by (simp add: seq_of_def unat_of_nat_u32)
qed

lemma slot_of_seq:
  assumes "config_ok a" and "datas_ok a mem" and "n \<le> n_msgs a" and "f \<in> slot a mem ` {0..<n}"
  shows "slot a mem (seq_of f) = f" and "seq_of f < n"
proof -
  obtain i where "i < n" "f = slot a mem i" using assms(4) by auto
  with seq_of_slot [OF assms(1,2), of i] assms(3)
  show "slot a mem (seq_of f) = f" and "seq_of f < n" by simp_all
qed

text \<open>Any messages taken out of a run are determined by their sequence numbers.\<close>

lemma slots_of_seqs:
  assumes "config_ok a" and "datas_ok a mem" and "n \<le> n_msgs a"
    and "set fs \<subseteq> slot a mem ` {0..<n}"
  shows "map (slot a mem) (map seq_of fs) = fs" and "set (map seq_of fs) \<subseteq> {0..<n}"
proof -
  note f = slot_of_seq [OF assms(1-3) subsetD [OF assms(4)]]
  from f(1) show "map (slot a mem) (map seq_of fs) = fs" by (simp add: map_idI)
  from f(2) show "set (map seq_of fs) \<subseteq> {0..<n}" by auto
qed

lemma keys_of_seqs:
  assumes "config_ok a" and "datas_ok a mem" and "n \<le> n_msgs a"
    and "set fs \<subseteq> slot a mem ` {0..<n}"
  shows "concat (map (\<lambda>f. map (frame_key f) acts) fs) =
    concat (map (\<lambda>q. map (\<lambda>act. (user_id a, word_of_nat q, msg_size a, act)) acts) (map seq_of fs))"
proof -
  have "map (frame_key f) acts =
      map (\<lambda>act. (user_id a, word_of_nat (seq_of f), msg_size a, act)) acts" if "f \<in> set fs" for f
  proof -
    note s = slot_of_seq [OF assms(1-3) subsetD [OF assms(4) that]]
    have "seq_of f < n_msgs a" using s(2) assms(3) by simp
    from slot_key [OF assms(1,2) this] s(1) show ?thesis by simp
  qed
  then have "map (\<lambda>f. map (frame_key f) acts) fs =
      map (\<lambda>f. map (\<lambda>act. (user_id a, word_of_nat (seq_of f), msg_size a, act)) acts) fs"
    by (rule map_cong [OF refl])
  then show ?thesis by (simp only: map_map comp_def)
qed

end
