(* ===== verification/TcpSystem.thy ===== *)
theory TcpSystem
  imports TcpClientLog TcpServerClients ClientMessages
begin

text \<open>
  Any number of TCP clients, each over its whole life with connections that break and are made
  again, one server and one upstream. A connection of the server carries some of what one client
  has written, cut off anywhere.
\<close>

section \<open>What a client writes\<close>

text \<open>A client that was started before anything was written, and has run for any time.\<close>

definition client_runs ::
  "env \<Rightarrow> nb_sys_args_t \<Rightarrow> 'b bytes_buffer \<Rightarrow> (nat \<Rightarrow> u8) \<Rightarrow> bytes \<Rightarrow> 'b tcp_client \<Rightarrow> bool" where
  "client_runs en a ops fill mem st \<longleftrightarrow> config_ok a \<and> prepare_datas a fill = Some mem \<and>
     (\<exists>t w ls. all_written (trace w) = [] \<and> n_wr w = 0 \<and> EvloopExit \<notin> set (trace w) \<and>
       life (client_add en a ops) tcp_client_on_close (client_event en a ops) client_allowed
         client_conns (client_start t mem w) ls \<and> lf_app ls = st)"

lemma client_runs_logged:
  assumes "client_runs en a ops fill mem st"
  shows "client_logged en a mem st" and "datas_ok a mem" and "config_ok a"
proof -
  from assms obtain t w ls where c: "config_ok a" "prepare_datas a fill = Some mem"
    "all_written (trace w) = []" "n_wr w = 0" "EvloopExit \<notin> set (trace w)"
    "life (client_add en a ops) tcp_client_on_close (client_event en a ops) client_allowed
         client_conns (client_start t mem w) ls" "lf_app ls = st"
    by (auto simp: client_runs_def)
  show "datas_ok a mem" by (rule prepare_datas_datas_ok [OF c(1,2)])
  then have "client_logged en a mem (client_start t mem w)"
    using c(1,3-5)
    by (simp add: client_logged_def client_start_def tcp_client_ok_def client_log_def round_log.start)
  from client_logged_reachable [OF c(6) this] c(7) show "client_logged en a mem st" by simp
  show "config_ok a" by (rule c(1))
qed

lemma client_runs_writes:
  assumes "client_runs en a ops fill mem st" and "m \<in> set (all_written (trace (cs_world st)))"
  shows "m \<in> slot a mem ` {0..<n_msgs a}"
proof -
  note l = client_runs_logged [OF assms(1)]
  have "m \<in> fst ` set (client_log en st)"
    using assms(2) answered_fst [of en 0 "all_written (trace (cs_world st))"]
    unfolding client_log_def by (metis set_map)
  moreover have "round_log (to_int (msg_size a)) (round_slots a mem) (unat (round_num a))
      (unat (tc_round_index (cs_data st))) (client_log en st)"
    using l(1) by (simp add: client_logged_def)
  ultimately obtain q where q: "q < unat (round_num a)" "m \<in> set (round_slots a mem q)"
    using round_log_writes by fastforce
  have "Suc q * unat (num_per_round a) \<le> n_msgs a"
    using q(1) by (simp add: config_n_msgs [OF l(3)] mult.commute [of "unat (num_per_round a)"]
        mult_le_mono1 del: mult_Suc)
  with q(2) show ?thesis by (auto simp: round_slots_def)
qed

text \<open>So every message it has written is a message of its run, which tells its number.\<close>

lemma client_runs_message:
  assumes "client_runs en a ops fill mem st" and "m \<in> set (all_written (trace (cs_world st)))"
  shows "seq_of m < n_msgs a" and "slot a mem (seq_of m) = m" and "valid_frame m"
    and "frame_key m act = (user_id a, word_of_nat (seq_of m), msg_size a, act)"
proof -
  note d = client_runs_logged(2) [OF assms(1)] and a = client_runs_logged(3) [OF assms(1)]
  note m = client_runs_writes [OF assms]
  show q: "seq_of m < n_msgs a" "slot a mem (seq_of m) = m"
    using slot_of_seq [OF a d order_refl m] by simp_all
  show "valid_frame m" using m slot_valid_frame [OF a d] by auto
  show "frame_key m act = (user_id a, word_of_nat (seq_of m), msg_size a, act)"
    using slot_key [OF a d q(1)] q(2) by simp
qed

section \<open>Properties\<close>

text \<open>The TCP system with any number of clients, over connections that break and are made again, with
  failed and repeated writes, and with the events of server and upstream in any order: whatever has
  happened, every message the server has sent on, and every record the upstream has committed, is
  of a message of the configured run of the client it came from, with that client's user
  id, a sequence number of its run and its message size; and of each connection, the messages
  recorded are the first ones the client wrote to it, in order and none left out.\<close>

theorem tcp_system_integrity:
  assumes "\<And>c. c \<in> C \<Longrightarrow> client_runs (enc c) (a c) (opc c) (fill c) (mem c) (cl c)"
    and "\<And>c. c \<in> C \<Longrightarrow> subseq (ws c) (all_written (trace (cs_world (cl c))))"
    and "\<And>c. c \<in> C \<Longrightarrow> concat (ws c) = concat (net c) @ e c"
    and "sv_conn_ctx d = Some u" and "set cs \<subseteq> C"
    and "\<And>c. c \<in> C \<Longrightarrow> server_receives ops ok data c d st \<and> server_pend data c st = [] \<and> reads_ok (net c)"
    and "written_to u (trace (ss_world st)) = []"
    and "upstream_receives ops2 ok2 data2 v us" and "upstream_pend data2 v us = []"
    and "committed (trace (us_world us)) = []" and "reads_ok urds"
    and "\<And>net' st'. serve ens ops cs (net, st) = Some (Some (net', st')) \<Longrightarrow>
      concat (written_to u (trace (ss_world st'))) = concat urds @ eb"
  shows "\<exists>net' st' urest us' log i. serve ens ops cs (net, st) = Some (Some (net', st')) \<and>
    drain (tcp_upstream_on_message enu ops2 v) n urds us = Some (Some (urest, us')) \<and>
    written_to u (trace (ss_world st')) = map snd log \<and>
    map rec_key (committed (trace (us_world us'))) =
      map (\<lambda>(c, m). (user_id (a c), word_of_nat (seq_of m), msg_size (a c), ''upstream.rcv'')) (take i log) \<and>
    (\<forall>(c, m) \<in> set log. c \<in> C \<and> seq_of m < n_msgs (a c) \<and> m = slot (a c) (mem c) (seq_of m)) \<and>
    (\<forall>c \<in> C. prefix (of_client c (take i log)) (of_client c log) \<and> prefix (of_client c log) (ws c))"
proof -
  have sent: "m \<in> set (all_written (trace (cs_world (cl c))))" if "c \<in> C" "m \<in> set (ws c)" for c m
    using that(2) list_emb_set [OF assms(2) [OF that(1)]] by auto
  note msg = client_runs_message [OF assms(1) sent]
  have valid: "valid_frame m" if "c \<in> C" "m \<in> set (ws c)" for c m using msg(3) that by blast
  have "\<exists>net' st' log. serve ens ops cs (net, st) = Some (Some (net', st')) \<and>
      written_to u (trace (ss_world st')) = written_to u (trace (ss_world st)) @ map snd log \<and>
      fst ` set log \<subseteq> set cs \<and>
      (\<forall>c \<in> C. \<exists>k. of_client c log = take k (ws c) \<and> incomplete (server_pend data c st') \<and>
        concat (take k (ws c)) @ server_pend data c st' @ concat (net' c) @ e c = concat (ws c))"
    by (rule serve_messages [OF assms(4,5)]) (erule assms(6), erule (1) valid, erule assms(3))
  then obtain net' st' log where s: "serve ens ops cs (net, st) = Some (Some (net', st'))"
    "written_to u (trace (ss_world st')) = map snd log" "fst ` set log \<subseteq> set cs"
    "\<forall>c \<in> C. \<exists>k. of_client c log = take k (ws c) \<and> incomplete (server_pend data c st') \<and>
      concat (take k (ws c)) @ server_pend data c st' @ concat (net' c) @ e c = concat (ws c)"
    unfolding assms(7) by auto
  then have pre: "\<forall>c \<in> C. \<exists>k. of_client c log = take k (ws c)" by blast
  have from_ws: "c \<in> C \<and> m \<in> set (ws c)" if "(c, m) \<in> set log" for c m
    using log_from_streams [OF pre _ that] s(3) assms(5) by blast
  have good: "c \<in> C \<and> seq_of m < n_msgs (a c) \<and> m = slot (a c) (mem c) (seq_of m)"
    and key: "frame_key m act = (user_id (a c), word_of_nat (seq_of m), msg_size (a c), act)"
    if "(c, m) \<in> set log" for c m act
    using from_ws [OF that] msg by auto
  have vlog: "valid_frame m" if "m \<in> set (map snd log)" for m
    using that from_ws valid by fastforce
  have stream: "concat (map snd log) = concat urds @ eb" using assms(12) [OF s(1)] s(2) by simp
  obtain i urest us' where u: "drain (tcp_upstream_on_message enu ops2 v) n urds us = Some (Some (urest, us'))"
    "map rec_key (committed (trace (us_world us'))) = map (\<lambda>f. frame_key f ''upstream.rcv'') (take i (map snd log))"
    using upstream_log.drain_messages [OF assms(8,11,9) vlog stream, where n = n and en = enu] assms(10)
    unfolding concat_map_singleton by auto
  have "map (\<lambda>f. frame_key f ''upstream.rcv'') (take i (map snd log)) =
      map (\<lambda>(c, m). (user_id (a c), word_of_nat (seq_of m), msg_size (a c), ''upstream.rcv'')) (take i log)"
    using key by (auto simp: take_map dest: in_set_takeD)
  moreover have "\<forall>c \<in> C. prefix (of_client c (take i log)) (of_client c log) \<and> prefix (of_client c log) (ws c)"
    using pre of_client_prefix take_is_prefix by metis
  ultimately show ?thesis using s(1,2) u good by (intro exI conjI) (auto | fast)+
qed

lemma demo_client_life:
  "\<exists>st. client_runs demo_env_fail demo_args (list_bb True) (\<lambda>_. 0) demo_mem st \<and>
    all_written (trace (cs_world st)) = [msg_head demo_args 0, msg_head demo_args 1]"
proof -
  obtain st where st: "life (client_add demo_env_fail demo_args (list_bb True)) tcp_client_on_close
      (client_event demo_env_fail demo_args (list_bb True)) client_allowed client_conns
      (client_start \<lparr>tv_sec = 0, tv_nsec = 0\<rparr> demo_mem world0) st"
    "all_written (trace (cs_world (lf_app st))) = [msg_head demo_args 0, msg_head demo_args 1]"
    using demo_failed_life by blast
  have "client_runs demo_env_fail demo_args (list_bb True) (\<lambda>_. 0) demo_mem (lf_app st)"
    unfolding client_runs_def
    by (intro conjI exI [of _ "\<lparr>tv_sec = 0, tv_nsec = 0\<rparr>"] exI [of _ world0] exI [of _ st])
      (simp_all add: st(1))
  with st(2) show ?thesis by blast
qed

text \<open>Two clients that each wrote their first two messages, the second of which was not taken whole;
  the server sees only the first twelve bytes of that one.\<close>

definition demo_cut :: "ctx \<Rightarrow> bytes list" where
  "demo_cut c = [msg_head demo_args 0, take 12 (msg_head demo_args 1)]"

lemma demo_cut_simps:
  "reads_ok (demo_cut c)"
  "concat [msg_head demo_args 0, msg_head demo_args 1] = concat (demo_cut c) @ drop 12 (msg_head demo_args 1)"
  by (simp_all add: demo_cut_def reads_ok_def)

theorem tcp_system_integrity_witness:
  "\<exists>st net' st' log urest us' i.
    client_runs demo_env_fail demo_args (list_bb True) (\<lambda>_. 0) demo_mem st \<and>
    serve demo_env (list_bb True) [4, 5, 4] (demo_cut, demo_two_clients) = Some (Some (net', st')) \<and>
    drain (tcp_upstream_on_message demo_env (list_bb False) 4) 2 (written_to 3 (trace (ss_world st'))) demo_upstream =
      Some (Some (urest, us')) \<and>
    map rec_key (committed (trace (us_world us'))) =
      map (\<lambda>(c, m). (7, word_of_nat (seq_of m), 16, ''upstream.rcv'')) (take i (log :: (ctx \<times> bytes) list))"
proof -
  let ?ms = "[msg_head demo_args 0, msg_head demo_args 1]" and ?e = "drop 12 (msg_head demo_args 1)"
  let ?d = "\<lparr>sv_listen_ctx = Some 1, sv_conn_ctx = Some 3\<rparr>"
  obtain st where st: "client_runs demo_env_fail demo_args (list_bb True) (\<lambda>_. 0) demo_mem st"
    "all_written (trace (cs_world st)) = ?ms"
    using demo_client_life by blast
  have s: "server_receives (list_bb True) list_bb_ok snd c ?d demo_two_clients \<and>
      server_pend snd c demo_two_clients = [] \<and> reads_ok (demo_cut c)" if "c \<in> {4, 5}" for c
    using that demo_two_clients_receives demo_cut_simps(1) by simp
  have u: "sv_conn_ctx ?d = Some (3 :: ctx)" and cs: "set [4, 5, 4 :: nat] \<subseteq> {4, 5}" by simp_all
  have vms: "\<And>m. m \<in> set ?ms \<Longrightarrow> valid_frame m" by auto
  obtain net' st' log where srv: "serve demo_env (list_bb True) [4, 5, 4] (demo_cut, demo_two_clients) = Some (Some (net', st'))"
    "written_to 3 (trace (ss_world st')) = map snd log" "fst ` set log \<subseteq> set [4, 5, 4]"
    "\<forall>c \<in> {4, 5}. \<exists>k. of_client c log = take k ?ms"
  proof -
    have "\<exists>net' st' log. serve demo_env (list_bb True) [4, 5, 4] (demo_cut, demo_two_clients) = Some (Some (net', st')) \<and>
      written_to 3 (trace (ss_world st')) = written_to 3 (trace (ss_world demo_two_clients)) @ map snd log \<and>
      fst ` set log \<subseteq> set [4, 5, 4] \<and>
      (\<forall>c \<in> {4, 5}. \<exists>k. of_client c log = take k ?ms \<and> incomplete (server_pend snd c st') \<and>
        concat (take k ?ms) @ server_pend snd c st' @ concat (net' c) @ ?e = concat ?ms)"
      by (rule serve_messages [OF u cs]) (erule s, erule vms, rule demo_cut_simps(2))
    then show ?thesis using that by (auto simp: demo_two_clients_def)
  qed
  have len: "length f = 16" if "f \<in> set (map snd log)" for f
  proof -
    from that obtain c where c: "(c, f) \<in> set log" by auto
    with srv(3,4) obtain k where "of_client c log = take k ?ms" by fastforce
    moreover have "f \<in> set (of_client c log)" using c by (force simp: of_client_def)
    ultimately have "f \<in> set ?ms" using in_set_takeD by metis
    then show ?thesis by auto
  qed
  let ?urds = "written_to 3 (trace (ss_world st'))"
  have urds: "reads_ok ?urds" using len by (simp add: reads_ok_def srv(2))
  have stream: "concat (written_to 3 (trace (ss_world st2))) = concat ?urds @ []"
    if "serve demo_env (list_bb True) [4, 5, 4] (demo_cut, demo_two_clients) = Some (Some (net2, st2))" for net2 st2
    using that srv(1) by simp
  have "\<exists>net' st' urest us' log i.
    serve demo_env (list_bb True) [4, 5, 4] (demo_cut, demo_two_clients) = Some (Some (net', st')) \<and>
    drain (tcp_upstream_on_message demo_env (list_bb False) 4) 2 ?urds demo_upstream = Some (Some (urest, us')) \<and>
    written_to 3 (trace (ss_world st')) = map snd log \<and>
    map rec_key (committed (trace (us_world us'))) =
      map (\<lambda>(c, m). (user_id demo_args, word_of_nat (seq_of m), msg_size demo_args, ''upstream.rcv'')) (take i log) \<and>
    (\<forall>(c, m) \<in> set log. c \<in> {4, 5} \<and> seq_of m < n_msgs demo_args \<and> m = slot demo_args demo_mem (seq_of m)) \<and>
    (\<forall>c \<in> {4, 5}. prefix (of_client c (take i log)) (of_client c log) \<and> prefix (of_client c log) ?ms)"
    by (rule tcp_system_integrity [where C = "{4, 5}" and enc = "\<lambda>_. demo_env_fail" and opc = "\<lambda>_. list_bb True"
        and fill = "\<lambda>_ _. 0" and cl = "\<lambda>_. st" and ws = "\<lambda>_. ?ms" and e = "\<lambda>_. ?e"
        and a = "\<lambda>_. demo_args" and mem = "\<lambda>_. demo_mem", OF st(1) _ demo_cut_simps(2) u cs s _
        demo_upstream_simps(1) [of False] demo_upstream_simps(2) _ urds stream])
      (simp_all add: st(2) demo_two_clients_def)
  with st(1) srv(1) show ?thesis by (auto simp: exI)
qed

end
