(* ===== verification/TcpServerLife.thy ===== *)
theory TcpServerLife
  imports TcpServer Lifecycle TcpClientLife
begin

text \<open>
  The upstream connection of the TCP server over the life of the program: clients connect, send and
  go, while the connection to the upstream is lost and made again. The invariant is that
  the context the server forwards to is the open upstream connection.
\<close>

section \<open>Events\<close>

datatype server_event =
    SvListen ctx add_answers            \<comment> \<open>the listening context is added\<close>
  | SvConnect ctx add_answers           \<comment> \<open>a client connects\<close>
  | SvCloseClient ctx
  | SvRelease ctx
  | SvMessage ctx "bytes list"

definition server_add :: "'b bytes_buffer \<Rightarrow> add_answers \<Rightarrow> ctx \<Rightarrow> 'b tcp_server \<Rightarrow> 'b tcp_server" where
  "server_add ops p c st = tcp_server_on_add_ctx ops (aa_nodelay p) (aa_huge p) (aa_junk p) c CtxTcpClient st"

definition server_event ::
  "env \<Rightarrow> 'b bytes_buffer \<Rightarrow> server_event \<Rightarrow> 'b tcp_server \<Rightarrow> 'b tcp_server option" where
  "server_event en ops e st =
     (case e of
        SvListen c p \<Rightarrow>
          Some (tcp_server_on_add_ctx ops (aa_nodelay p) (aa_huge p) (aa_junk p) c CtxTcpListen st)
      | SvConnect c p \<Rightarrow>
          Some (tcp_server_on_connect ops (aa_nodelay p) (aa_huge p) (aa_junk p) c st)
      | SvCloseClient c \<Rightarrow> Some (tcp_server_on_close c st)
      | SvRelease c \<Rightarrow> Some (tcp_server_on_release c st)
      | SvMessage c rds \<Rightarrow>
          (case tcp_server_on_message en ops c rds st of
             Some (Some (rest, st')) \<Rightarrow> Some st'
           | _ \<Rightarrow> None))"

text \<open>
  \<open>U\<close> is the open upstream connection. The contexts of clients are others, and a
  context closes once: what is closed as a client is not an upstream that has closed before.
\<close>

definition server_allowed :: "server_event \<Rightarrow> ctx set \<Rightarrow> 'b tcp_server \<Rightarrow> bool" where
  "server_allowed e U st \<longleftrightarrow>
     (case e of
        SvConnect c _ \<Rightarrow> c \<notin> U
      | SvCloseClient c \<Rightarrow>
          c \<notin> U \<and> map_option role (ss_sess st c) \<noteq> Some SERVER_SESSION_ROLE_UPSTREAM
      | SvRelease c \<Rightarrow> c \<notin> U
      | _ \<Rightarrow> True)"

definition server_conns :: "'b tcp_server \<Rightarrow> nat" where
  "server_conns st = async_connects (trace (ss_world st))"

abbreviation server_cur :: "'b tcp_server \<Rightarrow> ctx option" where
  "server_cur st \<equiv> sv_conn_ctx (ss_data st)"

definition server_good :: "ctx set \<Rightarrow> 'b tcp_server \<Rightarrow> bool" where
  "server_good U st \<longleftrightarrow> U = set_option (server_cur st) \<and>
     (\<forall>c \<in> U. map_option role (ss_sess st c) = Some SERVER_SESSION_ROLE_UPSTREAM)"

section \<open>The callbacks keep the contract\<close>

lemma server_handle_connects:
  "tcp_server_handle_message en d ro w mem n = Some w' \<Longrightarrow>
   async_connects (trace w') = async_connects (trace w)"
  by (auto simp: tcp_server_handle_message_def sock_write_def Let_def bind_eq_Some_conv
      split: option.splits if_splits)

lemma server_on_message_keeps:
  assumes "tcp_server_on_message en ops c rds st = Some (Some (rest, st'))"
  shows "ss_data st' = ss_data st \<and> map_option role (ss_sess st' c') = map_option role (ss_sess st c') \<and>
    server_conns st' = server_conns st"
proof (cases "ss_sess st c")
  case None
  with assms show ?thesis by (simp add: tcp_server_on_message_def)
next
  case (Some s)
  with assms obtain s' w' where
    m: "nb_tcp_session_on_msg ops (tcp_server_call en (ss_data st) (Some (role s))) c rds s
        (ss_world st) = Some (Some (rest, s', w'))"
    and st': "st' = st\<lparr>ss_sess := (ss_sess st)(c \<mapsto> s'), ss_world := w'\<rparr>"
    by (auto simp: tcp_server_on_message_def)
  have "(\<exists>b. s' = s\<lparr>bytes_buf := b\<rparr>) \<and> async_connects (trace w') = async_connects (trace (ss_world st))"
    by (rule connects.on_msg_rel [OF _ m]) (rule server_handle_connects [OF tcp_server_call_Some])
  with st' Some show ?thesis by (auto simp: server_conns_def)
qed

interpretation server_life: reconnecting "server_add ops" tcp_server_on_close
  "server_event en ops" server_allowed server_conns server_cur server_good for en ops
proof unfold_locales
  fix s :: "'a tcp_server" and c p
  show "server_good {} s \<Longrightarrow> server_good {c} (server_add ops p c s) \<and>
      server_conns (server_add ops p c s) = server_conns s"
    by (simp add: server_add_def tcp_server_on_add_ctx_def server_good_def server_conns_def
        nb_tcp_session_new_def Let_def)
next
  fix s :: "'a tcp_server" and c
  assume "server_good {c} s"
  then obtain ss where "ss_sess s c = Some ss" "role ss = SERVER_SESSION_ROLE_UPSTREAM"
    by (auto simp: server_good_def)
  then show "server_good {} (tcp_server_on_close c s) \<and>
      server_conns (tcp_server_on_close c s) = Suc (server_conns s)"
    by (simp add: tcp_server_on_close_def server_good_def server_conns_def nb_tcp_async_connect_def)
next
  fix U and s s' :: "'a tcp_server" and q
  assume g: "server_good U s" "server_allowed q U s" "server_event en ops q s = Some s'"
  show "server_good U s' \<and> server_conns s' = server_conns s"
  proof (cases q)
    case (SvListen c p)
    with g show ?thesis
      by (auto simp: server_event_def tcp_server_on_add_ctx_def server_good_def server_conns_def)
  next
    case (SvConnect c p)
    with g show ?thesis
      by (cases "aa_nodelay p = 0"; cases "aa_huge p")
         (auto simp: server_event_def server_allowed_def tcp_server_on_connect_def server_good_def
           server_conns_def nb_tcp_session_new_def)
  next
    case (SvCloseClient c)
    with g show ?thesis
      by (auto simp: server_event_def server_allowed_def tcp_server_on_close_def server_good_def
          server_conns_def split: option.splits if_splits)
  next
    case (SvRelease c)
    with g show ?thesis
      by (auto simp: server_event_def server_allowed_def tcp_server_on_release_def server_good_def
          server_conns_def Let_def split: option.splits if_splits)
  next
    case (SvMessage c rds)
    with g obtain rest where "tcp_server_on_message en ops c rds s = Some (Some (rest, s'))"
      by (auto simp: server_event_def split: option.splits)
    note k = server_on_message_keeps [OF this]
    with g show ?thesis by (simp add: server_good_def)
  qed
next
  fix U and s :: "'a tcp_server" and c
  assume "server_good U s" "server_cur s = Some c"
  then show "c \<in> U" by (simp add: server_good_def)
qed

section \<open>Properties\<close>

definition server_start :: "world \<Rightarrow> 'b tcp_server" where
  "server_start w = \<lparr>ss_data = \<lparr>sv_listen_ctx = None, sv_conn_ctx = None\<rparr>, ss_sess = Map.empty, ss_world = w\<rparr>"

text \<open>C14: Whatever clients do and however often the upstream goes away, the server has exactly one upstream
  connection open or exactly one connecting thread under way, and the context it forwards to is set
  exactly when the connection is open, and is that connection.\<close>

theorem tcp_server_upstream_pointer:
  assumes "life (server_add ops) tcp_server_on_close (server_event en ops) server_allowed server_conns
    (server_start w) st"
  shows "(lf_open st = {} \<and> lf_pending st = 1 \<or> (\<exists>c. lf_open st = {c}) \<and> lf_pending st = 0) \<and>
    lf_open st = set_option (sv_conn_ctx (ss_data (lf_app st)))"
proof -
  have "server_good {} (server_start w)" by (simp add: server_good_def server_start_def)
  with server_life.life_invariant [OF assms] show ?thesis by (auto simp: server_good_def)
qed

theorem tcp_server_upstream_pointer_witness:
  "\<exists>st. life (server_add (list_bb True)) tcp_server_on_close (server_event demo_env (list_bb True))
      server_allowed server_conns (server_start world0) st \<and>
    sv_conn_ctx (ss_data (lf_app st)) = None \<and> lf_open st = {} \<and> lf_pending st = 1 \<and>
    0 < server_conns (lf_app st)"
proof -
  let ?life = "life (server_add (list_bb True)) tcp_server_on_close (server_event demo_env (list_bb True))
      server_allowed server_conns (server_start world0)"
  let ?p = "\<lparr>aa_nodelay = 0, aa_huge = True, aa_junk = 0\<rparr>"
  let ?s = "server_start world0 :: (nat \<times> bytes) tcp_server"
  let ?s1 = "server_add (list_bb True) ?p 3 ?s"
  have "?life \<lparr>lf_open = {}, lf_pending = 1, lf_app = ?s\<rparr>" by (rule life.start)
  from life.add [OF this, where c = 3 and p = ?p]
  obtain n where "?life \<lparr>lf_open = {3}, lf_pending = n, lf_app = ?s1\<rparr>" by auto
  from life.close [OF this, where c = 3]
  obtain m where m: "?life \<lparr>lf_open = {}, lf_pending = m, lf_app = tcp_server_on_close 3 ?s1\<rparr>" by auto
  have "0 < server_conns (tcp_server_on_close 3 ?s1)"
    by (simp add: server_conns_def server_add_def tcp_server_on_add_ctx_def tcp_server_on_close_def
        nb_tcp_session_new_def nb_tcp_async_connect_def Let_def)
  moreover have "m = 1 \<and> sv_conn_ctx (ss_data (tcp_server_on_close 3 ?s1)) = None"
    using tcp_server_upstream_pointer [OF m] by (simp add: eq_commute [of "{}"])
  ultimately show ?thesis
    using m by (intro exI [of _ "\<lparr>lf_open = {}, lf_pending = m, lf_app = tcp_server_on_close 3 ?s1\<rparr>"]) simp
qed

end
