(* ===== verification/TcpServerLog.thy ===== *)
theory TcpServerLog
  imports TcpServerLife TcpServerClients Quiet "HOL-Library.Sublist"
begin

text \<open>
  The TCP server over its whole life, refined to its history: which bytes were read on which
  connection of a client, and which complete message went to which connection of the upstream.
  Clients connect, send, close and connect again in any order, while the connection to the
  upstream is lost and made again.
\<close>

section \<open>The history\<close>

text \<open>
  A context is used for one connection after the other: \<open>(c, n)\<close> is the \<open>n\<close>-th connection
  with context \<open>c\<close>. A message of the log was sent on to the given connection of the
  upstream, or dropped because there was none.
\<close>

type_synonym conn = "ctx \<times> nat"
type_synonym forwarded = "conn \<times> conn option \<times> bytes"

record server_hist =
  sh_gen :: "ctx \<Rightarrow> nat"          \<comment> \<open>connections of clients made with a context\<close>
  sh_read :: "conn \<Rightarrow> bytes"
  sh_ups :: nat                   \<comment> \<open>connections made to the upstream\<close>
  sh_log :: "forwarded list"

definition hist_start :: server_hist where
  "hist_start = \<lparr>sh_gen = \<lambda>_. 0, sh_read = \<lambda>_. [], sh_ups = 0, sh_log = []\<rparr>"

abbreviation cur_conn :: "server_hist \<Rightarrow> ctx \<Rightarrow> conn" where
  "cur_conn h c \<equiv> (c, sh_gen h c)"

definition hist_connect :: "ctx \<Rightarrow> server_hist \<Rightarrow> server_hist" where
  "hist_connect c h = h\<lparr>sh_gen := (sh_gen h)(c := Suc (sh_gen h c))\<rparr>"

text \<open>Bytes \<open>us\<close> are read: the messages they complete go to \<open>up\<close>.\<close>

definition hist_read :: "ctx \<Rightarrow> bytes \<Rightarrow> conn option \<Rightarrow> server_hist \<Rightarrow> server_hist" where
  "hist_read c us up h =
     (let k = cur_conn h c;
          fs = fst (split_frames (snd (split_frames (sh_read h k)) @ us))
      in h\<lparr>sh_read := (sh_read h)(k := sh_read h k @ us),
           sh_log := sh_log h @ map (\<lambda>f. (k, up, f)) fs\<rparr>)"

section \<open>The server with its history\<close>

type_synonym 'b logged_server = "'b tcp_server \<times> server_hist"

definition is_client :: "'b tcp_server \<Rightarrow> ctx \<Rightarrow> bool" where
  "is_client st c \<longleftrightarrow> map_option role (ss_sess st c) = Some SERVER_SESSION_ROLE_CLIENT"

definition logged_add ::
  "'b bytes_buffer \<Rightarrow> add_answers \<Rightarrow> ctx \<Rightarrow> 'b logged_server \<Rightarrow> 'b logged_server" where
  "logged_add ops p c = (\<lambda>(st, h). (server_add ops p c st, h\<lparr>sh_ups := Suc (sh_ups h)\<rparr>))"

definition logged_close :: "ctx \<Rightarrow> 'b logged_server \<Rightarrow> 'b logged_server" where
  "logged_close c = (\<lambda>(st, h). (tcp_server_on_close c st, h))"

definition logged_event ::
  "env \<Rightarrow> 'b bytes_buffer \<Rightarrow> server_event \<Rightarrow> 'b logged_server \<Rightarrow> 'b logged_server option" where
  "logged_event en ops e = (\<lambda>(st, h).
     (case e of
        SvMessage c rds \<Rightarrow>
          (case tcp_server_on_message en ops c rds st of
             Some (Some (rest, st')) \<Rightarrow>
               Some (st', if is_client st c
                 then hist_read c (concat (take (length rds - length rest) rds))
                   (map_option (\<lambda>u. (u, sh_ups h)) (server_cur st)) h
                 else h)
           | _ \<Rightarrow> None)
      | SvConnect c p \<Rightarrow>
          map_option (\<lambda>st'. (st', if aa_nodelay p = 0 then hist_connect c h else h))
            (server_event en ops e st)
      | _ \<Rightarrow> map_option (\<lambda>st'. (st', h)) (server_event en ops e st)))"

text \<open>
  \<open>ws k\<close> are the messages the peer of connection \<open>k\<close> has written, or begun to: TCP delivers a
  prefix of their bytes, cut anywhere.
\<close>

definition logged_allowed ::
  "(conn \<Rightarrow> bytes list) \<Rightarrow> server_event \<Rightarrow> ctx set \<Rightarrow> 'b logged_server \<Rightarrow> bool" where
  "logged_allowed ws e U = (\<lambda>(st, h). server_allowed e U st \<and>
     (case e of
        SvMessage c rds \<Rightarrow> is_client st c \<longrightarrow> reads_ok rds \<and>
          prefix (sh_read h (cur_conn h c) @ concat rds) (concat (ws (cur_conn h c)))
      | _ \<Rightarrow> True))"

definition logged_conns :: "'b logged_server \<Rightarrow> nat" where
  "logged_conns = (\<lambda>(st, h). server_conns st)"

text \<open>The history only watches: without it, the events are events of the server.\<close>

lemma logged_event_fst:
  "logged_event en ops e s = Some s' \<Longrightarrow> server_event en ops e (fst s) = Some (fst s')"
  by (cases s) (auto simp: logged_event_def server_event_def split: server_event.splits option.splits)

lemma logged_allowed_fst: "logged_allowed ws e U s \<Longrightarrow> server_allowed e U (fst s)"
  by (cases s) (simp add: logged_allowed_def)

section \<open>What a log says about the trace\<close>

definition sent_on :: "(conn option \<Rightarrow> bool) \<Rightarrow> forwarded list \<Rightarrow> bytes list" where
  "sent_on P l = map (\<lambda>(k, up, f). f) (filter (\<lambda>(k, up, f). P up) l)"

definition of_conn :: "conn \<Rightarrow> forwarded list \<Rightarrow> bytes list" where
  "of_conn k l = map (\<lambda>(k, up, f). f) (filter (\<lambda>(k', up, f). k' = k) l)"

definition log_records :: "forwarded list \<Rightarrow> (u32 \<times> u32 \<times> u32 \<times> string) list" where
  "log_records l = concat (map (\<lambda>(k, up, f). frame_key f ''server.rcv'' #
     (if up = None then [] else [frame_key f ''server.snd_begin''])) l)"

lemma sent_on_simps [simp]:
  "sent_on P [] = []" "sent_on P (xs @ ys) = sent_on P xs @ sent_on P ys"
  "sent_on P (map (\<lambda>f. (k, up, f)) fs) = (if P up then fs else [])"
  by (simp_all add: sent_on_def filter_map o_def)

lemma of_conn_simps [simp]:
  "of_conn k [] = []" "of_conn k (xs @ ys) = of_conn k xs @ of_conn k ys"
  "of_conn k (map (\<lambda>f. (k', up, f)) fs) = (if k' = k then fs else [])"
  by (simp_all add: of_conn_def filter_map o_def)

lemma log_records_simps [simp]:
  "log_records [] = []" "log_records (xs @ ys) = log_records xs @ log_records ys"
  "log_records (map (\<lambda>f. (k, up, f)) fs) = concat (map (\<lambda>f. frame_key f ''server.rcv'' #
     (if up = None then [] else [frame_key f ''server.snd_begin''])) fs)"
  by (simp_all add: log_records_def o_def)

definition log_trace :: "world \<Rightarrow> forwarded list \<Rightarrow> world \<Rightarrow> bool" where
  "log_trace w l w' \<longleftrightarrow>
     all_written (trace w') = all_written (trace w) @ sent_on (\<lambda>up. up \<noteq> None) l \<and>
     (\<forall>u. written_to u (trace w') = written_to u (trace w) @ sent_on (\<lambda>up. map_option fst up = Some u) l) \<and>
     map rec_key (committed (trace w')) = map rec_key (committed (trace w)) @ log_records l"

lemma log_trace_trans: "log_trace w1 l w2 \<Longrightarrow> log_trace w2 l' w3 \<Longrightarrow> log_trace w1 (l @ l') w3"
  by (simp add: log_trace_def)

interpretation log_quiet: session_frame "\<lambda>w w'. log_trace w [] w'"
  by unfold_locales (simp_all add: log_trace_def)

lemma log_quiet_after: "log_trace w l w1 \<Longrightarrow> log_trace w1 [] w2 \<Longrightarrow> log_trace w l w2"
  using log_trace_trans [of w l w1 "[]" w2] by simp

section \<open>Callbacks that take no message\<close>

lemma log_trace_refl [simp]: "log_trace w [] w"
  by (rule log_quiet.rel_refl)

lemma server_add_quiet: "log_trace (ss_world st) [] (ss_world (server_add ops p c st))"
  by (simp add: server_add_def tcp_server_on_add_ctx_def nb_tcp_session_new_def log_trace_def Let_def)

lemma server_close_quiet: "log_trace (ss_world st) [] (ss_world (tcp_server_on_close c st))"
  by (auto simp: tcp_server_on_close_def nb_tcp_async_connect_def log_trace_def split: option.split)

lemma server_close_sess [simp]: "ss_sess (tcp_server_on_close c st) = ss_sess st"
  by (simp add: tcp_server_on_close_def split: option.split)

lemma server_listen_quiet:
  "log_trace (ss_world st) [] (ss_world (tcp_server_on_add_ctx ops n h j c CtxTcpListen st))"
  by (simp add: tcp_server_on_add_ctx_def)

lemma server_listen_sess [simp]:
  "ss_sess (tcp_server_on_add_ctx ops n h j c CtxTcpListen st) = ss_sess st"
  by (simp add: tcp_server_on_add_ctx_def)

lemma server_connect_quiet:
  "log_trace (ss_world st) [] (ss_world (tcp_server_on_connect ops n h j c st))"
  by (simp add: tcp_server_on_connect_def nb_tcp_session_new_def log_trace_def Let_def)

lemma server_release_quiet: "log_trace (ss_world st) [] (ss_world (tcp_server_on_release c st))"
  by (auto simp: tcp_server_on_release_def nb_tcp_session_delete_def log_trace_def Let_def split: option.split)

section \<open>Messages\<close>

text \<open>What does not come from a client leaves no trace but a log line.\<close>

lemma server_handle_other:
  "tcp_server_handle_message en d ro w mem n = Some w' \<Longrightarrow> ro \<noteq> Some SERVER_SESSION_ROLE_CLIENT \<Longrightarrow>
   log_trace w [] w'"
  by (auto simp: tcp_server_handle_message_def log_trace_def Let_def split: option.splits)

lemma server_message_other:
  assumes "tcp_server_on_message en ops c rds st = Some (Some (rest, st'))" and "\<not> is_client st c"
  shows "log_trace (ss_world st) [] (ss_world st')"
    and "map_option role (ss_sess st' c') = map_option role (ss_sess st c')"
    and "is_client st c' \<Longrightarrow> ss_sess st' c' = ss_sess st c'"
proof -
  show "map_option role (ss_sess st' c') = map_option role (ss_sess st c')" for c'
    using server_on_message_keeps [OF assms(1)] by simp
  show "log_trace (ss_world st) [] (ss_world st')"
  proof (cases "ss_sess st c")
    case None
    with assms(1) show ?thesis by (simp add: tcp_server_on_message_def)
  next
    case (Some s)
    with assms(1) obtain s' w' where
      m: "nb_tcp_session_on_msg ops (tcp_server_call en (ss_data st) (Some (role s))) c rds s
          (ss_world st) = Some (Some (rest, s', w'))"
      and st': "ss_world st' = w'"
      by (auto simp: tcp_server_on_message_def)
    have "Some (role s) \<noteq> Some SERVER_SESSION_ROLE_CLIENT" using assms(2) Some by (simp add: is_client_def)
    with log_quiet.on_msg_rel [OF _ m] server_handle_other [OF tcp_server_call_Some] st'
    show ?thesis by blast
  qed
  show "is_client st c' \<Longrightarrow> ss_sess st' c' = ss_sess st c'"
    using on_message_other [OF assms(1), of c'] assms(2) by metis
qed

lemma server_fold_trace:
  assumes fs: "map snd ms = fs" and valid: "\<forall>f \<in> set fs. valid_frame f"
  shows "log_trace w (map (\<lambda>f. (k, map_option (\<lambda>u. (u, n)) (sv_conn_ctx d), f)) fs)
    (fold (deliver (server_world en d)) ms w)"
proof -
  have "all_written (trace (fold (deliver (server_world en d)) ms w)) =
      all_written (trace w) @ (if sv_conn_ctx d = None then [] else fs)"
    using valid unfolding fs [symmetric]
    by (induction ms arbitrary: w)
      (auto simp: valid_frame_def server_world_trace server_effects_def deliver_def split: option.split)
  with server_fold [of ms, unfolded fs, OF valid] show ?thesis
    by (auto simp: log_trace_def option.map_comp o_def split: option.splits)
qed

lemma reads_taken:
  assumes "rds = us @ rest \<or> rds = us @ [] # rest"
  shows "concat (take (length rds - length rest) rds) = concat us"
  using assms by (auto simp: take_Suc_conv_app_nth)

lemma server_message_client:
  assumes bb: "bytes_buffer_ok ops ok data" and s: "ss_sess st c = Some s" "client_session ops ok data s"
    and pend: "data (bytes_buf s) = snd (split_frames D)"
    and ws: "\<And>f. f \<in> set ws \<Longrightarrow> valid_frame f" and pre: "prefix (D @ concat rds) (concat ws)"
    and rds: "reads_ok rds"
  shows "\<exists>rest st' s'. tcp_server_on_message en ops c rds st = Some (Some (rest, st')) \<and>
    prefix (D @ concat (take (length rds - length rest) rds)) (concat ws) \<and>
    ss_data st' = ss_data st \<and> ss_sess st' = (ss_sess st)(c \<mapsto> s') \<and> client_session ops ok data s' \<and>
    data (bytes_buf s') = snd (split_frames (D @ concat (take (length rds - length rest) rds))) \<and>
    log_trace (ss_world st)
      (map (\<lambda>f. (k, map_option (\<lambda>u. (u, n)) (server_cur st), f))
        (fst (split_frames (snd (split_frames D) @ concat (take (length rds - length rest) rds)))))
      (ss_world st')"
proof -
  have inc: "incomplete (data (bytes_buf s))" unfolding pend by (rule split_rest_incomplete)
  have rcv: "server_receives ops ok data c (ss_data st) st"
    using s inc by (simp add: server_receives_def)
  have p: "server_pend data c st = snd (split_frames D)" using s(1) pend by (simp add: server_pend_def)
  obtain e where e: "concat ws = D @ concat rds @ e" using pre by (auto simp: prefix_def)
  have wf: "wf_stream (server_pend data c st @ concat (take k rds))" for k
  proof -
    have "concat rds = concat (take k rds) @ concat (drop k rds)"
      by (metis append_take_drop_id concat_append)
    then have "concat ws = (D @ concat (take k rds)) @ concat (drop k rds) @ e" using e by simp
    from wf_stream_prefix [OF ws this] have "wf_stream (D @ concat (take k rds))" .
    then show ?thesis unfolding p by (rule server_fwd.wf_rest)
  qed
  obtain us rest st' w0 ms where r: "tcp_server_on_message en ops c rds st = Some (Some (rest, st'))"
    "server_receives ops ok data c (ss_data st) st'"
    "server_pend data c st' = snd (split_frames (snd (split_frames D) @ concat us))"
    "ss_world st' = fold (deliver (server_world en (ss_data st))) ms w0"
    "map snd ms = fst (split_frames (snd (split_frames D) @ concat us))"
    "w0 = ss_world st \<or> w0 = emit (Log L_ERROR ''bytes buffer full'') (ss_world st)"
    "\<forall>f \<in> set (fst (split_frames (snd (split_frames D) @ concat us))). valid_frame f"
    "rds = us @ rest \<or> rds = us @ [] # rest"
    using server_on_message_frames [OF rcv rds wf, of en] unfolding p by blast
  note t = reads_taken [OF r(8)]
  obtain s' where s': "ss_sess st' c = Some s'" "client_session ops ok data s'"
    using r(2) by (auto simp: server_receives_def)
  have sess: "ss_sess st' = (ss_sess st)(c \<mapsto> s')"
    using on_message_other [OF r(1)] s'(1) by (intro ext) simp
  have "log_trace (ss_world st) [] w0" using r(6) log_quiet.rel_emits(1) by auto
  from log_trace_trans [OF this server_fold_trace [OF r(5,7), of w0 k n "ss_data st" en]] r(4)
  have "log_trace (ss_world st)
      (map (\<lambda>f. (k, map_option (\<lambda>u. (u, n)) (server_cur st), f))
        (fst (split_frames (snd (split_frames D) @ concat us)))) (ss_world st')" by simp
  moreover have "snd (split_frames (snd (split_frames D) @ concat us)) = snd (split_frames (D @ concat us))"
    using frames.split_append [of D "concat us"] by simp
  moreover have "concat rds = concat us @ concat rest" using r(8) by auto
  then have "prefix (D @ concat us) (concat ws)" using e by (simp add: prefix_def)
  ultimately show ?thesis
    using r(1,2,3) s' sess
    by (intro exI [of _ rest] exI [of _ st'] exI [of _ s']) (simp add: t server_pend_def server_receives_def)
qed

section \<open>The invariant of the history\<close>

definition log_ups :: "forwarded list \<Rightarrow> nat list" where
  "log_ups l = concat (map (\<lambda>(k, up, f). case up of None \<Rightarrow> [] | Some (u, n) \<Rightarrow> [n]) l)"

lemma log_ups_simps [simp]:
  "log_ups [] = []" "log_ups (xs @ ys) = log_ups xs @ log_ups ys"
  "log_ups (map (\<lambda>f. (k, up, f)) fs) =
     (case up of None \<Rightarrow> [] | Some (u, n) \<Rightarrow> replicate (length fs) n)"
  by (simp_all add: log_ups_def o_def split: option.split) (induction fs; simp)

text \<open>The buffer of a client's session holds what is left of the bytes read on its connection.\<close>

definition sess_ok ::
  "'b bytes_buffer \<Rightarrow> ('b \<Rightarrow> bool) \<Rightarrow> ('b \<Rightarrow> bytes) \<Rightarrow> 'b logged_server \<Rightarrow> bool" where
  "sess_ok ops ok data = (\<lambda>(st, h). \<forall>c s. ss_sess st c = Some s \<and> role s = SERVER_SESSION_ROLE_CLIENT \<longrightarrow>
     client_session ops ok data s \<and> data (bytes_buf s) = snd (split_frames (sh_read h (cur_conn h c))))"

lemma sess_ok_same: "ss_sess st' = ss_sess st \<Longrightarrow> sess_ok ops ok data (st', h) = sess_ok ops ok data (st, h)"
  by (simp only: sess_ok_def prod.case)

definition hist_ok :: "(conn \<Rightarrow> bytes list) \<Rightarrow> server_hist \<Rightarrow> bool" where
  "hist_ok ws h \<longleftrightarrow> (\<forall>c n. sh_gen h c < n \<longrightarrow> sh_read h (c, n) = []) \<and>
     (\<forall>k. prefix (sh_read h k) (concat (ws k))) \<and>
     (\<forall>k. of_conn k (sh_log h) = fst (split_frames (sh_read h k))) \<and>
     sorted (log_ups (sh_log h)) \<and> (\<forall>n \<in> set (log_ups (sh_log h)). n \<le> sh_ups h)"

definition server_logged ::
  "'b bytes_buffer \<Rightarrow> ('b \<Rightarrow> bool) \<Rightarrow> ('b \<Rightarrow> bytes) \<Rightarrow> (conn \<Rightarrow> bytes list) \<Rightarrow> world \<Rightarrow>
   'b logged_server \<Rightarrow> bool" where
  "server_logged ops ok data ws w = (\<lambda>(st, h). sess_ok ops ok data (st, h) \<and> hist_ok ws h \<and>
     log_trace w (sh_log h) (ss_world st))"

lemma hist_start_ok: "hist_ok ws hist_start"
  by (simp add: hist_ok_def hist_start_def split_incomplete)

lemma hist_connect_ok: "hist_ok ws h \<Longrightarrow> hist_ok ws (hist_connect c h)"
  unfolding hist_ok_def hist_connect_def by (simp add: Suc_lessD)

lemma hist_up_ok: "hist_ok ws h \<Longrightarrow> hist_ok ws (h\<lparr>sh_ups := Suc (sh_ups h)\<rparr>)"
  unfolding hist_ok_def by (simp add: le_SucI)

lemma hist_read_ok:
  assumes "hist_ok ws h" and "prefix (sh_read h (cur_conn h c) @ us) (concat (ws (cur_conn h c)))"
  shows "hist_ok ws (hist_read c us (map_option (\<lambda>u. (u, sh_ups h)) up) h)"
proof -
  have "fst (split_frames (sh_read h (cur_conn h c) @ us)) =
      fst (split_frames (sh_read h (cur_conn h c))) @
      fst (split_frames (snd (split_frames (sh_read h (cur_conn h c))) @ us))"
    using frames.split_append [of "sh_read h (cur_conn h c)" us] by simp
  with assms show ?thesis
    by (auto simp: hist_ok_def hist_read_def Let_def sorted_append split: option.split)
qed

lemma logged_quiet:
  assumes "server_logged ops ok data ws w (st, h)" and "log_trace (ss_world st) [] (ss_world st')"
    and "hist_ok ws h'" and "sess_ok ops ok data (st', h')" and "sh_log h' = sh_log h"
  shows "server_logged ops ok data ws w (st', h')"
  using assms log_quiet_after by (auto simp: server_logged_def)

lemma new_session_client:
  assumes "bytes_buffer_ok ops ok data"
  shows "client_session ops ok data
      ((fst (nb_tcp_session_new ops Fn_tcp_server_handle_message hp j w))\<lparr>role := SERVER_SESSION_ROLE_CLIENT\<rparr>) \<and>
    data (bytes_buf (fst (nb_tcp_session_new ops Fn_tcp_server_handle_message hp j w))) = []"
  using bb_newD [OF assms, of NET_BENCH_TCP_BUF_SIZE] assms
  by (simp add: nb_tcp_session_new_def client_session_def Let_def)

lemma logged_connect:
  assumes bb: "bytes_buffer_ok ops ok data" and l: "server_logged ops ok data ws w (st, h)"
  shows "server_logged ops ok data ws w
    (tcp_server_on_connect ops nd hp j c st, if nd = 0 then hist_connect c h else h)"
proof (rule logged_quiet [OF l server_connect_quiet])
  have h: "hist_ok ws h" "sess_ok ops ok data (st, h)" using l by (simp_all add: server_logged_def)
  then show "hist_ok ws (if nd = 0 then hist_connect c h else h)" by (simp add: hist_connect_ok)
  show "sh_log (if nd = 0 then hist_connect c h else h) = sh_log h" by (simp add: hist_connect_def)
  have "sh_read h (c, Suc (sh_gen h c)) = []" using h(1) by (simp add: hist_ok_def)
  with h(2) new_session_client [OF bb] show "sess_ok ops ok data
      (tcp_server_on_connect ops nd hp j c st, if nd = 0 then hist_connect c h else h)"
    by (auto simp: sess_ok_def hist_connect_def tcp_server_on_connect_def Let_def case_prod_beta
        split_incomplete)
qed

lemma logged_message:
  assumes bb: "bytes_buffer_ok ops ok data" and l: "server_logged ops ok data ws w (st, h)"
    and ws: "\<And>k f. f \<in> set (ws k) \<Longrightarrow> valid_frame f" and al: "logged_allowed ws (SvMessage c rds) U (st, h)"
  shows "is_client st c \<Longrightarrow> \<exists>s'. logged_event en ops (SvMessage c rds) (st, h) = Some s'"
    and "logged_event en ops (SvMessage c rds) (st, h) = Some s' \<Longrightarrow> server_logged ops ok data ws w s'"
proof -
  have h: "sess_ok ops ok data (st, h)" "hist_ok ws h" "log_trace w (sh_log h) (ss_world st)"
    using l by (simp_all add: server_logged_def)
  have client: "\<exists>s'. logged_event en ops (SvMessage c rds) (st, h) = Some s' \<and>
      server_logged ops ok data ws w s'" if cl: "is_client st c"
  proof -
    let ?D = "sh_read h (cur_conn h c)"
    obtain s where s: "ss_sess st c = Some s" "role s = SERVER_SESSION_ROLE_CLIENT"
      using cl by (auto simp: is_client_def)
    have s2: "client_session ops ok data s" "data (bytes_buf s) = snd (split_frames ?D)"
      using h(1) s by (auto simp: sess_ok_def)
    have net: "reads_ok rds" "prefix (?D @ concat rds) (concat (ws (cur_conn h c)))"
      using al cl by (simp_all add: logged_allowed_def)
    have wsc: "valid_frame f" if "f \<in> set (ws (cur_conn h c))" for f using that by (rule ws)
    obtain rest st' s' where r: "tcp_server_on_message en ops c rds st = Some (Some (rest, st'))"
      "prefix (?D @ concat (take (length rds - length rest) rds)) (concat (ws (cur_conn h c)))"
      "ss_sess st' = (ss_sess st)(c \<mapsto> s')" "client_session ops ok data s'"
      "data (bytes_buf s') = snd (split_frames (?D @ concat (take (length rds - length rest) rds)))"
      "log_trace (ss_world st)
        (map (\<lambda>f. (cur_conn h c, map_option (\<lambda>u. (u, sh_ups h)) (server_cur st), f))
          (fst (split_frames (snd (split_frames ?D) @ concat (take (length rds - length rest) rds)))))
        (ss_world st')"
      using server_message_client [OF bb s(1) s2 wsc net(2,1), where k = "cur_conn h c" and n = "sh_ups h"
          and en = en] by blast
    let ?h = "hist_read c (concat (take (length rds - length rest) rds))
        (map_option (\<lambda>u. (u, sh_ups h)) (server_cur st)) h"
    have "sess_ok ops ok data (st', ?h)"
      using h(1) r(3-5) by (auto simp: sess_ok_def hist_read_def Let_def)
    moreover have "log_trace w (sh_log ?h) (ss_world st')"
      using log_trace_trans [OF h(3) r(6)] by (simp add: hist_read_def Let_def)
    ultimately have "server_logged ops ok data ws w (st', ?h)"
      using hist_read_ok [OF h(2) r(2)] by (simp add: server_logged_def)
    with r(1) cl show ?thesis by (simp add: logged_event_def)
  qed
  then show "is_client st c \<Longrightarrow> \<exists>s'. logged_event en ops (SvMessage c rds) (st, h) = Some s'" by blast
  assume e: "logged_event en ops (SvMessage c rds) (st, h) = Some s'"
  show "server_logged ops ok data ws w s'"
  proof (cases "is_client st c")
    case True
    with client e show ?thesis by auto
  next
    case False
    with e obtain rest st' where m: "tcp_server_on_message en ops c rds st = Some (Some (rest, st'))"
      "s' = (st', h)"
      by (auto simp: logged_event_def split: option.splits)
    note q = server_message_other [OF m(1) False]
    have "sess_ok ops ok data (st', h)" unfolding sess_ok_def
    proof (clarify)
      fix c' s assume s: "ss_sess st' c' = Some s" "role s = SERVER_SESSION_ROLE_CLIENT"
      then have "is_client st c'" using q(2) [of c'] by (simp add: is_client_def)
      from q(3) [OF this] s h(1)
      show "client_session ops ok data s \<and> data (bytes_buf s) = snd (split_frames (sh_read h (cur_conn h c')))"
        by (simp add: sess_ok_def)
    qed
    with logged_quiet [OF l q(1) h(2)] m(2) show ?thesis by simp
  qed
qed

lemma logged_step:
  assumes bb: "bytes_buffer_ok ops ok data" and l: "server_logged ops ok data ws w s"
    and ws: "\<And>k f. f \<in> set (ws k) \<Longrightarrow> valid_frame f"
    and al: "logged_allowed ws e U s" and ev: "logged_event en ops e s = Some s'"
  shows "server_logged ops ok data ws w s'"
proof -
  obtain st h where s: "s = (st, h)" by (cases s)
  have h: "sess_ok ops ok data (st, h)" "hist_ok ws h" using l by (simp_all add: s server_logged_def)
  note quiet = logged_quiet [OF l [unfolded s] _ h(2) _ refl]
  show ?thesis
  proof (cases e)
    case (SvListen c p)
    have "sess_ok ops ok data
        (tcp_server_on_add_ctx ops (aa_nodelay p) (aa_huge p) (aa_junk p) c CtxTcpListen st, h)"
      using h(1) by (simp only: sess_ok_same [OF server_listen_sess])
    with quiet [OF server_listen_quiet] ev show ?thesis
      by (auto simp: SvListen s logged_event_def server_event_def)
  next
    case (SvConnect c p)
    with ev logged_connect [OF bb l [unfolded s]] show ?thesis
      by (auto simp: s logged_event_def server_event_def)
  next
    case (SvCloseClient c)
    have "sess_ok ops ok data (tcp_server_on_close c st, h)"
      using h(1) by (simp only: sess_ok_same [OF server_close_sess])
    with quiet [OF server_close_quiet] ev show ?thesis
      by (auto simp: SvCloseClient s logged_event_def server_event_def)
  next
    case (SvRelease c)
    have "sess_ok ops ok data (tcp_server_on_release c st, h)"
      using h(1) by (auto simp: sess_ok_def tcp_server_on_release_def Let_def split: option.splits if_splits)
    with quiet [OF server_release_quiet] ev show ?thesis
      by (auto simp: SvRelease s logged_event_def server_event_def)
  next
    case (SvMessage c rds)
    from al have "logged_allowed ws (SvMessage c rds) U (st, h)" by (simp add: s SvMessage)
    from logged_message(2) [OF bb l [unfolded s] ws this] ev show ?thesis by (simp add: s SvMessage)
  qed
qed

abbreviation server_log_life ::
  "env \<Rightarrow> 'b bytes_buffer \<Rightarrow> (conn \<Rightarrow> bytes list) \<Rightarrow> world \<Rightarrow> 'b logged_server life_state \<Rightarrow> bool" where
  "server_log_life en ops ws w \<equiv> life (logged_add ops) logged_close (logged_event en ops)
     (logged_allowed ws) logged_conns (server_start w, hist_start)"

lemma server_logged_reachable:
  assumes life: "server_log_life en ops ws w ls" and bb: "bytes_buffer_ok ops ok data"
    and ws: "\<And>k f. f \<in> set (ws k) \<Longrightarrow> valid_frame f"
  shows "server_logged ops ok data ws w (lf_app ls)"
proof (rule life_preserved [OF life])
  show "server_logged ops ok data ws w (server_start w, hist_start)"
    by (simp add: server_logged_def sess_ok_def server_start_def hist_start_ok)
      (simp add: hist_start_def)
next
  fix p c and s :: "'a logged_server"
  obtain st h where s: "s = (st, h)" by (cases s)
  assume "server_logged ops ok data ws w s"
  then have l: "server_logged ops ok data ws w (st, h)" by (simp add: s)
  have "sess_ok ops ok data (server_add ops p c st, h\<lparr>sh_ups := Suc (sh_ups h)\<rparr>)"
    using l by (auto simp: server_logged_def sess_ok_def server_add_def tcp_server_on_add_ctx_def
        Let_def case_prod_beta)
  with l logged_quiet [OF l server_add_quiet, of "h\<lparr>sh_ups := Suc (sh_ups h)\<rparr>" ops p c] hist_up_ok [of ws h]
  show "server_logged ops ok data ws w (logged_add ops p c s)"
    by (simp add: s logged_add_def server_logged_def)
next
  fix c and s :: "'a logged_server"
  obtain st h where s: "s = (st, h)" by (cases s)
  assume "server_logged ops ok data ws w s"
  then have l: "server_logged ops ok data ws w (st, h)" by (simp add: s)
  have "sess_ok ops ok data (tcp_server_on_close c st, h)"
    using l by (simp add: server_logged_def sess_ok_same [OF server_close_sess])
  with l logged_quiet [OF l server_close_quiet, of h c]
  show "server_logged ops ok data ws w (logged_close c s)"
    by (simp add: s logged_close_def server_logged_def)
next
  fix q U and s s' :: "'a logged_server"
  assume "server_logged ops ok data ws w s" "logged_allowed ws q U s" "logged_event en ops q s = Some s'"
  then show "server_logged ops ok data ws w s'"
    using logged_step [OF bb, of ws w s q U en s'] ws by blast
qed

lemma server_log_of_conn:
  assumes "hist_ok ws h" and "\<And>f. f \<in> set (ws k) \<Longrightarrow> valid_frame f"
  shows "prefix (of_conn k (sh_log h)) (ws k)"
    and "concat (of_conn k (sh_log h)) @ snd (split_frames (sh_read h k)) = sh_read h k"
proof -
  have l: "of_conn k (sh_log h) = fst (split_frames (sh_read h k))" using assms(1) unfolding hist_ok_def by blast
  show "concat (of_conn k (sh_log h)) @ snd (split_frames (sh_read h k)) = sh_read h k"
    unfolding l by (rule frames.split_concat)
  have "prefix (sh_read h k) (concat (ws k))" using assms(1) unfolding hist_ok_def by blast
  then obtain e where "concat (ws k) = sh_read h k @ e" by (auto simp: prefix_def)
  from split_frames_prefix [OF assms(2) this] show "prefix (of_conn k (sh_log h)) (ws k)"
    unfolding l using take_is_prefix by metis
qed

text \<open>Every message written is one the server can handle: at least header and data block.\<close>

definition writes_ok :: "(conn \<Rightarrow> bytes list) \<Rightarrow> bool" where
  "writes_ok ws \<longleftrightarrow> (\<forall>k. \<forall>f \<in> set (ws k). valid_frame f)"

lemma server_log_spec:
  assumes "server_log_life en ops ws w ls" and "bytes_buffer_ok ops ok data"
    and "writes_ok ws" and "lf_app ls = (st, h)"
  shows "log_trace w (sh_log h) (ss_world st)" and "sorted (log_ups (sh_log h))"
    and "prefix (of_conn k (sh_log h)) (ws k)"
    and "\<exists>r. incomplete r \<and> concat (of_conn k (sh_log h)) @ r = sh_read h k"
    and "is_client st c \<Longrightarrow> logged_allowed ws (SvMessage c rds) U (st, h) \<Longrightarrow>
      \<exists>s'. logged_event en ops (SvMessage c rds) (st, h) = Some s'"
proof -
  have ws: "valid_frame f" if "f \<in> set (ws k)" for k f using assms(3) that unfolding writes_ok_def by blast
  have "server_logged ops ok data ws w (lf_app ls)"
    by (rule server_logged_reachable [OF assms(1,2)]) (rule ws)
  then have l: "server_logged ops ok data ws w (st, h)" by (simp only: assms(4))
  then show "log_trace w (sh_log h) (ss_world st)" by (simp add: server_logged_def)
  from l have h: "hist_ok ws h" by (simp add: server_logged_def)
  then show "sorted (log_ups (sh_log h))" unfolding hist_ok_def by blast
  show "prefix (of_conn k (sh_log h)) (ws k)" by (rule server_log_of_conn(1) [OF h]) (erule ws)
  have "concat (of_conn k (sh_log h)) @ snd (split_frames (sh_read h k)) = sh_read h k"
    by (rule server_log_of_conn(2) [OF h]) (erule ws)
  then show "\<exists>r. incomplete r \<and> concat (of_conn k (sh_log h)) @ r = sh_read h k"
    using split_rest_incomplete by blast
  show "is_client st c \<Longrightarrow> logged_allowed ws (SvMessage c rds) U (st, h) \<Longrightarrow>
      \<exists>s'. logged_event en ops (SvMessage c rds) (st, h) = Some s'"
    by (rule logged_message(1) [OF assms(2) l]) (erule ws)
qed

text \<open>Without its history a life is a life of the server, so what holds there holds here.\<close>

lemma server_log_life_plain:
  assumes "server_log_life en ops ws w ls"
  shows "life (server_add ops) tcp_server_on_close (server_event en ops) server_allowed server_conns
    (server_start w) \<lparr>lf_open = lf_open ls, lf_pending = lf_pending ls, lf_app = fst (lf_app ls)\<rparr>"
proof (rule life_map [OF assms])
  show "fst (logged_add ops p c s) = server_add ops p c (fst s)" for p c and s :: "'a logged_server"
    by (cases s) (simp add: logged_add_def)
  show "fst (logged_close c s) = tcp_server_on_close c (fst s)" for c and s :: "'a logged_server"
    by (cases s) (simp add: logged_close_def)
  show "logged_conns s = server_conns (fst s)" for s :: "'a logged_server"
    by (cases s) (simp add: logged_conns_def)
qed (simp_all add: logged_event_fst logged_allowed_fst)

lemma server_log_open:
  assumes "server_log_life en ops ws w ls"
  shows "lf_open ls = set_option (server_cur (fst (lf_app ls)))"
  using server_life.life_invariant [OF server_log_life_plain [OF assms]]
  by (simp add: server_good_def server_start_def)

section \<open>Properties\<close>

text \<open>C3: The TCP server over its whole life refines its history: clients connect, send, go and connect again in
  any order, while the upstream is lost and connected again. What it has written is exactly the log of the
  complete messages read from clients while there was an upstream, each written to the upstream connection
  of that moment; a receive record and, when it was sent on, a send record of every message are committed, in that
  order, and nothing else. Of each connection the messages are the first ones written to it, in order, none
  twice and none left out but what is not complete yet. The connection it sends on to is the open one. A
  message event of a client always returns.\<close>

theorem tcp_server_refines_history:
  assumes "server_log_life en ops ws w ls" and "bytes_buffer_ok ops ok data" and "writes_ok ws"
    and "lf_app ls = (st, h)"
  shows "all_written (trace (ss_world st)) = all_written (trace w) @ sent_on (\<lambda>up. up \<noteq> None) (sh_log h) \<and>
    (\<forall>u. written_to u (trace (ss_world st)) =
      written_to u (trace w) @ sent_on (\<lambda>up. map_option fst up = Some u) (sh_log h)) \<and>
    map rec_key (committed (trace (ss_world st))) =
      map rec_key (committed (trace w)) @ log_records (sh_log h) \<and>
    sorted (log_ups (sh_log h)) \<and>
    (\<forall>k. prefix (of_conn k (sh_log h)) (ws k) \<and>
      (\<exists>r. incomplete r \<and> concat (of_conn k (sh_log h)) @ r = sh_read h k)) \<and>
    lf_open ls = set_option (server_cur st) \<and>
    (\<forall>c rds U. is_client st c \<and> logged_allowed ws (SvMessage c rds) U (st, h) \<longrightarrow>
      (\<exists>s'. logged_event en ops (SvMessage c rds) (st, h) = Some s'))"
proof (intro conjI allI impI)
  show "lf_open ls = set_option (server_cur st)" using server_log_open [OF assms(1)] by (simp add: assms(4))
  show "all_written (trace (ss_world st)) = all_written (trace w) @ sent_on (\<lambda>up. up \<noteq> None) (sh_log h)"
    "map rec_key (committed (trace (ss_world st))) = map rec_key (committed (trace w)) @ log_records (sh_log h)"
    "\<And>u. written_to u (trace (ss_world st)) =
      written_to u (trace w) @ sent_on (\<lambda>up. map_option fst up = Some u) (sh_log h)"
    using server_log_spec(1) [OF assms] unfolding log_trace_def by blast+
qed (rule server_log_spec(2-4) [OF assms] | elim conjE, erule (1) server_log_spec(5) [OF assms])+

text \<open>Upstream 3 is connected, client 4 connects and sends a message and most of a second one, and the
  upstream goes away.\<close>

definition demo_ws :: "conn \<Rightarrow> bytes list" where
  "demo_ws k = (if k = (4, 1) then demo_msgs else [])"

lemma demo_ws_ok: "writes_ok demo_ws"
  using demo_msgs_valid by (auto simp: writes_ok_def demo_ws_def)

definition demo_read :: bytes where
  "demo_read = msg_head demo_args 0 @ take 12 (msg_head demo_args 1)"

lemma demo_read_frames: "fst (split_frames demo_read) = [msg_head demo_args 0]"
proof -
  have "prefix demo_read (concat demo_msgs)"
    by (rule prefixI [of _ _ "drop 12 (msg_head demo_args 1)"]) (simp add: demo_read_def demo_msgs_def del: demo_reads_simps)
  have f: "is_frame (msg_head demo_args q)" for q using demo_valid_frame by (simp add: valid_frame_def)
  have "incomplete (take 12 (msg_head demo_args 1))"
    by (simp add: incomplete_def frame_len_def msg_head_def hdr.dec_enc dec_hdr_append)
  with f show ?thesis by (simp add: demo_read_def split_frame split_incomplete)
qed

lemma one_read_rest:
  assumes "tcp_server_on_message en (list_bb t) c [bs] st = Some (Some (rest, st'))"
    and "ss_sess st c = Some s" and "bytes_buf s = (NET_BENCH_TCP_BUF_SIZE, [])"
    and "bs \<noteq> []" and "length bs \<le> 100"
  shows "rest = []"
proof -
  have "read_loop (list_bb t) c [bs] (bytes_buf s) w = (False, [], (NET_BENCH_TCP_BUF_SIZE, bs), w)" for w
    using assms(3-5) by (subst read_loop.simps, simp add: list_bb_limit_def, subst read_loop.simps)
      (simp add: list_bb_limit_def)
  with assms(1,2) show ?thesis
    by (auto simp: tcp_server_on_message_def nb_tcp_session_on_msg_def Let_def split: prod.splits if_splits)
qed

lemma demo_server_life:
  "\<exists>ls st h. server_log_life demo_env (list_bb True) demo_ws world0 ls \<and> lf_app ls = (st, h) \<and>
    lf_open ls = {} \<and> sh_log h = [((4, 1), Some (3, 1), msg_head demo_args 0)]"
proof -
  let ?L = "server_log_life demo_env (list_bb True) demo_ws world0"
  let ?p = "\<lparr>aa_nodelay = 0, aa_huge = True, aa_junk = 0\<rparr>"
  let ?m = "SvMessage 4 [demo_read]"
  let ?s0 = "(server_start world0, hist_start) :: (nat \<times> bytes) logged_server"
  let ?s1 = "logged_add (list_bb True) ?p 3 ?s0"
  have "?L \<lparr>lf_open = {}, lf_pending = 1, lf_app = ?s0\<rparr>" by (rule life.start)
  from life.add [OF this, where c = 3 and p = ?p]
  obtain n1 where l1: "?L \<lparr>lf_open = {3}, lf_pending = n1, lf_app = ?s1\<rparr>" by auto
  obtain s2 where e2: "logged_event demo_env (list_bb True) (SvConnect 4 ?p) ?s1 = Some s2"
    by (simp add: logged_event_def logged_add_def server_event_def)
  have a2: "logged_allowed demo_ws (SvConnect 4 ?p) {3} ?s1"
    by (simp add: logged_allowed_def logged_add_def server_allowed_def)
  from life.other [OF l1, of "SvConnect 4 ?p" s2] a2 e2
  obtain n2 where l2: "?L \<lparr>lf_open = {3}, lf_pending = n2, lf_app = s2\<rparr>" by auto
  obtain st2 h2 where s2: "s2 = (st2, h2)" by (cases s2)
  from e2 s2 have h2: "sh_gen h2 4 = Suc 0" "sh_read h2 (4, Suc 0) = []" "sh_log h2 = []" "sh_ups h2 = Suc 0"
    "server_cur st2 = Some 3" and
    cl: "\<exists>s. ss_sess st2 4 = Some s \<and> role s = SERVER_SESSION_ROLE_CLIENT \<and> bytes_buf s = (NET_BENCH_TCP_BUF_SIZE, [])"
    by (auto simp: logged_event_def logged_add_def server_event_def hist_connect_def hist_start_def
        server_add_def tcp_server_on_add_ctx_def tcp_server_on_connect_def nb_tcp_session_new_def Let_def)
  then have c4: "is_client st2 4" by (auto simp: is_client_def)
  have "prefix demo_read (concat demo_msgs)"
    by (rule prefixI [of _ _ "drop 12 (msg_head demo_args 1)"])
      (simp add: demo_read_def demo_msgs_def del: demo_reads_simps)
  moreover have dl: "length demo_read = 28" by (simp add: demo_read_def)
  ultimately have a3: "logged_allowed demo_ws ?m {3} (st2, h2)"
    by (simp add: logged_allowed_def server_allowed_def h2(1,2) demo_ws_def reads_ok_def del: demo_reads_simps)
  obtain s3 where e3: "logged_event demo_env (list_bb True) ?m (st2, h2) = Some s3"
    using server_log_spec(5) [OF l2 list_bb_contract demo_ws_ok _ c4 a3] s2 by auto
  from life.other [OF l2, of ?m s3] a3 e3 s2
  obtain n3 where l3: "?L \<lparr>lf_open = {3}, lf_pending = n3, lf_app = s3\<rparr>" by auto
  obtain rest st3 where m: "tcp_server_on_message demo_env (list_bb True) 4 [demo_read] st2 = Some (Some (rest, st3))"
    "s3 = (st3, hist_read 4 (concat (take (Suc 0 - length rest) [demo_read])) (Some (3, 1)) h2)"
    using e3 c4 h2(4,5) by (auto simp: logged_event_def split: option.splits)
  obtain s where "ss_sess st2 4 = Some s" and "bytes_buf s = (NET_BENCH_TCP_BUF_SIZE, [])" using cl by blast
  moreover have "demo_read \<noteq> []" using dl by auto
  ultimately have "rest = []" using one_read_rest [OF m(1)] dl by simp
  then have h3: "snd s3 = hist_read 4 demo_read (Some (3, 1)) h2" by (simp add: m(2))
  have "sh_log (snd s3) = [((4, 1), Some (3, 1), msg_head demo_args 0)]"
    by (simp add: h3 hist_read_def Let_def h2(1-3) split_incomplete demo_read_frames)
  moreover from life.close [OF l3, of 3]
  obtain n4 where "?L \<lparr>lf_open = {}, lf_pending = n4, lf_app = logged_close 3 s3\<rparr>" by auto
  ultimately show ?thesis
    by (intro exI [of _ "\<lparr>lf_open = {}, lf_pending = n4, lf_app = logged_close 3 s3\<rparr>"])
      (cases s3; simp add: logged_close_def)
qed

theorem tcp_server_refines_history_witness:
  "\<exists>ls st h. server_log_life demo_env (list_bb True) demo_ws world0 ls \<and> lf_app ls = (st, h) \<and>
    written_to 3 (trace (ss_world st)) = [msg_head demo_args 0] \<and>
    map rec_key (committed (trace (ss_world st))) =
      [(7, 0, 16, ''server.rcv''), (7, 0, 16, ''server.snd_begin'')]"
proof -
  obtain ls st h where l: "server_log_life demo_env (list_bb True) demo_ws world0 ls" "lf_app ls = (st, h)"
    "sh_log h = [((4, 1), Some (3, 1), msg_head demo_args 0)]"
    using demo_server_life by blast
  have "frame_key (msg_head demo_args 0) act = (7, 0, 16, act)" for act
    by (simp add: frame_key_def msg_head_def hdr.dec_enc dec_hdr_append data.dec_enc_exact Let_def)
  with tcp_server_refines_history [OF l(1) list_bb_contract demo_ws_ok l(2)] l
  show ?thesis
    by (intro exI [of _ ls] exI [of _ st] exI [of _ h])
      (simp add: l(3) sent_on_def log_records_def committed.simps)
qed

end
