(* ===== verification/TcpSystemLife.thy ===== *)
theory TcpSystemLife
  imports TcpSystem TcpServerLog
begin

text \<open>
  The whole TCP system over its whole life: any number of clients whose connections break and are
  made again, a server that any of them comes to and leaves, and whose own connection to the
  upstream breaks and is made again, and the upstream. The network may cut every connection off
  anywhere.
\<close>

section \<open>Messages of a log\<close>

lemma subseq_mapD: "subseq xs (map f ys) \<Longrightarrow> \<exists>zs. subseq zs ys \<and> xs = map f zs"
proof (induction ys arbitrary: xs)
  case (Cons y ys)
  show ?case
  proof (cases "subseq xs (map f ys)")
    case True
    with Cons.IH show ?thesis by blast
  next
    case False
    with Cons.prems obtain xs' where xs: "xs = f y # xs'" "subseq xs' (map f ys)"
      by (cases xs) (auto split: if_splits)
    from Cons.IH [OF xs(2)] obtain zs where "subseq zs ys" "xs' = map f zs" by blast
    with xs(1) show ?thesis by (intro exI [of _ "y # zs"]) simp
  qed
next
  case Nil
  then have "xs = []" by (auto dest: list_emb_Nil2)
  then show ?case by simp
qed

lemma subseq_of_conn: "subseq xs ys \<Longrightarrow> subseq (of_conn k xs) (of_conn k ys)"
  unfolding of_conn_def by (intro subseq_map subseq_filter)

lemma of_conn_in: "(k, up, m) \<in> set l \<Longrightarrow> m \<in> set (of_conn k l)"
  by (force simp: of_conn_def)

lemma subseq_takeD: "subseq (take i xs) xs"
  by (simp add: take_is_prefix prefix_imp_subseq)

lemma subseq_in: "subseq xs ys \<Longrightarrow> x \<in> set xs \<Longrightarrow> x \<in> set ys"
  using list_emb_set [of "(=)" xs ys x] by metis

text \<open>What was delivered of the writes to one connection of the upstream is a part of the log.\<close>

lemma delivered_log:
  assumes "subseq fwd (sent_on (\<lambda>up. up = Some j) l)"
  shows "\<exists>fl. subseq fl l \<and> fwd = map (\<lambda>(k, up, f). f) fl \<and> (\<forall>(k, up, f) \<in> set fl. up = Some j)"
proof -
  obtain fl where fl: "subseq fl (filter (\<lambda>(k, up, f). up = Some j) l)" "fwd = map (\<lambda>(k, up, f). f) fl"
    using subseq_mapD [OF assms [unfolded sent_on_def]] by blast
  have "subseq fl l" by (rule subseq_order.trans [OF fl(1)]) simp
  moreover have "(case e of (k, up, f) \<Rightarrow> up = Some j)" if "e \<in> set fl" for e
    using subseq_in [OF fl(1) that] by auto
  ultimately show ?thesis using fl(2) by blast
qed

text \<open>The record of a message, from the options of the client it came from.\<close>

definition run_key :: "nb_sys_args_t \<Rightarrow> bytes \<Rightarrow> string \<Rightarrow> u32 \<times> u32 \<times> u32 \<times> string" where
  "run_key a m act = (user_id a, word_of_nat (seq_of m), msg_size a, act)"

section \<open>Properties\<close>

text \<open>C2: The TCP system over its whole life, with any number of clients. Clients lose their connections and come
  back, the server loses its upstream and connects again, writes fail and are repeated, and the network cuts
  every connection off anywhere. Every message the server has ever taken is a message of the configured run of
  the client whose connection it came from; the server has committed exactly the records of these
  messages, with that client's user id, the sequence number and its message size. Of each connection
  to the upstream, the upstream commits records of messages the server sent on to this connection only, in the
  server's order and none twice, and those of one client connection are in the order the client wrote
  them.\<close>

theorem tcp_system_life:
  assumes "\<And>k. k \<in> K \<Longrightarrow> client_runs (enc (own k)) (a (own k)) (opc (own k)) (fill (own k)) (mem (own k)) (cl (own k))"
    and "\<And>k. k \<in> K \<Longrightarrow> subseq (ws k) (all_written (trace (cs_world (cl (own k)))))"
    and "\<And>k. k \<notin> K \<Longrightarrow> ws k = []"
    and "server_log_life ens ops ws w ls" and "bytes_buffer_ok ops ok data" and "lf_app ls = (st, h)"
    and "committed (trace w) = []"
    and "subseq fwd (sent_on (\<lambda>up. up = Some j) (sh_log h))" and "concat fwd = concat urds @ eb"
    and "upstream_receives ops2 ok2 data2 v us" and "upstream_pend data2 v us = []"
    and "committed (trace (us_world us)) = []" and "reads_ok urds"
  shows "(\<forall>(k, up, m) \<in> set (sh_log h). k \<in> K \<and> m \<in> set (ws k) \<and> seq_of m < n_msgs (a (own k)) \<and>
      m = slot (a (own k)) (mem (own k)) (seq_of m)) \<and>
    map rec_key (committed (trace (ss_world st))) = concat (map (\<lambda>(k, up, m).
      run_key (a (own k)) m ''server.rcv'' #
      (if up = None then [] else [run_key (a (own k)) m ''server.snd_begin''])) (sh_log h)) \<and>
    (\<exists>urest us' fl i. drain (tcp_upstream_on_message enu ops2 v) n urds us = Some (Some (urest, us')) \<and>
      subseq fl (sh_log h) \<and> (\<forall>(k, up, m) \<in> set fl. up = Some j) \<and>
      map rec_key (committed (trace (us_world us'))) =
        map (\<lambda>(k, up, m). run_key (a (own k)) m ''upstream.rcv'') (take i fl) \<and>
      (\<forall>k. subseq (of_conn k (take i fl)) (ws k)))"
proof -
  have sent: "m \<in> set (all_written (trace (cs_world (cl (own k)))))" if "k \<in> K" "m \<in> set (ws k)" for k m
    using assms(2) that by (blast intro: subseq_in)
  note msg = client_runs_message [OF assms(1) sent]
  have inK: "k \<in> K" if "m \<in> set (ws k)" for k m using that assms(3) [of k] by (cases "k \<in> K") simp_all
  have "writes_ok ws" using msg(3) inK unfolding writes_ok_def by blast
  note spec = server_log_spec [OF assms(4,5) this assms(6)]
  have from_ws: "m \<in> set (ws k)" if "(k, up, m) \<in> set (sh_log h)" for k up m
    using set_mono_prefix [OF spec(3)] of_conn_in [OF that] by blast
  have good: "k \<in> K" "m \<in> set (ws k)" "seq_of m < n_msgs (a (own k))"
    "m = slot (a (own k)) (mem (own k)) (seq_of m)" "valid_frame m"
    and key: "frame_key m act = run_key (a (own k)) m act"
    if "(k, up, m) \<in> set (sh_log h)" for k up m act
    using from_ws [OF that] inK msg [of k m] unfolding run_key_def by metis+
  obtain fl where fl: "subseq fl (sh_log h)" "fwd = map (\<lambda>(k, up, f). f) fl"
    "\<forall>(k, up, f) \<in> set fl. up = Some j"
    using delivered_log [OF assms(8)] by blast
  have fl_in: "e \<in> set (sh_log h)" if "e \<in> set fl" for e using fl(1) that by (rule subseq_in)
  have vfwd: "valid_frame f" if "f \<in> set fwd" for f
  proof -
    obtain k up where "(k, up, f) \<in> set fl" using \<open>f \<in> set fwd\<close> by (auto simp: fl(2))
    from good(5) [OF fl_in [OF this]] show ?thesis .
  qed
  obtain i urest us' where u: "drain (tcp_upstream_on_message enu ops2 v) n urds us = Some (Some (urest, us'))"
    "map rec_key (committed (trace (us_world us'))) = map (\<lambda>f. frame_key f ''upstream.rcv'') (take i fwd)"
    using upstream_log.drain_messages [OF assms(10,13,11) vfwd assms(9), where n = n and en = enu] assms(12)
    unfolding concat_map_singleton by auto
  have "map (\<lambda>f. frame_key f ''upstream.rcv'') (take i fwd) =
      map (\<lambda>(k, up, m). run_key (a (own k)) m ''upstream.rcv'') (take i fl)"
  proof -
    have "frame_key m act = run_key (a (own k)) m act" if "(k, up, m) \<in> set (take i fl)" for k up m act
      using key [OF fl_in [OF in_set_takeD [OF that]]] .
    then show ?thesis by (auto simp: fl(2) take_map)
  qed
  moreover have "subseq (of_conn k (take i fl)) (ws k)" for k
    using subseq_of_conn [OF subseq_takeD, of k i fl] subseq_of_conn [OF fl(1), of k]
      prefix_imp_subseq [OF spec(3)] subseq_order.trans by metis
  ultimately have up: "\<exists>urest us' fl i.
      drain (tcp_upstream_on_message enu ops2 v) n urds us = Some (Some (urest, us')) \<and>
      subseq fl (sh_log h) \<and> (\<forall>(k, up, m) \<in> set fl. up = Some j) \<and>
      map rec_key (committed (trace (us_world us'))) =
        map (\<lambda>(k, up, m). run_key (a (own k)) m ''upstream.rcv'') (take i fl) \<and>
      (\<forall>k. subseq (of_conn k (take i fl)) (ws k))"
    using u fl(1,3) by (intro exI conjI allI) auto
  have "map rec_key (committed (trace (ss_world st))) = log_records (sh_log h)"
    using spec(1) assms(7) by (simp add: log_trace_def)
  moreover have "log_records (sh_log h) = concat (map (\<lambda>(k, up, m).
      run_key (a (own k)) m ''server.rcv'' #
      (if up = None then [] else [run_key (a (own k)) m ''server.snd_begin''])) (sh_log h))"
    unfolding log_records_def using key by (intro arg_cong [where f = concat] map_cong [OF refl]) auto
  ultimately show ?thesis using good(1-4) up by auto
qed

theorem tcp_system_life_witness:
  "\<exists>st ls sv h urest us' fl i.
    client_runs demo_env_fail demo_args (list_bb True) (\<lambda>_. 0) demo_mem st \<and>
    server_log_life demo_env (list_bb True) demo_ws world0 ls \<and> lf_app ls = (sv, h) \<and>
    map rec_key (committed (trace (ss_world sv))) =
      [run_key demo_args (msg_head demo_args 0) ''server.rcv'', run_key demo_args (msg_head demo_args 0) ''server.snd_begin''] \<and>
    drain (tcp_upstream_on_message demo_env (list_bb False) 4) 2 [msg_head demo_args 0] demo_upstream =
      Some (Some (urest, us')) \<and>
    subseq (fl :: forwarded list) (sh_log h) \<and>
    map rec_key (committed (trace (us_world us'))) =
      map (\<lambda>(k, up, m). run_key demo_args m ''upstream.rcv'') (take i fl)"
proof -
  obtain st where st: "client_runs demo_env_fail demo_args (list_bb True) (\<lambda>_. 0) demo_mem st"
    "all_written (trace (cs_world st)) = demo_msgs"
    using demo_client_life unfolding demo_msgs_def by blast
  obtain ls sv h where l: "server_log_life demo_env (list_bb True) demo_ws world0 ls" "lf_app ls = (sv, h)"
    "sh_log h = [((4, 1), Some (3, 1), msg_head demo_args 0)]"
    using demo_server_life by blast
  have ws: "subseq (demo_ws k) (all_written (trace (cs_world st)))" if "k \<in> {(4, 1)}" for k
    using that by (simp add: demo_ws_def st(2))
  have no: "demo_ws k = []" if "k \<notin> {(4, 1)}" for k using that by (auto simp: demo_ws_def)
  have fwd: "subseq [msg_head demo_args 0] (sent_on (\<lambda>up. up = Some (3, 1)) (sh_log h))"
    by (simp add: l(3) sent_on_def)
  have urds: "reads_ok [msg_head demo_args 0]" by (simp add: reads_ok_def)
  have stream: "concat [msg_head demo_args 0] = concat [msg_head demo_args 0] @ []" by simp
  have c0: "committed (trace world0) = []" and c1: "committed (trace (us_world demo_upstream)) = []" by simp_all
  from tcp_system_life [where K = "{(4, 1)}" and own = "\<lambda>_. ()" and enc = "\<lambda>_. demo_env_fail" and opc = "\<lambda>_. list_bb True"
      and fill = "\<lambda>_ _. 0" and cl = "\<lambda>_. st" and a = "\<lambda>_. demo_args" and mem = "\<lambda>_. demo_mem"
      and n = 2 and enu = demo_env, OF st(1) ws no l(1) list_bb_contract l(2) c0 fwd stream demo_upstream_simps(1) [of False]
      demo_upstream_simps(2) c1 urds]
  obtain urest us' fl i where
    "drain (tcp_upstream_on_message demo_env (list_bb False) 4) 2 [msg_head demo_args 0] demo_upstream =
      Some (Some (urest, us'))" "subseq fl (sh_log h)"
    "map rec_key (committed (trace (us_world us'))) =
      map (\<lambda>(k, up, m). run_key demo_args m ''upstream.rcv'') (take i fl)" and
    r: "map rec_key (committed (trace (ss_world sv))) = concat (map (\<lambda>(k, up, m).
      run_key demo_args m ''server.rcv'' #
      (if up = None then [] else [run_key demo_args m ''server.snd_begin''])) (sh_log h))"
    by auto
  moreover have "map rec_key (committed (trace (ss_world sv))) =
      [run_key demo_args (msg_head demo_args 0) ''server.rcv'', run_key demo_args (msg_head demo_args 0) ''server.snd_begin'']"
    using r by (simp add: l(3))
  ultimately show ?thesis using st(1) l(1,2) by (intro exI conjI)
qed

end
