(* ===== verification/UdpClient.thy ===== *)
theory UdpClient
  imports Demo Evloop RoundTimer TcpClient
begin

text \<open>
  The UDP client (\<open>app/udp_client\<close>). It shares the message array and the send loop
  with the TCP client and differs in how a message is sent, in the type of the elapsed
  milliseconds, in the callbacks (there is no close callback) and in the checks of
  \<open>run\<close>.
\<close>

section \<open>State and callbacks\<close>

record udp_client_evloop_data_t =
  uc_ctx :: "ctx option"
  uc_dst_sa :: sockaddr
  uc_last_ts :: timespec
  uc_round_index :: u32
  uc_datas :: bytes

definition udp_client_on_add_ctx ::
  "ctx \<Rightarrow> udp_client_evloop_data_t \<Rightarrow> world \<Rightarrow> udp_client_evloop_data_t \<times> world" where
  "udp_client_on_add_ctx c d w =
     (d\<lparr>uc_ctx := Some c\<rparr>, emit (Log L_INFO ''session add into evloop: local_addr=%s'') w)"

definition udp_send_one :: "env \<Rightarrow> nb_sys_args_t \<Rightarrow> ctx \<Rightarrow> sockaddr \<Rightarrow> send_one" where
  "udp_send_one en a c sa seq p w =
     (let w = netbench_record en (user_id a) seq (msg_size a) ''client.snd_begin'' w;
          (num_bytes, w) = sock_sendto en c p sa w
      in if num_bytes \<noteq> to_int (msg_size a)
         then (False, emits [Log L_ERROR ''failed write message: seq=%u, num_bytes=%d, err=%d[%s]'',
                             SockShutdown c] w)
         else (True, netbench_record en (user_id a) seq (msg_size a) ''client.snd_end'' w))"

text \<open>The same expression as in the TCP client, stored in a \<open>uint32_t\<close>.\<close>

definition udp_elapsed_ms :: "timespec \<Rightarrow> timespec \<Rightarrow> u32" where
  "udp_elapsed_ms ts last_ts =
     word_of_int ((tv_sec ts - tv_sec last_ts) * 1000 + c_div (tv_nsec ts) 1000000 -
       c_div (tv_nsec last_ts) 1000000)"

definition udp_client_on_timer ::
  "env \<Rightarrow> nb_sys_args_t \<Rightarrow> udp_client_evloop_data_t \<Rightarrow> world \<Rightarrow> (udp_client_evloop_data_t \<times> world) option"
where
  "udp_client_on_timer en a d w =
     (if round_num a \<le> uc_round_index d
      then Some (d, emits [Log L_INFO ''task[msg_size=%u] completed, exit evloop'', EvloopExit] w)
      else case uc_ctx d of
        None \<Rightarrow> Some (d, w)
      | Some c \<Rightarrow>
          (let (ts, w) = read_clock en w
           in if udp_elapsed_ms ts (uc_last_ts d) < round_interval_ms a then Some (d, w)
              else
                let d = d\<lparr>uc_last_ts := (uc_last_ts d)\<lparr>tv_sec := tv_sec ts, tv_nsec := tv_nsec ts\<rparr>\<rparr>;
                    w = emit (Log L_DEBUG ''round[%u] start'') w;
                    n = num_per_round a;
                    seq = uc_round_index d * n;
                    p = unat (uc_round_index d * n * msg_size a)
                in do { r \<leftarrow> send_round (udp_send_one en a c (uc_dst_sa d)) a 0 seq p (uc_datas d) w;
                        (case r of
                           (True, mem, w) \<Rightarrow>
                             Some (d\<lparr>uc_datas := mem, uc_round_index := uc_round_index d + 1\<rparr>,
                                   emit (Log L_DEBUG ''round[%u] completed'') w)
                         | (False, mem, w) \<Rightarrow> Some (d\<lparr>uc_datas := mem\<rparr>, w)) }))"

section \<open>run and main\<close>

text \<open>
  The test of the context of \<open>nb_udp_bind\<close> for NULL never fires: that function does not
  return NULL.
\<close>

definition udp_client_run ::
  "env \<Rightarrow> bool \<Rightarrow> resolver \<Rightarrow> (nat \<Rightarrow> u8) \<Rightarrow>
   (udp_client_evloop_data_t \<Rightarrow> world \<Rightarrow> run_result) \<Rightarrow> nb_sys_args_t \<Rightarrow> world \<Rightarrow> run_result" where
  "udp_client_run en ev_ok gai fill evloop a w =
     (if cstr (bind_host a) = ''''
      then Ran (emit (Log L_ERROR ''client run without bind host/port'') w)
      else if cstr (conn_host a) = '''' \<or> cstr (conn_port a) = ''''
      then Ran (emit (Log L_ERROR ''clinet run without connect host/port'') w)
      else
        let a = a\<lparr>serv_host := bind_host a\<rparr>;
            a = a\<lparr>serv_port := bind_port a\<rparr>;
            ((ret, sa), w) = socket_getaddrinfo gai (cstr (conn_host a)) (cstr (conn_port a)) w
        in if ret \<noteq> 0
           then Ran (emit (Log L_ERROR ''failed get addrinfo: host=%s, port=%s'') w)
           else with_evloop ev_ok [''add_ctx'', ''timer''] (to_int (round_interval_ms a)) a
             (\<lambda>w. add_opened (nb_udp_bind en a w)
               (\<lambda>w. let (t, w) = read_clock en w;
                        w = emit (Call ''malloc'' [ANat (unat (datas_size a))]) w
                    in case prepare_datas a fill of
                         None \<Rightarrow> OutOfBoundsRun
                       | Some mem \<Rightarrow>
                           evloop_run_and_delete
                             (evloop \<lparr>uc_ctx = None, uc_dst_sa = sa, uc_last_ts = t,
                                      uc_round_index = 0, uc_datas = mem\<rparr>)
                             [Call ''free'' []] w)) w)"

definition udp_client_main ::
  "env \<Rightarrow> bool \<Rightarrow> resolver \<Rightarrow> (nat \<Rightarrow> u8) \<Rightarrow>
   (udp_client_evloop_data_t \<Rightarrow> world \<Rightarrow> run_result) \<Rightarrow> init_result \<times> world \<Rightarrow> run_result" where
  "udp_client_main en ev_ok gai fill evloop =
     app_main (run_sizes (udp_client_run en ev_ok gai fill evloop))"

section \<open>What the sender does\<close>

definition udp_try_eff :: "env \<Rightarrow> nb_sys_args_t \<Rightarrow> ctx \<Rightarrow> sockaddr \<Rightarrow> nat \<Rightarrow> u32 \<Rightarrow> bytes \<Rightarrow> effect list" where
  "udp_try_eff en a c sa k seq buf =
     record_effects (rec_at en k (user_id a) seq (msg_size a) ''client.snd_begin'') @
     [SockSendto c buf sa]"

definition udp_msg_eff :: "env \<Rightarrow> nb_sys_args_t \<Rightarrow> ctx \<Rightarrow> sockaddr \<Rightarrow> nat \<Rightarrow> u32 \<Rightarrow> bytes \<Rightarrow> effect list" where
  "udp_msg_eff en a c sa k seq buf =
     udp_try_eff en a c sa k seq buf @
     record_effects (rec_at en (k + 1) (user_id a) seq (msg_size a) ''client.snd_end'')"

definition udp_fail_eff :: "env \<Rightarrow> nb_sys_args_t \<Rightarrow> ctx \<Rightarrow> sockaddr \<Rightarrow> nat \<Rightarrow> u32 \<Rightarrow> bytes \<Rightarrow> effect list" where
  "udp_fail_eff en a c sa k seq buf =
     udp_try_eff en a c sa k seq buf @
     [Log L_ERROR ''failed write message: seq=%u, num_bytes=%d, err=%d[%s]'', SockShutdown c]"

lemma udp_send_one_world:
  "\<exists>w'. udp_send_one en a c sa q buf w = (wr en (n_wr w) = to_int (msg_size a), w') \<and>
    trace w' = trace w @
      (if wr en (n_wr w) = to_int (msg_size a) then udp_msg_eff en a c sa (n_clk w) q buf
       else udp_fail_eff en a c sa (n_clk w) q buf) \<and>
    n_clk w' = n_clk w + (if wr en (n_wr w) = to_int (msg_size a) then 2 else 1) \<and>
    n_wr w' = n_wr w + 1"
  by (simp add: udp_send_one_def udp_fail_eff_def udp_msg_eff_def udp_try_eff_def sock_sendto_def)

interpretation udp_sender: observed_sender "udp_send_one en a c sa"
  "\<lambda>k. wr en k = to_int (msg_size a)"
  "udp_msg_eff en a c sa" "udp_fail_eff en a c sa" "sent_to c sa" for en a c sa
proof unfold_locales
  fix w q buf k and xs ys :: "effect list"
  show "\<exists>w'. udp_send_one en a c sa q buf w = (True, w') \<and>
      trace w' = trace w @ udp_msg_eff en a c sa (n_clk w) q buf \<and>
      n_clk w' = n_clk w + 2 \<and> n_wr w' = n_wr w + 1" if "wr en (n_wr w) = to_int (msg_size a)"
    using udp_send_one_world [of en a c sa q buf w] that by simp
  show "\<exists>w'. udp_send_one en a c sa q buf w = (False, w') \<and>
      trace w' = trace w @ udp_fail_eff en a c sa (n_clk w) q buf \<and> n_wr w' = n_wr w + 1"
    if "wr en (n_wr w) \<noteq> to_int (msg_size a)"
    using udp_send_one_world [of en a c sa q buf w] that by force
qed (simp_all add: udp_msg_eff_def udp_fail_eff_def udp_try_eff_def)

section \<open>The timer is a timer that works in rounds\<close>

definition udp_due :: "nb_sys_args_t \<Rightarrow> timespec \<Rightarrow> timespec \<Rightarrow> bool" where
  "udp_due a t last_ts \<longleftrightarrow> \<not> udp_elapsed_ms t last_ts < round_interval_ms a"

definition udp_of :: "sockaddr \<Rightarrow> round_state \<Rightarrow> udp_client_evloop_data_t" where
  "udp_of sa s = \<lparr>uc_ctx = rs_ctx s, uc_dst_sa = sa, uc_last_ts = rs_last_ts s, uc_round_index = rs_index s,
     uc_datas = rs_datas s\<rparr>"

abbreviation udp_of_w :: "sockaddr \<Rightarrow> round_state \<times> world \<Rightarrow> udp_client_evloop_data_t \<times> world" where
  "udp_of_w sa sw \<equiv> (udp_of sa (fst sw), snd sw)"

definition udp_tick ::
  "env \<Rightarrow> nb_sys_args_t \<Rightarrow> udp_client_evloop_data_t \<times> world \<Rightarrow> (udp_client_evloop_data_t \<times> world) option"
where
  "udp_tick en a s = udp_client_on_timer en a (fst s) (snd s)"

lemma udp_of_simps [simp]:
  "uc_ctx (udp_of sa s) = rs_ctx s" "uc_dst_sa (udp_of sa s) = sa" "uc_last_ts (udp_of sa s) = rs_last_ts s"
  "uc_round_index (udp_of sa s) = rs_index s" "uc_datas (udp_of sa s) = rs_datas s"
  by (simp_all add: udp_of_def)

lemma udp_of_surj: "\<exists>sa s. d = udp_of sa s"
proof (intro exI)
  show "d = udp_of (uc_dst_sa d) \<lparr>rs_ctx = uc_ctx d, rs_last_ts = uc_last_ts d,
      rs_index = uc_round_index d, rs_datas = uc_datas d\<rparr>"
    by (cases d) (simp add: udp_of_def)
qed

lemma udp_of_update [simp]:
  "udp_of sa (s\<lparr>rs_last_ts := t\<rparr>) = (udp_of sa s)\<lparr>uc_last_ts := t\<rparr>"
  "udp_of sa (s\<lparr>rs_index := i\<rparr>) = (udp_of sa s)\<lparr>uc_round_index := i\<rparr>"
  "udp_of sa (s\<lparr>rs_datas := m\<rparr>) = (udp_of sa s)\<lparr>uc_datas := m\<rparr>"
  by (simp_all add: udp_of_def)

lemma udp_timer_rounds:
  "udp_tick en a (udp_of_w sa sw) =
     map_option (udp_of_w sa) (round_timer en a (\<lambda>c. udp_send_one en a c sa) (udp_due a) sw)"
proof -
  obtain s w where sw: "sw = (s, w)" by (cases sw)
  show ?thesis
    by (auto simp: sw udp_tick_def udp_client_on_timer_def round_timer_def read_clock_def udp_due_def
        not_le Let_def split: option.split bind_split bool.split)
qed

lemma udp_ticks_rounds:
  "ticks (udp_tick en a) k (udp_of_w sa sw) =
     map_option (udp_of_w sa) (ticks (round_timer en a (\<lambda>c. udp_send_one en a c sa) (udp_due a)) k sw)"
  by (rule ticks_map [where f = "udp_of_w sa"]) (rule udp_timer_rounds)

lemma udp_timer_some:
  assumes "round_timer en a (\<lambda>c. udp_send_one en a c sa) (udp_due a) (s, w) = Some (s', w')"
  shows "udp_client_on_timer en a (udp_of sa s) w = Some (udp_of sa s', w')"
  using udp_timer_rounds [of en a sa "(s, w)"] assms by (simp add: udp_tick_def)

interpretation udp_round: round_sender en a "\<lambda>c. udp_send_one en a c sa" "udp_due a" "\<lambda>c. udp_msg_eff en a c sa"
  "\<lambda>c. udp_fail_eff en a c sa" "\<lambda>c. sent_to c sa" for en a sa
  by unfold_locales simp_all

definition udp_client_ok :: "nb_sys_args_t \<Rightarrow> udp_client_evloop_data_t \<Rightarrow> bool" where
  "udp_client_ok a d \<longleftrightarrow>
     config_ok a \<and> datas_ok a (uc_datas d) \<and> uc_round_index d \<le> round_num a"

lemma udp_client_ok_of [simp]: "udp_client_ok a (udp_of sa s) = round_state_ok a s"
  by (simp add: udp_client_ok_def round_state_ok_def)

section \<open>Properties\<close>

abbreviation demo_sa :: sockaddr where "demo_sa \<equiv> SockaddrIn 80 1"

text \<open>A due timer of a connected UDP client whose socket takes every message sends exactly the
  messages of the round, in order and unchanged, each between its two records with consecutive
  clock readings, and moves to the next round.\<close>

theorem udp_timer_sends_round:
  assumes "udp_client_ok a d" and "uc_round_index d < round_num a"
    and "uc_ctx d = Some c" and "udp_due a (clk en (n_clk w)) (uc_last_ts d)"
    and "\<And>j. j < unat (num_per_round a) \<Longrightarrow> wr en (n_wr w + j) = to_int (msg_size a)"
  shows "\<exists>w'. udp_client_on_timer en a d w =
      Some (d\<lparr>uc_last_ts := clk en (n_clk w), uc_round_index := uc_round_index d + 1\<rparr>, w') \<and>
    trace w' = trace w @ [Log L_DEBUG ''round[%u] start''] @
      round_effects (udp_msg_eff en a c (uc_dst_sa d)) (n_clk w + 1)
        (round_msgs a (uc_datas d) (unat (uc_round_index d))) @
      [Log L_DEBUG ''round[%u] completed''] \<and>
    sent_to c (uc_dst_sa d) (trace w') = sent_to c (uc_dst_sa d) (trace w) @
      round_slots a (uc_datas d) (unat (uc_round_index d)) \<and>
    n_wr w' = n_wr w + unat (num_per_round a)"
proof -
  obtain sa s where d: "d = udp_of sa s" using udp_of_surj by blast
  obtain w' where "round_timer en a (\<lambda>c. udp_send_one en a c sa) (udp_due a) (s, w) =
      Some (s\<lparr>rs_last_ts := clk en (n_clk w), rs_index := rs_index s + 1\<rparr>, w')"
    "trace w' = trace w @ [Log L_DEBUG ''round[%u] start''] @
      round_effects (udp_msg_eff en a c sa) (n_clk w + 1)
        (round_msgs a (rs_datas s) (unat (rs_index s))) @
      [Log L_DEBUG ''round[%u] completed'']" "n_wr w' = n_wr w + unat (num_per_round a)"
    using udp_round.tick_sends [where a = a and s = s and c = c and en = en and w = w and sa = sa] assms by (auto simp: d)
  then show ?thesis
    by (auto simp: d udp_round.obs_round dest: udp_timer_some)
qed

definition demo_udp :: udp_client_evloop_data_t where
  "demo_udp = \<lparr>uc_ctx = Some 3, uc_dst_sa = demo_sa, uc_last_ts = \<lparr>tv_sec = -5, tv_nsec = 0\<rparr>, uc_round_index = 0,
     uc_datas = demo_mem\<rparr>"

lemma demo_udp_simps [simp]:
  "uc_ctx demo_udp = Some 3" "uc_dst_sa demo_udp = demo_sa" "uc_round_index demo_udp = 0" "uc_datas demo_udp = demo_mem"
  "uc_last_ts demo_udp = \<lparr>tv_sec = -5, tv_nsec = 0\<rparr>"
  "udp_client_ok demo_args demo_udp"
  "udp_due demo_args \<lparr>tv_sec = 0, tv_nsec = 0\<rparr> \<lparr>tv_sec = -5, tv_nsec = 0\<rparr>"
  by (simp_all add: demo_udp_def udp_client_ok_def udp_due_def udp_elapsed_ms_def c_div_def)

theorem udp_timer_sends_round_witness:
  "\<exists>w'. udp_client_on_timer demo_env demo_args demo_udp world0 =
      Some (demo_udp\<lparr>uc_last_ts := \<lparr>tv_sec = 0, tv_nsec = 0\<rparr>, uc_round_index := 1\<rparr>, w') \<and>
    sent_to 3 demo_sa (trace w') = [msg_head demo_args 0, msg_head demo_args 1]"
  using udp_timer_sends_round [of demo_args demo_udp 3 demo_env world0]
  by auto

text \<open>When the socket does not take the message at position \<open>j\<close> of the round, the timer sends the
  messages before it and that one, logs the failure, shuts the socket down and stops, without the record that would end the
  failed send; array, context and round index are unchanged, so the whole round is sent again.\<close>

theorem udp_timer_write_failure:
  assumes "udp_client_ok a d" and "uc_round_index d < round_num a"
    and "uc_ctx d = Some c" and "udp_due a (clk en (n_clk w)) (uc_last_ts d)" and "j < unat (num_per_round a)"
    and "\<And>i. i < j \<Longrightarrow> wr en (n_wr w + i) = to_int (msg_size a)"
    and "wr en (n_wr w + j) \<noteq> to_int (msg_size a)"
  shows "\<exists>w' es. udp_client_on_timer en a d w = Some (d\<lparr>uc_last_ts := clk en (n_clk w)\<rparr>, w') \<and>
    trace w' = trace w @ es @ [Log L_ERROR ''failed write message: seq=%u, num_bytes=%d, err=%d[%s]'', SockShutdown c] \<and>
    SockShutdown c \<notin> set es \<and>
    map r_action (committed es) =
      concat (replicate j [''client.snd_begin'', ''client.snd_end'']) @ [''client.snd_begin''] \<and>
    sent_to c (uc_dst_sa d) es = take (Suc j) (round_slots a (uc_datas d) (unat (uc_round_index d)))"
proof -
  obtain sa s where s: "d = udp_of sa s" using udp_of_surj by blast
  let ?ms = "round_msgs a (uc_datas d) (unat (uc_round_index d))"
  let ?es = "[Log L_DEBUG ''round[%u] start''] @
      round_effects (udp_msg_eff en a c (uc_dst_sa d)) (n_clk w + 1) (take j ?ms) @
      udp_try_eff en a c (uc_dst_sa d) (n_clk w + 1 + 2 * j) (fst (?ms ! j)) (snd (?ms ! j))"
  obtain w' where w': "udp_client_on_timer en a d w = Some (d\<lparr>uc_last_ts := clk en (n_clk w)\<rparr>, w')"
    "trace w' = trace w @ ?es @ [Log L_ERROR ''failed write message: seq=%u, num_bytes=%d, err=%d[%s]'', SockShutdown c]"
    using udp_round.tick_fails [where a = a and s = s and c = c and en = en and w = w and sa = sa and j = j] assms
    by (auto simp: s udp_fail_eff_def dest: udp_timer_some)
  have "SockShutdown c \<notin> set (round_effects (udp_msg_eff en a c (uc_dst_sa d)) k ms)" for k ms
    by (induction ms arbitrary: k) (auto simp: udp_msg_eff_def udp_try_eff_def record_effects_def)
  then have no: "SockShutdown c \<notin> set ?es" by (auto simp: udp_try_eff_def record_effects_def)
  have "map r_action (committed (round_effects (udp_msg_eff en a c (uc_dst_sa d)) k ms)) =
      concat (replicate (length ms) [''client.snd_begin'', ''client.snd_end''])" for k ms
    by (induction ms arbitrary: k) (auto simp: udp_msg_eff_def udp_try_eff_def rec_at_def)
  then have acts: "map r_action (committed ?es) =
      concat (replicate j [''client.snd_begin'', ''client.snd_end'']) @ [''client.snd_begin'']"
    using assms(5) by (simp add: udp_try_eff_def rec_at_def min_def)
  have "take (Suc j) ?ms = take j ?ms @ [?ms ! j]"
    using assms(5) by (simp add: take_Suc_conv_app_nth)
  then have "sent_to c (uc_dst_sa d) ?es = map snd (take (Suc j) ?ms)"
    by (simp add: udp_round.obs_round udp_try_eff_def)
  then have "sent_to c (uc_dst_sa d) ?es = take (Suc j) (round_slots a (uc_datas d) (unat (uc_round_index d)))"
    by (simp only: take_map [symmetric] round_msgs_snd)
  with w' no acts show ?thesis by blast
qed

theorem udp_timer_write_failure_witness:
  "\<exists>w' es. udp_client_on_timer demo_env_fail demo_args demo_udp world0 =
      Some (demo_udp\<lparr>uc_last_ts := \<lparr>tv_sec = 0, tv_nsec = 0\<rparr>\<rparr>, w') \<and>
    trace w' = es @ [Log L_ERROR ''failed write message: seq=%u, num_bytes=%d, err=%d[%s]'', SockShutdown 3] \<and>
    sent_to 3 demo_sa es = [msg_head demo_args 0, msg_head demo_args 1]"
  using udp_timer_write_failure [of demo_args demo_udp 3 demo_env_fail world0 1]
  by auto

text \<open>Whatever the clock and the socket answer, a timer of the UDP client stays inside its message
  array, leaves the messages as they are, advances by at most one round and never past the last,
  and fails none of its assertions.\<close>

theorem udp_timer_safe:
  assumes "udp_client_ok a d"
  shows "\<exists>d' w' es. udp_client_on_timer en a d w = Some (d', w') \<and> udp_client_ok a d' \<and>
    uc_datas d' = uc_datas d \<and> uc_ctx d' = uc_ctx d \<and>
    unat (uc_round_index d') \<in> {unat (uc_round_index d), Suc (unat (uc_round_index d))} \<and>
    trace w' = trace w @ es \<and> asserts_ok es"
proof -
  obtain sa s where d: "d = udp_of sa s" using udp_of_surj by blast
  obtain s' w' es where "round_timer en a (\<lambda>c. udp_send_one en a c sa) (udp_due a) (s, w) = Some (s', w')"
    "round_state_ok a s'" "rs_datas s' = rs_datas s" "rs_ctx s' = rs_ctx s"
    "unat (rs_index s') \<in> {unat (rs_index s), Suc (unat (rs_index s))}"
    "trace w' = trace w @ es" "asserts_ok es"
    using udp_round.tick_invariant [where a = a and s = s and en = en and w = w and sa = sa] assms by (auto simp: d)
  then show ?thesis
    by (intro exI [of _ "udp_of sa s'"] exI [of _ w'] exI [of _ es]) (simp add: d udp_timer_some)
qed

theorem udp_timer_safe_witness:
  "\<exists>d' w' es. udp_client_on_timer demo_env_fail demo_args demo_udp world0 = Some (d', w') \<and>
    udp_client_ok demo_args d' \<and> trace w' = es \<and> asserts_ok es"
  using udp_timer_safe [of demo_args demo_udp demo_env_fail world0] by auto

lemma udp_ticks_finish:
  assumes "udp_client_ok a d" and "uc_ctx d = Some c"
    and "\<And>j. n_wr w \<le> j \<Longrightarrow> wr en j = to_int (msg_size a)"
    and "round_fair en (udp_due a)"
  shows "\<exists>k d' w'. ticks (udp_tick en a) k (d, w) = Some (d', w') \<and>
    last (trace w') = EvloopExit \<and> EvloopExit \<in> set (trace w') \<and>
    sent_to c (uc_dst_sa d) (trace w') = sent_to c (uc_dst_sa d) (trace w) @
      concat (map (round_slots a (uc_datas d)) [unat (uc_round_index d) ..< unat (round_num a)])"
proof -
  obtain sa s where d: "d = udp_of sa s" using udp_of_surj by blast
  have "round_state_ok a (fst (s, w)) \<and> rs_datas (fst (s, w)) = rs_datas s" "round_online en a c (s, w)"
    using assms(1-3) by (simp_all add: round_online_def d)
  from udp_round.rounds.complete [where sa = sa, OF this assms(4)]
  obtain k s' w' where "ticks (round_timer en a (\<lambda>c. udp_send_one en a c sa) (udp_due a)) k (s, w) = Some (s', w')"
    "exited (trace w')"
    "sent_to c sa (trace w') = sent_to c sa (trace w) @
      concat (map (round_slots a (rs_datas s)) [unat (rs_index s) ..< unat (round_num a)])"
    by (auto simp del: ticks.simps)
  then show ?thesis
    using udp_ticks_rounds [where en = en and a = a and sa = sa and k = k and sw = "(s, w)"]
    by (intro exI [of _ k]) (auto simp: d exited_def simp del: ticks.simps dest: last_in_set)
qed

lemma udp_ticks_complete:
  assumes "config_ok a" and "datas_ok a mem"
    and "\<And>j. n_wr w \<le> j \<Longrightarrow> wr en j = to_int (msg_size a)"
    and "round_fair en (udp_due a)"
  shows "\<exists>k d' w'. ticks (udp_tick en a) k
      (\<lparr>uc_ctx = Some c, uc_dst_sa = sa, uc_last_ts = t, uc_round_index = 0, uc_datas = mem\<rparr>, w) = Some (d', w') \<and>
    last (trace w') = EvloopExit \<and> EvloopExit \<in> set (trace w') \<and>
    sent_to c sa (trace w') = sent_to c sa (trace w) @ map (slot a mem) [0 ..< n_msgs a]"
  using udp_ticks_finish [where d = "\<lparr>uc_ctx = Some c, uc_dst_sa = sa, uc_last_ts = t, uc_round_index = 0, uc_datas = mem\<rparr>"
      and c = c, OF _ _ assms(3,4)] assms(1,2)
  by (simp add: udp_client_ok_def concat_round_slots config_n_msgs [OF assms(1)] mult.commute del: ticks.simps)

lemma demo_fast_datas [simp]: "datas_ok demo_fast demo_mem"
  by (rule prepare_datas_datas_ok [OF demo_fast_config demo_fast_prepare])

lemma demo_udp_fair: "round_fair demo_env (udp_due demo_fast)"
  by (auto simp: round_fair_def udp_due_def)

text \<open>C20: Once its socket is open and takes everything, and with a clock of which some reading is always
  due, the program sends every message of every round exactly once, in order, to the configured
  address, and then leaves the event loop.\<close>

theorem udp_client_sends_everything:
  assumes "config_ok a" and "prepare_datas a fill = Some mem"
    and "\<And>j. n_wr w \<le> j \<Longrightarrow> wr en j = to_int (msg_size a)"
    and "round_fair en (udp_due a)"
  shows "\<exists>k d' w'. ticks (udp_tick en a) k
      (\<lparr>uc_ctx = Some c, uc_dst_sa = sa, uc_last_ts = t, uc_round_index = 0, uc_datas = mem\<rparr>, w) = Some (d', w') \<and>
    last (trace w') = EvloopExit \<and>
    sent_to c sa (trace w') = sent_to c sa (trace w) @ map (slot a mem) [0 ..< n_msgs a]"
  using udp_ticks_complete [OF assms(1) prepare_datas_datas_ok [OF assms(1,2)] assms(3,4)] by blast

theorem udp_client_sends_everything_witness:
  "\<exists>k d' w'. ticks (udp_tick demo_env demo_fast) k
      (\<lparr>uc_ctx = Some 3, uc_dst_sa = demo_sa, uc_last_ts = \<lparr>tv_sec = -5, tv_nsec = 0\<rparr>,
        uc_round_index = 0, uc_datas = demo_mem\<rparr>, world0) = Some (d', w') \<and>
    last (trace w') = EvloopExit \<and>
    sent_to 3 demo_sa (trace w') = [msg_head demo_args 0, msg_head demo_args 1,
      msg_head demo_args 2, msg_head demo_args 3]"
proof -
  have "round_fair demo_env (udp_due demo_fast)" by (auto simp: round_fair_def udp_due_def)
  then show ?thesis
    using udp_client_sends_everything [OF demo_fast_config demo_fast_prepare, where w = world0
        and en = demo_env and t = "\<lparr>tv_sec = -5, tv_nsec = 0\<rparr>" and c = 3 and sa = demo_sa]
    by (auto simp del: ticks.simps)
qed

lemma udp_due_iff: "udp_due a t l \<longleftrightarrow> uint (round_interval_ms a) \<le> tcp_elapsed_ms t l mod 4294967296"
proof -
  have "udp_elapsed_ms t l = word_of_int (tcp_elapsed_ms t l)" by (simp add: udp_elapsed_ms_def tcp_elapsed_ms_def)
  then have "uint (udp_elapsed_ms t l) = tcp_elapsed_ms t l mod 4294967296"
    by (simp add: unsigned_of_int take_bit_eq_mod)
  then show ?thesis by (simp add: udp_due_def word_less_def not_less)
qed

text \<open>When the timers of two connected clients that are not finished do no more than reading the clock.\<close>

lemma tcp_timer_rests:
  assumes "tcp_client_ok a d" and "tc_round_index d < round_num a" and "tc_ctx d = Some c"
  shows "tcp_client_on_timer en a d w = Some (d, w\<lparr>n_clk := n_clk w + 1\<rparr>) \<longleftrightarrow>
    \<not> tcp_due a (clk en (n_clk w)) (tc_last_ts d)"
proof (cases "tcp_due a (clk en (n_clk w)) (tc_last_ts d)")
  case True
  obtain s where d: "d = tcp_of s" using tcp_of_surj by blast
  show ?thesis
    using tcp_round.tick_due [of a s c en w] assms True by (auto simp: d dest: tcp_timer_some)
next
  case False
  with assms(2,3) show ?thesis
    by (simp add: tcp_client_on_timer_def read_clock_def tcp_due_def not_le)
qed

lemma udp_timer_starts:
  assumes "udp_client_ok a d" and "uc_round_index d < round_num a" and "uc_ctx d = Some c"
    and "udp_due a (clk en (n_clk w)) (uc_last_ts d)"
  shows "\<exists>d' w' es k. udp_client_on_timer en a d w = Some (d', w') \<and> trace w' = trace w @ es \<and> es \<noteq> [] \<and>
    sent_to c (uc_dst_sa d) es = take k (round_slots a (uc_datas d) (unat (uc_round_index d))) \<and>
    (num_per_round a \<noteq> 0 \<longrightarrow> 0 < k)"
proof -
  obtain sa s where d: "d = udp_of sa s" using udp_of_surj by blast
  show ?thesis
    using udp_round.tick_due [where a = a and s = s and c = c and en = en and w = w and sa = sa] assms
    by (auto simp: d dest!: udp_timer_some)
qed

lemma udp_timer_rests:
  assumes "udp_client_ok a d" and "uc_round_index d < round_num a" and "uc_ctx d = Some c"
  shows "udp_client_on_timer en a d w = Some (d, w\<lparr>n_clk := n_clk w + 1\<rparr>) \<longleftrightarrow>
    \<not> udp_due a (clk en (n_clk w)) (uc_last_ts d)"
proof (cases "udp_due a (clk en (n_clk w)) (uc_last_ts d)")
  case True
  with udp_timer_starts [OF assms True] show ?thesis by auto
next
  case False
  with assms(2,3) show ?thesis
    by (simp add: udp_client_on_timer_def read_clock_def udp_due_def not_le)
qed

text \<open>C36: The timers of a connected TCP and a connected UDP client that began their last round at the same time,
  with \<open>e\<close> milliseconds from then to the clock now: the TCP timer does nothing but read the clock iff
  \<open>e\<close> is less than the interval, the UDP timer iff \<open>e\<close> modulo 2^32 is. So they agree
  as long as \<open>e\<close> is not negative and below 2^32; but when the clock was set back by at most 2^31 milliseconds
  and the interval is at most 2^31, the TCP timer waits and the UDP timer starts the next round at
  once and sends at least its first message.\<close>

theorem udp_due_against_tcp:
  assumes "tcp_client_ok a d" and "tc_round_index d < round_num a" and "tc_ctx d = Some c1"
    and "udp_client_ok a u" and "uc_round_index u < round_num a" and "uc_ctx u = Some c2"
    and "tc_last_ts d = l" and "uc_last_ts u = l" and "e = tcp_elapsed_ms (clk en (n_clk w)) l"
  shows "(tcp_client_on_timer en a d w = Some (d, w\<lparr>n_clk := n_clk w + 1\<rparr>) \<longleftrightarrow>
      e < uint (round_interval_ms a)) \<and>
    (udp_client_on_timer en a u w = Some (u, w\<lparr>n_clk := n_clk w + 1\<rparr>) \<longleftrightarrow>
      e mod 4294967296 < uint (round_interval_ms a)) \<and>
    (0 \<le> e \<and> e < 4294967296 \<longrightarrow>
      (tcp_client_on_timer en a d w = Some (d, w\<lparr>n_clk := n_clk w + 1\<rparr>) \<longleftrightarrow>
       udp_client_on_timer en a u w = Some (u, w\<lparr>n_clk := n_clk w + 1\<rparr>))) \<and>
    (-2147483648 \<le> e \<and> e < 0 \<and> uint (round_interval_ms a) \<le> 2147483648 \<longrightarrow>
      tcp_client_on_timer en a d w = Some (d, w\<lparr>n_clk := n_clk w + 1\<rparr>) \<and>
      (\<exists>u' w' es k. udp_client_on_timer en a u w = Some (u', w') \<and> trace w' = trace w @ es \<and>
         sent_to c2 (uc_dst_sa u) es = take k (round_slots a (uc_datas u) (unat (uc_round_index u))) \<and>
         (num_per_round a \<noteq> 0 \<longrightarrow> 0 < k)))"
proof -
  have i: "0 \<le> uint (round_interval_ms a)" by simp
  have tcp: "tcp_client_on_timer en a d w = Some (d, w\<lparr>n_clk := n_clk w + 1\<rparr>) \<longleftrightarrow>
      e < uint (round_interval_ms a)"
    using tcp_timer_rests [OF assms(1-3)] by (simp add: assms(7,9) tcp_due_def not_le)
  have udp: "udp_client_on_timer en a u w = Some (u, w\<lparr>n_clk := n_clk w + 1\<rparr>) \<longleftrightarrow>
      e mod 4294967296 < uint (round_interval_ms a)"
    using udp_timer_rests [OF assms(4-6)] by (simp add: assms(8,9) udp_due_iff not_le)
  have "uint (round_interval_ms a) \<le> e mod 4294967296"
    if "-2147483648 \<le> e" "e < 0" "uint (round_interval_ms a) \<le> 2147483648"
    using that mod_add_self2 [of e 4294967296] mod_pos_pos_trivial [of "e + 4294967296" 4294967296] by linarith
  then have "udp_due a (clk en (n_clk w)) (uc_last_ts u)"
    if "-2147483648 \<le> e \<and> e < 0 \<and> uint (round_interval_ms a) \<le> 2147483648"
    using that by (simp add: udp_due_iff assms(8,9))
  note starts = udp_timer_starts [OF assms(4-6) this]
  have waits: "tcp_client_on_timer en a d w = Some (d, w\<lparr>n_clk := n_clk w + 1\<rparr>)" if "e < 0"
    unfolding tcp using that i by linarith
  have same: "e mod 4294967296 = e" if "0 \<le> e \<and> e < 4294967296" using that by simp
  show ?thesis
  proof (intro conjI impI)
    show "tcp_client_on_timer en a d w = Some (d, w\<lparr>n_clk := n_clk w + 1\<rparr>) \<longleftrightarrow>
       udp_client_on_timer en a u w = Some (u, w\<lparr>n_clk := n_clk w + 1\<rparr>)" if "0 \<le> e \<and> e < 4294967296"
      unfolding tcp udp same [OF that] by (rule refl)
    show "\<exists>u' w' es k. udp_client_on_timer en a u w = Some (u', w') \<and> trace w' = trace w @ es \<and>
         sent_to c2 (uc_dst_sa u) es = take k (round_slots a (uc_datas u) (unat (uc_round_index u))) \<and>
         (num_per_round a \<noteq> 0 \<longrightarrow> 0 < k)"
      if "-2147483648 \<le> e \<and> e < 0 \<and> uint (round_interval_ms a) \<le> 2147483648"
      using starts [OF that] by blast
  qed (use tcp udp waits in blast)+
qed

definition demo_udp_back :: udp_client_evloop_data_t where
  "demo_udp_back = demo_udp\<lparr>uc_last_ts := \<lparr>tv_sec = 6, tv_nsec = 0\<rparr>\<rparr>"

theorem udp_due_against_tcp_witness:
  "tcp_client_on_timer demo_env demo_args (demo_client\<lparr>tc_last_ts := \<lparr>tv_sec = 6, tv_nsec = 0\<rparr>\<rparr>) world0 =
     Some (demo_client\<lparr>tc_last_ts := \<lparr>tv_sec = 6, tv_nsec = 0\<rparr>\<rparr>, world0\<lparr>n_clk := 1\<rparr>) \<and>
   (\<exists>u' w' k. udp_client_on_timer demo_env demo_args demo_udp_back world0 = Some (u', w') \<and> 0 < k \<and>
     sent_to 3 demo_sa (trace w') = take k [msg_head demo_args 0, msg_head demo_args 1])"
proof -
  let ?d = "demo_client\<lparr>tc_last_ts := \<lparr>tv_sec = 6, tv_nsec = 0\<rparr>\<rparr>"
  have d: "tcp_client_ok demo_args ?d" using demo_client_simps(5) by (simp add: tcp_client_ok_def)
  have u: "udp_client_ok demo_args demo_udp_back"
    using demo_udp_simps(6) by (simp add: udp_client_ok_def demo_udp_back_def)
  have e: "-6000 = tcp_elapsed_ms (clk demo_env (n_clk world0)) \<lparr>tv_sec = 6, tv_nsec = 0\<rparr>"
    by (simp add: tcp_elapsed_ms_def c_div_def)
  show ?thesis
    using udp_due_against_tcp [OF d _ _ u _ _ _ _ e] by (simp add: demo_udp_back_def) metis
qed

lemma udp_client_run_opened:
  assumes "cstr (bind_host a) \<noteq> ''''" and "cstr (conn_host a) \<noteq> ''''" and "cstr (conn_port a) \<noteq> ''''"
    and "opens_after en w k fd" and "gai (cstr (conn_host a)) (cstr (conn_port a)) = (0, sa)"
  shows "\<exists>t w'. no_writes w w' \<and> udp_client_run en True gai fill evloop a w =
     (case prepare_datas a fill of
        None \<Rightarrow> OutOfBoundsRun
      | Some mem \<Rightarrow> run_bind
          (evloop \<lparr>uc_ctx = None, uc_dst_sa = sa, uc_last_ts = t, uc_round_index = 0, uc_datas = mem\<rparr> w')
          cleanup) \<and>
     Call ''muggle_udp_bind'' [AStr (cstr (bind_host a)), AStr (cstr (bind_port a))] \<in> set (trace w') \<and>
     Call ''muggle_socket_evloop_add_ctx'' [AInt fd, ATyp CtxUdp] \<in> set (trace w')"
proof -
  let ?a = "a\<lparr>serv_host := bind_host a, serv_port := bind_port a\<rparr>"
  have same: "prepare_loop ?a i p mem = prepare_loop a i p mem" for i p mem
    by (induction a i p mem rule: prepare_loop.induct)
       (subst (1 2) prepare_loop.simps, auto simp: write_msg_def intro!: Option.bind_cong)
  have mem: "prepare_datas ?a fill = prepare_datas a fill"
    by (simp add: prepare_datas_def same datas_size_def)
  let ?data = "\<lambda>t mem. \<lparr>uc_ctx = None, uc_dst_sa = sa, uc_last_ts = t, uc_round_index = 0, uc_datas = mem\<rparr>"
  let ?k = "\<lambda>w. add_opened (nb_udp_bind en ?a w)
      (\<lambda>w. let (t, w) = read_clock en w;
               w = emit (Call ''malloc'' [ANat (unat (datas_size ?a))]) w
           in case prepare_datas ?a fill of
                None \<Rightarrow> OutOfBoundsRun
              | Some mem \<Rightarrow> evloop_run_and_delete (evloop (?data t mem)) [Call ''free'' []] w)"
  let ?w = "emit (Call ''muggle_socket_getaddrinfo'' [AStr (cstr (conn_host a)), AStr (cstr (conn_port a))]) w"
  have run: "udp_client_run en True gai fill evloop a w =
      with_evloop True [''add_ctx'', ''timer''] (to_int (round_interval_ms a)) ?a ?k ?w"
    using assms(1-3,5) by (simp add: udp_client_run_def socket_getaddrinfo_def Let_def cong del: option.case_cong_weak)
  obtain es where es: "with_evloop True [''add_ctx'', ''timer''] (to_int (round_interval_ms a)) ?a ?k ?w =
      ?k (emits es ?w)" "no_writes ?w (emits es ?w)"
    using with_evloop_quiet by blast
  have "opens_after en (emits es ?w) k fd" using assms(4) by simp
  then obtain w1 where w1: "nb_udp_bind en ?a (emits es ?w) = Some (\<lparr>cx_fd = fd, cx_type = CtxUdp\<rparr>, w1)"
    "no_writes (emits es ?w) w1"
    "Call ''muggle_udp_bind'' [AStr (cstr (bind_host a)), AStr (cstr (bind_port a))] \<in> set (trace w1)"
    using bind_quiet [of en "emits es ?w" k fd ?a] by auto
  have "no_writes w ?w" by (simp add: no_writes_def)
  note add_opened_quiet [OF quiet.rel_trans [OF this quiet.rel_trans [OF es(2) w1(2)]],
      where fd = fd and ty = CtxUdp and run = "\<lambda>t mem. evloop (?data t mem)" and en = en
        and n = "unat (datas_size ?a)" and dm = "prepare_datas a fill"]
  then obtain t w2 where w2: "no_writes w w2" "set (trace w1) \<subseteq> set (trace w2)"
    "Call ''muggle_socket_evloop_add_ctx'' [AInt fd, ATyp CtxUdp] \<in> set (trace w2)"
    "?k (emits es ?w) = (case prepare_datas a fill of
        None \<Rightarrow> OutOfBoundsRun | Some mem \<Rightarrow> run_bind (evloop (?data t mem) w2) cleanup)"
    unfolding w1(1) mem by blast
  show ?thesis unfolding run es(1) w2(4)
    by (intro exI [of _ t] exI [of _ w2]) (use w2(1-3) w1(3) in auto)
qed



end
