(* ===== verification/UdpClientRun.thy ===== *)
theory UdpClientRun
  imports UdpClient RoundLog Quiet
begin

text \<open>
  The whole \<open>run\<close> function of the UDP client: binding, the message array, the event loop
  and the cleanup, with sends that fail. Of the event loop it is only used that all that happens while
  it runs are calls of the callbacks, and that it does not return before \<open>muggle_evloop_exit\<close> was
  called. Whether it returns is up to the environment (a socket that never takes a message
  keeps it running), so returning is not assumed; that timers alone lead to the exit once the socket
  takes what it is given is proved, from every state the loop can be in.
\<close>

section \<open>What can happen in the event loop\<close>

inductive udp_reaches ::
  "env \<Rightarrow> nb_sys_args_t \<Rightarrow> udp_client_evloop_data_t \<Rightarrow> world \<Rightarrow> udp_client_evloop_data_t \<Rightarrow> world \<Rightarrow> bool"
  for en a d0 w0 where
  start: "udp_reaches en a d0 w0 d0 w0"
| add: "udp_reaches en a d0 w0 d w \<Longrightarrow> udp_client_on_add_ctx c d w = (d', w') \<Longrightarrow> udp_reaches en a d0 w0 d' w'"
| timer: "udp_reaches en a d0 w0 d w \<Longrightarrow> udp_client_on_timer en a d w = Some (d', w') \<Longrightarrow>
    udp_reaches en a d0 w0 d' w'"

definition udp_evloop_contract ::
  "env \<Rightarrow> nb_sys_args_t \<Rightarrow> (udp_client_evloop_data_t \<Rightarrow> world \<Rightarrow> run_result) \<Rightarrow>
   udp_client_evloop_data_t \<Rightarrow> world \<Rightarrow> bool" where
  "udp_evloop_contract en a evloop d w \<longleftrightarrow>
     (\<forall>w'. evloop d w = Ran w' \<longrightarrow>
       (\<exists>d'. udp_reaches en a d w d' w' \<and> EvloopExit \<in> set (trace w')))"

lemma udp_reaches_ticks:
  "udp_reaches en a d0 w0 d w \<Longrightarrow> ticks (udp_tick en a) k (d, w) = Some (d', w') \<Longrightarrow>
   udp_reaches en a d0 w0 d' w'"
proof (induction k arbitrary: d w)
  case (Suc k)
  obtain d1 w1 where t: "udp_client_on_timer en a d w = Some (d1, w1)"
    "ticks (udp_tick en a) k (d1, w1) = Some (d', w')"
    using Suc.prems(2) by (cases "udp_tick en a (d, w)") (auto simp: udp_tick_def [of en a "(d, w)"])
  from Suc.IH [OF udp_reaches.timer [OF Suc.prems(1) t(1)] t(2)] show ?case .
qed simp

section \<open>The timer\<close>

interpretation udp_log: round_sender en a "\<lambda>c. udp_send_one en a c sa" "udp_due a" "\<lambda>c. udp_msg_eff en a c sa"
  "\<lambda>c. udp_fail_eff en a c sa" "\<lambda>_. all_sent" for en a sa
  by unfold_locales (simp_all add: udp_msg_eff_def udp_fail_eff_def udp_try_eff_def)

text \<open>Everything goes to one address.\<close>

fun goes_to :: "sockaddr \<Rightarrow> effect \<Rightarrow> bool" where
  "goes_to sa (SockSendto c bs sa') \<longleftrightarrow> sa' = sa"
| "goes_to sa _ \<longleftrightarrow> True"

interpretation one_address: session_frame "\<lambda>w w'. list_all (goes_to sa) (trace w) \<longrightarrow> list_all (goes_to sa) (trace w')"
  for sa
  by unfold_locales auto

lemma all_sent_Nil: "all_sent es = [] \<Longrightarrow> list_all (goes_to sa) es"
  by (induction es rule: all_sent.induct) auto

lemma udp_send_one_frame:
  "EvloopExit \<in> set (trace (snd (udp_send_one en a c sa q buf w))) \<longrightarrow> EvloopExit \<in> set (trace w)"
  "list_all (goes_to sa) (trace w) \<longrightarrow> list_all (goes_to sa) (trace (snd (udp_send_one en a c sa q buf w)))"
  by (auto simp: udp_send_one_def sock_sendto_def record_effects_def Let_def)

lemma udp_timer_exit:
  assumes "udp_client_on_timer en a d w = Some (d', w')" and "EvloopExit \<in> set (trace w')"
  shows "EvloopExit \<in> set (trace w) \<or> round_num a \<le> uc_round_index d \<and> d' = d"
proof -
  note sr = no_exit.send_round_rel [of "udp_send_one en a c sa" for c sa, OF udp_send_one_frame(1)]
  show ?thesis
    using assms
    by (auto simp: udp_client_on_timer_def read_clock_def Let_def bind_eq_Some_conv
        split: if_splits option.splits bool.splits prod.splits dest!: sr)
qed

lemma udp_timer_address:
  assumes "udp_client_on_timer en a d w = Some (d', w')" and "list_all (goes_to (uc_dst_sa d)) (trace w)"
  shows "list_all (goes_to (uc_dst_sa d)) (trace w')"
proof -
  note sr = one_address.send_round_rel [of sa "udp_send_one en a c sa" for c sa, OF udp_send_one_frame(2)]
  show ?thesis
    using assms
    by (auto simp: udp_client_on_timer_def read_clock_def Let_def bind_eq_Some_conv
        split: if_splits option.splits bool.splits prod.splits dest!: sr)
qed

lemma udp_timer_log:
  assumes ok: "udp_client_ok a d" and t: "udp_client_on_timer en a d w = Some (d', w')"
  shows "udp_client_ok a d' \<and> uc_datas d' = uc_datas d \<and> uc_dst_sa d' = uc_dst_sa d \<and>
    (\<exists>bs. all_sent (trace w') = all_sent (trace w) @ bs \<and> n_wr w' = n_wr w + length bs \<and>
    udp_log.log_step en a (uc_datas d) (unat (uc_round_index d)) (unat (uc_round_index d')) (n_wr w) bs)"
proof -
  obtain sa s where d: "d = udp_of sa s" using udp_of_surj by blast
  obtain s' where s': "round_timer en a (\<lambda>c. udp_send_one en a c sa) (udp_due a) (s, w) = Some (s', w')"
    "d' = udp_of sa s'"
    using udp_timer_rounds [of en a sa "(s, w)"] t by (auto simp: udp_tick_def d)
  have inv: "round_state_ok a s' \<and> rs_datas s' = rs_datas s"
    using udp_round.tick_invariant [where a = a and s = s and en = en and w = w and sa = sa] s'(1) ok
    by (auto simp: d)
  show ?thesis
  proof (cases "rs_ctx s")
    case None
    have "all_sent (trace w') = all_sent (trace w) \<and> n_wr w' = n_wr w \<and> s' = s"
      using s'(1) None by (auto simp: round_timer_def split: if_splits)
    then show ?thesis
      by (intro conjI exI [of _ "[]"]) (use inv ok in \<open>simp_all add: d s'(2) udp_log.log_step_Nil\<close>)
  next
    case (Some c)
    from udp_log.tick_log [OF _ Some s'(1)] ok inv show ?thesis by (simp add: d s'(2))
  qed
qed

section \<open>The invariant\<close>

definition udp_logged ::
  "env \<Rightarrow> nb_sys_args_t \<Rightarrow> bytes \<Rightarrow> sockaddr \<Rightarrow> udp_client_evloop_data_t \<Rightarrow> world \<Rightarrow> bool" where
  "udp_logged en a mem sa d w \<longleftrightarrow> udp_client_ok a d \<and> uc_datas d = mem \<and> uc_dst_sa d = sa \<and>
     n_wr w = length (all_sent (trace w)) \<and> list_all (goes_to sa) (trace w) \<and>
     round_log (to_int (msg_size a)) (round_slots a mem) (unat (round_num a)) (unat (uc_round_index d))
       (answered en 0 (all_sent (trace w))) \<and>
     (EvloopExit \<in> set (trace w) \<longrightarrow> uc_round_index d = round_num a)"

lemma udp_logged_timer:
  assumes l: "udp_logged en a mem sa d w" and t: "udp_client_on_timer en a d w = Some (d', w')"
  shows "udp_logged en a mem sa d' w'"
proof -
  have ok: "udp_client_ok a d" and mem: "uc_datas d = mem" "uc_dst_sa d = sa"
    and n: "n_wr w = length (all_sent (trace w))"
    and rl: "round_log (to_int (msg_size a)) (round_slots a mem) (unat (round_num a))
       (unat (uc_round_index d)) (answered en 0 (all_sent (trace w)))"
    and ex: "EvloopExit \<in> set (trace w) \<Longrightarrow> uc_round_index d = round_num a"
    using l by (auto simp: udp_logged_def)
  obtain bs where d': "udp_client_ok a d'" "uc_datas d' = mem" "uc_dst_sa d' = sa"
    and bs: "all_sent (trace w') = all_sent (trace w) @ bs" "n_wr w' = n_wr w + length bs"
    "udp_log.log_step en a mem (unat (uc_round_index d)) (unat (uc_round_index d')) (n_wr w) bs"
    using udp_timer_log [OF ok t] mem by auto
  have rl': "round_log (to_int (msg_size a)) (round_slots a mem) (unat (round_num a))
       (unat (uc_round_index d')) (answered en 0 (all_sent (trace w')))"
    using bs(3) rl by (simp add: udp_log.log_step_def bs(1) answered_append n)
  have "uc_round_index d' = round_num a" if "EvloopExit \<in> set (trace w')"
  proof -
    from udp_timer_exit [OF t that] ex have "round_num a \<le> uc_round_index d" by auto
    moreover from this t have "d' = d" by (simp add: udp_client_on_timer_def)
    ultimately show ?thesis using d'(1) by (simp add: udp_client_ok_def)
  qed
  with d' rl' bs(1,2) n udp_timer_address [OF t] l mem show ?thesis by (simp add: udp_logged_def)
qed

lemma udp_logged_reaches:
  "udp_reaches en a d0 w0 d w \<Longrightarrow> udp_logged en a mem sa d0 w0 \<Longrightarrow> udp_logged en a mem sa d w"
proof (induction rule: udp_reaches.induct)
  case (add d w c d' w')
  then show ?case by (auto simp: udp_logged_def udp_client_ok_def udp_client_on_add_ctx_def)
next
  case (timer d w d' w')
  then show ?case using udp_logged_timer by blast
qed

section \<open>Properties\<close>

text \<open>C9: The whole \<open>run\<close> of the UDP client, with sizes and counts that fit 32 bits and a bind that succeeds
  after any number of attempts: \<open>run\<close> is the event loop on the array of all messages followed by the
  cleanup. Whenever it returns, whatever sends failed meanwhile, the socket has taken every
  message of the run at least once, in order; everything it was given is one of these
  messages, and goes to the address the configured host and port resolve to. And it can always
  be finished: from every state the event loop can reach in which the socket is open and takes
  everything from then on, some number of timer calls leads to the exit, with a clock of which
  some reading is always due.\<close>

theorem udp_client_run_delivers:
  assumes "cstr (bind_host a) \<noteq> ''''" and "cstr (conn_host a) \<noteq> ''''" and "cstr (conn_port a) \<noteq> ''''"
    and "config_ok a" and "opens_after en w k fd" and "gai (cstr (conn_host a)) (cstr (conn_port a)) = (0, sa)"
    and "all_sent (trace w) = []" and "n_wr w = 0" and "EvloopExit \<notin> set (trace w)"
    and "\<And>t mem w'. prepare_datas a fill = Some mem \<Longrightarrow> udp_evloop_contract en a evloop
      \<lparr>uc_ctx = None, uc_dst_sa = sa, uc_last_ts = t, uc_round_index = 0, uc_datas = mem\<rparr> w'"
  shows "\<exists>mem t w1. prepare_datas a fill = Some mem \<and> no_writes w w1 \<and>
    udp_client_run en True gai fill evloop a w = run_bind
      (evloop \<lparr>uc_ctx = None, uc_dst_sa = sa, uc_last_ts = t, uc_round_index = 0, uc_datas = mem\<rparr> w1) cleanup \<and>
    (\<forall>w'. udp_client_run en True gai fill evloop a w = Ran w' \<longrightarrow>
      (\<exists>es. trace w' = es @ [Call ''free'' [], Call ''muggle_socket_evloop_handle_destroy'' [],
                             Call ''muggle_evloop_delete'' []]) \<and>
      subseq (map (slot a mem) [0..<n_msgs a])
        (taken (to_int (msg_size a)) (answered en 0 (all_sent (trace w')))) \<and>
      set (all_sent (trace w')) \<subseteq> slot a mem ` {0..<n_msgs a} \<and> list_all (goes_to sa) (trace w')) \<and>
    (\<forall>d w2 c. udp_reaches en a
          \<lparr>uc_ctx = None, uc_dst_sa = sa, uc_last_ts = t, uc_round_index = 0, uc_datas = mem\<rparr> w1 d w2 \<and>
        uc_ctx d = Some c \<and> (\<forall>j \<ge> n_wr w2. wr en j = to_int (msg_size a)) \<and> round_fair en (udp_due a) \<longrightarrow>
      (\<exists>k d' w'. ticks (udp_tick en a) k (d, w2) = Some (d', w') \<and> last (trace w') = EvloopExit))"
proof -
  obtain mem where mem: "prepare_datas a fill = Some mem" "datas_ok a mem"
    using prepare_datas_ok [OF assms(4)] by blast
  obtain t w1 where w1: "no_writes w w1" "udp_client_run en True gai fill evloop a w =
      run_bind (evloop \<lparr>uc_ctx = None, uc_dst_sa = sa, uc_last_ts = t, uc_round_index = 0, uc_datas = mem\<rparr> w1)
        cleanup"
    using udp_client_run_opened [where a = a and gai = gai, OF assms(1-3,5,6), of fill evloop] mem(1) by auto
  let ?d = "\<lparr>uc_ctx = None, uc_dst_sa = sa, uc_last_ts = t, uc_round_index = 0, uc_datas = mem\<rparr>"
  have start: "udp_logged en a mem sa ?d w1"
    using assms(4,7-9) mem(2) w1(1) all_sent_Nil [of "trace w1" sa]
    by (simp add: udp_logged_def udp_client_ok_def round_log.start no_writes_def)
  note inv = udp_logged_reaches [OF _ start, unfolded udp_logged_def]
  have ran: "(\<exists>es. trace w' = es @ [Call ''free'' [], Call ''muggle_socket_evloop_handle_destroy'' [],
                                 Call ''muggle_evloop_delete'' []]) \<and>
      subseq (map (slot a mem) [0..<n_msgs a])
        (taken (to_int (msg_size a)) (answered en 0 (all_sent (trace w')))) \<and>
      set (all_sent (trace w')) \<subseteq> slot a mem ` {0..<n_msgs a} \<and> list_all (goes_to sa) (trace w')"
    if run: "udp_client_run en True gai fill evloop a w = Ran w'" for w'
  proof -
    obtain w2 where w2: "evloop ?d w1 = Ran w2" "cleanup w2 = Ran w'" using run w1(2) by (auto simp: run_bind_Ran)
    obtain d where d: "udp_reaches en a ?d w1 d w2" "EvloopExit \<in> set (trace w2)"
      using assms(10) [OF mem(1), of t w1] w2(1) by (auto simp: udp_evloop_contract_def)
    have "round_log (to_int (msg_size a)) (round_slots a mem) (unat (round_num a)) (unat (round_num a))
        (answered en 0 (all_sent (trace w2)))"
      using inv [OF d(1)] d(2) by auto
    from round_log_finished [OF assms(4) this] inv [OF d(1)] w2(2) show ?thesis by auto
  qed
  have finish: "\<exists>k d' w'. ticks (udp_tick en a) k (d, w2) = Some (d', w') \<and> last (trace w') = EvloopExit"
    if "udp_reaches en a ?d w1 d w2" "uc_ctx d = Some c"
      "\<forall>j \<ge> n_wr w2. wr en j = to_int (msg_size a)" "round_fair en (udp_due a)" for d w2 c
    using udp_ticks_finish [of a d c w2 en] inv [OF that(1)] that(2-4) by blast
  show ?thesis using mem(1) w1 ran finish by blast
qed

text \<open>A run in which the second send fails: the first round is sent again.\<close>

lemma demo_udp_fail_exits:
  assumes "n_wr w = 0"
  shows "\<exists>d' w'. udp_reaches demo_env_fail demo_fast
     \<lparr>uc_ctx = None, uc_dst_sa = demo_sa, uc_last_ts = t, uc_round_index = 0, uc_datas = demo_mem\<rparr> w d' w' \<and>
    EvloopExit \<in> set (trace w')"
proof -
  let ?d = "\<lparr>uc_ctx = None, uc_dst_sa = demo_sa, uc_last_ts = t, uc_round_index = 0, uc_datas = demo_mem\<rparr>"
  let ?w = "emit (Log L_INFO ''session add into evloop: local_addr=%s'') w"
  let ?s = "\<lparr>rs_ctx = Some 3, rs_last_ts = t, rs_index = 0, rs_datas = demo_mem\<rparr>"
  have "udp_reaches demo_env_fail demo_fast ?d w (?d\<lparr>uc_ctx := Some 3\<rparr>) ?w"
    by (rule udp_reaches.add [OF udp_reaches.start]) (simp add: udp_client_on_add_ctx_def)
  moreover have s: "udp_of demo_sa ?s = ?d\<lparr>uc_ctx := Some 3\<rparr>" by (simp add: udp_of_def)
  ultimately have r: "udp_reaches demo_env_fail demo_fast ?d w (udp_of demo_sa ?s) ?w" by (simp add: udp_of_def)
  have ok: "round_state_ok demo_fast ?s" by (simp add: round_state_ok_def)
  have "udp_due demo_fast t' t" for t' by (simp add: udp_due_def)
  then obtain w1 where w1: "udp_client_on_timer demo_env_fail demo_fast (udp_of demo_sa ?s) ?w =
      Some (udp_of demo_sa (?s\<lparr>rs_last_ts := clk demo_env_fail (n_clk ?w)\<rparr>), w1)" "n_wr w1 = 2"
    using udp_round.tick_fails [OF ok, where c = 3 and en = demo_env_fail and w = ?w and sa = demo_sa and j = 1] assms
    by (force dest: udp_timer_some)
  let ?d1 = "udp_of demo_sa (?s\<lparr>rs_last_ts := clk demo_env_fail (n_clk ?w)\<rparr>)"
  note r1 = udp_reaches.timer [OF r w1(1)]
  have fair: "round_fair demo_env_fail (udp_due demo_fast)" by (auto simp: round_fair_def udp_due_def)
  obtain k d' w' where "ticks (udp_tick demo_env_fail demo_fast) k (?d1, w1) = Some (d', w')"
    "EvloopExit \<in> set (trace w')"
    using udp_ticks_finish [of demo_fast ?d1 3 w1 demo_env_fail, OF _ _ _ fair] w1(2) ok
    by (auto simp: round_state_ok_def simp del: ticks.simps udp_of_update)
  with udp_reaches_ticks [OF r1] show ?thesis by blast
qed

theorem udp_client_run_delivers_witness:
  "\<exists>evloop w'. udp_client_run demo_env_fail True (\<lambda>_ _. (0, demo_sa)) (\<lambda>_. 0) evloop demo_fast world0 = Ran w' \<and>
    subseq [msg_head demo_args 0, msg_head demo_args 1, msg_head demo_args 2, msg_head demo_args 3]
      (taken 16 (answered demo_env_fail 0 (all_sent (trace w')))) \<and>
    1 < length (all_sent (trace w')) \<and> wr demo_env_fail 1 = -1"
proof -
  let ?d = "\<lambda>t. \<lparr>uc_ctx = None, uc_dst_sa = demo_sa, uc_last_ts = t, uc_round_index = 0, uc_datas = demo_mem\<rparr>"
  have "\<forall>t w. \<exists>w'. n_wr w = 0 \<longrightarrow>
      (\<exists>d'. udp_reaches demo_env_fail demo_fast (?d t) w d' w' \<and> EvloopExit \<in> set (trace w'))"
    using demo_udp_fail_exits by blast
  then obtain f where f: "\<And>t w. n_wr w = 0 \<Longrightarrow>
      \<exists>d'. udp_reaches demo_env_fail demo_fast (?d t) w d' (f t w) \<and> EvloopExit \<in> set (trace (f t w))"
    by metis
  let ?evloop = "\<lambda>d w. if n_wr w = 0 then Ran (f (uc_last_ts d) w) else Hangs"
  have contract: "udp_evloop_contract demo_env_fail demo_fast ?evloop
      \<lparr>uc_ctx = None, uc_dst_sa = demo_sa, uc_last_ts = t, uc_round_index = 0, uc_datas = mem\<rparr> w"
    if "prepare_datas demo_fast (\<lambda>_. 0) = Some mem" for t mem w
    using f [of w t] that by (auto simp: udp_evloop_contract_def)
  have op: "opens_after demo_env_fail world0 0 5" by (simp add: opens_after_def demo_env_fail_def)
  have h: "cstr (bind_host demo_fast) \<noteq> ''''" "cstr (conn_host demo_fast) \<noteq> ''''" "cstr (conn_port demo_fast) \<noteq> ''''"
    by (simp_all add: demo_fast_def)
  obtain mem t w1 where w1: "prepare_datas demo_fast (\<lambda>_. 0) = Some mem" "no_writes world0 w1"
    "udp_client_run demo_env_fail True (\<lambda>_ _. (0, demo_sa)) (\<lambda>_. 0) ?evloop demo_fast world0 = run_bind
      (?evloop \<lparr>uc_ctx = None, uc_dst_sa = demo_sa, uc_last_ts = t, uc_round_index = 0, uc_datas = mem\<rparr> w1) cleanup"
    "\<And>w'. udp_client_run demo_env_fail True (\<lambda>_ _. (0, demo_sa)) (\<lambda>_. 0) ?evloop demo_fast world0 = Ran w' \<Longrightarrow>
      subseq (map (slot demo_fast mem) [0..<n_msgs demo_fast])
        (taken (to_int (msg_size demo_fast)) (answered demo_env_fail 0 (all_sent (trace w'))))"
    using udp_client_run_delivers [OF h demo_fast_config op _ _ _ _ contract, where fill = "\<lambda>_. 0"
        and gai = "\<lambda>_ _. (0, demo_sa)"] by auto
  have "n_wr w1 = 0" using w1(2) by (simp add: no_writes_def)
  with w1(3) obtain w' where w': "udp_client_run demo_env_fail True (\<lambda>_ _. (0, demo_sa)) (\<lambda>_. 0) ?evloop demo_fast
      world0 = Ran w'" by simp
  have sub: "subseq [msg_head demo_args 0, msg_head demo_args 1, msg_head demo_args 2, msg_head demo_args 3]
      (taken 16 (answered demo_env_fail 0 (all_sent (trace w'))))"
    using w1(1) w1(4) [OF w'] by simp
  have "length (taken 16 (answered demo_env_fail 0 bs)) \<le> length bs" for bs
    by (metis answered_fst length_filter_le length_map taken_def)
  with list_emb_length [OF sub] have "4 \<le> length (all_sent (trace w'))" using order_trans by fastforce
  with w' sub show ?thesis by (intro exI [of _ ?evloop] exI [of _ w']) simp
qed

end
