(* ===== verification/UdpServer.thy ===== *)
theory UdpServer
  imports TcpUpstream
begin

text \<open>
  The UDP server and the UDP upstream (\<open>app/udp_server\<close>, \<open>app/udp_upstream\<close>): one
  datagram per event, received into a buffer of 1024 bytes on the stack. What the buffer holds
  before is a parameter (\<open>junk\<close>): the handlers read header and data block from it also when
  the datagram is shorter.
\<close>

section \<open>Receiving\<close>

text \<open>What \<open>recvfrom\<close> gives: its result, the bytes it stores, and the sender.\<close>

record datagram =
  dg_ret :: int
  dg_bytes :: bytes
  dg_from :: sockaddr

abbreviation UDP_BUF_SIZE :: nat where "UDP_BUF_SIZE \<equiv> 1024"

definition datagram_ok :: "bytes \<Rightarrow> datagram \<Rightarrow> bool" where
  "datagram_ok junk g \<longleftrightarrow> length junk = UDP_BUF_SIZE \<and> length (dg_bytes g) \<le> UDP_BUF_SIZE \<and>
     (0 < dg_ret g \<longrightarrow> dg_ret g = int (length (dg_bytes g)))"

definition recv_into :: "bytes \<Rightarrow> datagram \<Rightarrow> bytes" where
  "recv_into junk g = dg_bytes g @ drop (length (dg_bytes g)) junk"

section \<open>The server\<close>

record udp_server_evloop_data_t =
  uv_ctx :: "ctx option"
  uv_upstream_sa :: sockaddr

definition udp_server_on_add_ctx ::
  "ctx \<Rightarrow> udp_server_evloop_data_t \<Rightarrow> world \<Rightarrow> udp_server_evloop_data_t \<times> world" where
  "udp_server_on_add_ctx c d w =
     (d\<lparr>uv_ctx := Some c\<rparr>, emit (Log L_INFO ''session add into evloop: local_addr=%s'') w)"

text \<open>\<open>None\<close>: the context of the event loop data is NULL when it is used.\<close>

definition udp_server_on_message ::
  "env \<Rightarrow> udp_server_evloop_data_t \<Rightarrow> bytes \<Rightarrow> datagram \<Rightarrow> world \<Rightarrow> world option" where
  "udp_server_on_message en d junk g w =
     (let num_bytes = dg_ret g; buf = recv_into junk g
      in if num_bytes \<le> 0 then Some (emit (Log L_ERROR ''failed read from socket context'') w)
      else
        let h = dec_hdr buf;
            w = nb_assert (msg_id h = 1) ''hdr->msg_id == 1'' w;
            m = dec_data (drop sizeof_hdr buf);
            w = nb_assert (to_int (8 + payload_len h) = num_bytes)
                  ''(int)(sizeof(nb_msg_hdr_t) + hdr->payload_len) == num_bytes'' w;
            w = netbench_record en (msg_user_id m) (msg_sequence m) (word_of_int num_bytes)
                  ''server.rcv'' w
        in if \<not> nb_sockaddr_equal (uv_upstream_sa d) (dg_from g)
           then
             let w = netbench_record en (msg_user_id m) (msg_sequence m) (word_of_int num_bytes)
                       ''server.snd_begin'' w
             in do { c \<leftarrow> uv_ctx d;
                     let (send_bytes, w) = sock_sendto en c (take (nat num_bytes) buf) (uv_upstream_sa d) w
                     in if send_bytes \<noteq> num_bytes
                        then Some (emit (Log L_ERROR ''failed send message: seq=%u'') w)
                        else Some w }
           else Some w)"

definition udp_server_run ::
  "env \<Rightarrow> bool \<Rightarrow> resolver \<Rightarrow> (udp_server_evloop_data_t \<Rightarrow> world \<Rightarrow> run_result) \<Rightarrow>
   nb_sys_args_t \<Rightarrow> world \<Rightarrow> run_result" where
  "udp_server_run en ev_ok gai evloop a w =
     (if cstr (serv_host a) = '''' \<or> cstr (serv_port a) = ''''
      then Ran (emit (Log L_ERROR ''server run without server host/port'') w)
      else if cstr (conn_host a) = '''' \<or> cstr (conn_port a) = ''''
      then Ran (emit (Log L_ERROR ''server run without connect host/port'') w)
      else
        let ((ret, sa), w) = socket_getaddrinfo gai (cstr (conn_host a)) (cstr (conn_port a)) w
        in if ret \<noteq> 0
      then Ran (emit (Log L_ERROR ''failed get addrinfo: host=%s, port=%s'') w)
      else with_evloop ev_ok [''add_ctx'', ''msg''] (-1) a
        (\<lambda>w. add_opened (nb_udp_bind en a w)
          (evloop_run_and_delete (evloop \<lparr>uv_ctx = None, uv_upstream_sa = sa\<rparr>) [])) w)"

definition udp_server_main ::
  "env \<Rightarrow> bool \<Rightarrow> resolver \<Rightarrow> (udp_server_evloop_data_t \<Rightarrow> world \<Rightarrow> run_result) \<Rightarrow>
   init_result \<times> world \<Rightarrow> run_result" where
  "udp_server_main en ev_ok gai evloop = app_main (udp_server_run en ev_ok gai evloop)"

section \<open>The upstream\<close>

text \<open>It reads with \<open>muggle_socket_ctx_read\<close> and needs no address.\<close>

definition udp_upstream_on_message :: "env \<Rightarrow> bytes \<Rightarrow> datagram \<Rightarrow> world \<Rightarrow> world" where
  "udp_upstream_on_message en junk g w =
     (let num_bytes = dg_ret g; buf = recv_into junk g
      in if num_bytes \<le> 0 then emit (Log L_ERROR ''failed read from socket context'') w
      else
        let h = dec_hdr buf;
            w = nb_assert (msg_id h = 1) ''hdr->msg_id == 1'' w;
            m = dec_data (drop sizeof_hdr buf);
            w = nb_assert (to_int (8 + payload_len h) = num_bytes)
                  ''(int)(sizeof(nb_msg_hdr_t) + hdr->payload_len) == num_bytes'' w
        in netbench_record en (msg_user_id m) (msg_sequence m) (word_of_int num_bytes)
             ''upstream.rcv'' w)"

definition udp_upstream_run ::
  "env \<Rightarrow> bool \<Rightarrow> (world \<Rightarrow> run_result) \<Rightarrow> nb_sys_args_t \<Rightarrow> world \<Rightarrow> run_result" where
  "udp_upstream_run en ev_ok evloop a w =
     (if cstr (serv_host a) = '''' \<or> cstr (serv_port a) = ''''
      then Ran (emit (Log L_ERROR ''server run without server host/port'') w)
      else with_evloop ev_ok [''msg''] (-1) a
        (\<lambda>w. add_opened (nb_udp_bind en a w) (evloop_run_and_delete evloop [])) w)"

definition udp_upstream_main ::
  "env \<Rightarrow> bool \<Rightarrow> (world \<Rightarrow> run_result) \<Rightarrow> init_result \<times> world \<Rightarrow> run_result" where
  "udp_upstream_main en ev_ok evloop = app_main (udp_upstream_run en ev_ok evloop)"

section \<open>Lemmas\<close>

text \<open>A datagram with a whole message: the junk behind it does not matter.\<close>

lemma recv_into_msg:
  assumes "16 \<le> length (dg_bytes g)"
  shows "dec_hdr (recv_into junk g) = dec_hdr (dg_bytes g)"
    and "dec_data (drop 8 (recv_into junk g)) = dec_data (drop 8 (dg_bytes g))"
  using assms by (simp_all add: recv_into_def dec_hdr_append dec_data_def un32_append)

lemma take_recv_into:
  "datagram_ok junk g \<Longrightarrow> 0 < dg_ret g \<Longrightarrow> take (nat (dg_ret g)) (recv_into junk g) = dg_bytes g"
  by (simp add: datagram_ok_def recv_into_def)

lemma datagram_frame:
  assumes "datagram_ok junk g" and "is_frame (dg_bytes g)" and "0 < dg_ret g"
  shows "to_int (8 + payload_len (dec_hdr (dg_bytes g))) = dg_ret g"
    and "(word_of_int (dg_ret g) :: u32) = 8 + payload_len (dec_hdr (dg_bytes g))"
proof -
  let ?n = "8 + payload_len (dec_hdr (dg_bytes g))"
  have len: "length (dg_bytes g) \<le> 1024" "dg_ret g = int (length (dg_bytes g))"
    using assms by (simp_all add: datagram_ok_def)
  then have u: "unat ?n = length (dg_bytes g)" by (intro frame_msz assms(2)) simp
  then show "to_int ?n = dg_ret g" using len to_int_small [of ?n] by simp
  show "(word_of_int (dg_ret g) :: u32) = ?n"
    using arg_cong [OF u, of "word_of_nat :: nat \<Rightarrow> u32"] len(2) by simp
qed

text \<open>One datagram that is a whole message.\<close>

definition whole_datagram :: "bytes \<Rightarrow> datagram \<Rightarrow> bool" where
  "whole_datagram junk g \<longleftrightarrow> datagram_ok junk g \<and> 0 < dg_ret g \<and> is_frame (dg_bytes g) \<and>
     16 \<le> length (dg_bytes g) \<and> msg_id (dec_hdr (dg_bytes g)) = 1"

lemma server_datagram:
  assumes "whole_datagram junk g" and "\<not> nb_sockaddr_equal (uv_upstream_sa d) (dg_from g)"
    and "uv_ctx d = Some c"
  shows "\<exists>w' es. udp_server_on_message en d junk g w = Some w' \<and> trace w' = trace w @ es \<and>
    sent_to c (uv_upstream_sa d) es = [dg_bytes g] \<and> asserts_ok es \<and>
    map rec_key (committed es) = map (frame_key (dg_bytes g)) [''server.rcv'', ''server.snd_begin'']"
proof -
  have g: "datagram_ok junk g" "0 < dg_ret g" "is_frame (dg_bytes g)" "16 \<le> length (dg_bytes g)"
    "msg_id (dec_hdr (dg_bytes g)) = 1" "\<not> dg_ret g \<le> 0"
    using assms(1) by (simp_all add: whole_datagram_def)
  note [simp] = recv_into_msg [OF g(4)] take_recv_into [OF g(1,2)] datagram_frame [OF g(1,3,2)]
  show ?thesis
    using assms(2,3) g(5,6)
    by (auto simp: udp_server_on_message_def sock_sendto_def Let_def rec_key_def rec_at_def frame_key_def)
qed

lemma upstream_datagram:
  assumes "whole_datagram junk g"
  shows "\<exists>es. trace (udp_upstream_on_message en junk g w) = trace w @ es \<and> asserts_ok es \<and>
    map rec_key (committed es) = map (frame_key (dg_bytes g)) [''upstream.rcv'']"
proof -
  have g: "datagram_ok junk g" "0 < dg_ret g" "is_frame (dg_bytes g)" "16 \<le> length (dg_bytes g)"
    "msg_id (dec_hdr (dg_bytes g)) = 1" "\<not> dg_ret g \<le> 0"
    using assms by (simp_all add: whole_datagram_def)
  note [simp] = recv_into_msg [OF g(4)] datagram_frame [OF g(1,3,2)]
  show ?thesis
    using g(5,6) by (simp add: udp_upstream_on_message_def Let_def rec_key_def rec_at_def frame_key_def)
qed

section \<open>Any number of datagrams\<close>

text \<open>A delivery is a datagram with what the stack buffer held before.\<close>

type_synonym delivery = "bytes \<times> datagram"

abbreviation delivered :: "delivery list \<Rightarrow> bytes list" where
  "delivered gs \<equiv> map (\<lambda>g. dg_bytes (snd g)) gs"

fun udp_server_datagrams :: "env \<Rightarrow> udp_server_evloop_data_t \<Rightarrow> delivery list \<Rightarrow> world \<Rightarrow> world option" where
  "udp_server_datagrams en d [] w = Some w"
| "udp_server_datagrams en d ((junk, g) # gs) w =
     Option.bind (udp_server_on_message en d junk g w) (udp_server_datagrams en d gs)"

fun udp_upstream_datagrams :: "env \<Rightarrow> delivery list \<Rightarrow> world \<Rightarrow> world" where
  "udp_upstream_datagrams en [] w = w"
| "udp_upstream_datagrams en ((junk, g) # gs) w =
     udp_upstream_datagrams en gs (udp_upstream_on_message en junk g w)"

lemma server_datagrams:
  assumes "uv_ctx d = Some c"
  shows "(\<And>junk g. (junk, g) \<in> set gs \<Longrightarrow>
      whole_datagram junk g \<and> \<not> nb_sockaddr_equal (uv_upstream_sa d) (dg_from g)) \<Longrightarrow>
    \<exists>w' es. udp_server_datagrams en d gs w = Some w' \<and> trace w' = trace w @ es \<and>
      sent_to c (uv_upstream_sa d) es = delivered gs \<and> asserts_ok es \<and>
      map rec_key (committed es) =
        concat (map (\<lambda>f. map (frame_key f) [''server.rcv'', ''server.snd_begin'']) (delivered gs))"
proof (induction gs arbitrary: w)
  case Nil
  then show ?case by simp
next
  case (Cons x gs)
  obtain junk g where x: "x = (junk, g)" by (cases x)
  obtain w1 es1 where w1: "udp_server_on_message en d junk g w = Some w1" "trace w1 = trace w @ es1"
    "sent_to c (uv_upstream_sa d) es1 = [dg_bytes g]" "asserts_ok es1"
    "map rec_key (committed es1) = map (frame_key (dg_bytes g)) [''server.rcv'', ''server.snd_begin'']"
    using server_datagram [of junk g d c en w] Cons.prems [of junk g] assms x by auto
  obtain w' es where "udp_server_datagrams en d gs w1 = Some w'" "trace w' = trace w1 @ es"
    "sent_to c (uv_upstream_sa d) es = delivered gs" "asserts_ok es"
    "map rec_key (committed es) =
      concat (map (\<lambda>f. map (frame_key f) [''server.rcv'', ''server.snd_begin'']) (delivered gs))"
    using Cons.IH [of w1] Cons.prems by fastforce
  with w1 x show ?case by (intro exI [of _ w'] exI [of _ "es1 @ es"]) simp
qed

lemma upstream_datagrams:
  "(\<And>junk g. (junk, g) \<in> set gs \<Longrightarrow> whole_datagram junk g) \<Longrightarrow>
   \<exists>es. trace (udp_upstream_datagrams en gs w) = trace w @ es \<and> asserts_ok es \<and>
     map rec_key (committed es) =
       concat (map (\<lambda>f. map (frame_key f) [''upstream.rcv'']) (delivered gs))"
proof (induction gs arbitrary: w)
  case Nil
  then show ?case by simp
next
  case (Cons x gs)
  obtain junk g where x: "x = (junk, g)" by (cases x)
  obtain es1 where es1: "trace (udp_upstream_on_message en junk g w) = trace w @ es1" "asserts_ok es1"
    "map rec_key (committed es1) = map (frame_key (dg_bytes g)) [''upstream.rcv'']"
    using upstream_datagram [of junk g en w] Cons.prems [of junk g] x by auto
  obtain es where "trace (udp_upstream_datagrams en gs (udp_upstream_on_message en junk g w)) =
      trace (udp_upstream_on_message en junk g w) @ es" "asserts_ok es"
    "map rec_key (committed es) =
       concat (map (\<lambda>f. map (frame_key f) [''upstream.rcv'']) (delivered gs))"
    using Cons.IH [of "udp_upstream_on_message en junk g w"] Cons.prems by fastforce
  with es1 x show ?case by (intro exI [of _ "es1 @ es"]) simp
qed

section \<open>Properties\<close>

text \<open>A datagram that is one whole message and does not come from the upstream is recorded twice with its
  user id, sequence number and size, and its bytes are sent once, unchanged, to the upstream
  address; no assertion fails.\<close>

theorem udp_server_forwards:
  assumes "datagram_ok junk g" and "0 < dg_ret g" and "is_frame (dg_bytes g)"
    and "16 \<le> length (dg_bytes g)" and "msg_id (dec_hdr (dg_bytes g)) = 1"
    and "\<not> nb_sockaddr_equal (uv_upstream_sa d) (dg_from g)" and "uv_ctx d = Some c"
  shows "\<exists>w' es. udp_server_on_message en d junk g w = Some w' \<and> trace w' = trace w @ es \<and>
    sent_to c (uv_upstream_sa d) es = [dg_bytes g] \<and> asserts_ok es \<and>
    map rec_key (committed es) =
      [frame_key (dg_bytes g) ''server.rcv'', frame_key (dg_bytes g) ''server.snd_begin'']"
  using server_datagram [of junk g d c en w] assms by (simp add: whole_datagram_def)

abbreviation demo_dgram :: "sockaddr \<Rightarrow> datagram" where
  "demo_dgram sa \<equiv> \<lparr>dg_ret = 16, dg_bytes = msg_head demo_args 2, dg_from = sa\<rparr>"

theorem udp_server_forwards_witness:
  "\<exists>w'. udp_server_on_message demo_env \<lparr>uv_ctx = Some 3, uv_upstream_sa = SockaddrIn 80 1\<rparr>
      (replicate 1024 0xAA) (demo_dgram (SockaddrIn 99 2)) world0 = Some w' \<and>
    sent_to 3 (SockaddrIn 80 1) (trace w') = [msg_head demo_args 2]"
proof -
  have "valid_frame (msg_head demo_args 2)" by simp
  then have "is_frame (msg_head demo_args 2)" by (simp only: valid_frame_def)
  then show ?thesis
    using udp_server_forwards [of "replicate 1024 0xAA" "demo_dgram (SockaddrIn 99 2)"
        "\<lparr>uv_ctx = Some 3, uv_upstream_sa = SockaddrIn 80 1\<rparr>" 3 demo_env world0]
    by (auto simp: datagram_ok_def msg_head_dec [of _ _ "[]", simplified] nb_sockaddr_equal_def)
qed

text \<open>A datagram from the upstream itself is recorded as received and not sent back.\<close>

theorem udp_server_keeps_upstream:
  assumes "nb_sockaddr_equal (uv_upstream_sa d) (dg_from g)"
  shows "\<exists>w' es. udp_server_on_message en d junk g w = Some w' \<and> trace w' = trace w @ es \<and>
    (\<forall>c sa. sent_to c sa es = []) \<and>
    map r_action (committed es) = (if 0 < dg_ret g then [''server.rcv''] else [])"
  using assms by (auto simp: udp_server_on_message_def Let_def rec_at_def)

theorem udp_server_keeps_upstream_witness:
  "\<exists>w'. udp_server_on_message demo_env \<lparr>uv_ctx = Some 3, uv_upstream_sa = SockaddrIn 80 1\<rparr>
      (replicate 1024 0xAA) (demo_dgram (SockaddrIn 80 1)) world0 = Some w' \<and>
    sent_to 3 (SockaddrIn 80 1) (trace w') = []"
  using udp_server_keeps_upstream [of "\<lparr>uv_ctx = Some 3, uv_upstream_sa = SockaddrIn 80 1\<rparr>"
      "demo_dgram (SockaddrIn 80 1)" demo_env "replicate 1024 0xAA" world0]
  by (auto simp: nb_sockaddr_equal_def)

text \<open>The upstream records a datagram that is one whole message once, with the user id, sequence number and
  size of the message, whatever the stack held before.\<close>

theorem udp_upstream_records:
  assumes "datagram_ok junk g" and "0 < dg_ret g" and "is_frame (dg_bytes g)"
    and "16 \<le> length (dg_bytes g)" and "msg_id (dec_hdr (dg_bytes g)) = 1"
  shows "\<exists>es. trace (udp_upstream_on_message en junk g w) = trace w @ es \<and> asserts_ok es \<and>
    map rec_key (committed es) = [frame_key (dg_bytes g) ''upstream.rcv'']"
  using upstream_datagram [of junk g en w] assms by (simp add: whole_datagram_def)

theorem udp_upstream_records_witness:
  "map rec_key (committed (trace (udp_upstream_on_message demo_env (replicate 1024 0xAA)
     (demo_dgram (SockaddrIn 80 1)) world0))) = [(7, 2, 16, ''upstream.rcv'')]"
proof -
  have "valid_frame (msg_head demo_args 2)" by simp
  then have f: "is_frame (msg_head demo_args 2)" by (simp only: valid_frame_def)
  have k: "frame_key (msg_head demo_args 2) act = (7, 2, 16, act)" for act
    by (simp add: frame_key_def msg_head_dec [of _ _ "[]", simplified])
  from f show ?thesis
    using udp_upstream_records [of "replicate 1024 0xAA" "demo_dgram (SockaddrIn 80 1)" demo_env world0]
    by (auto simp: datagram_ok_def msg_head_dec [of _ _ "[]", simplified] k)
qed

lemma un32_top_byte: "4 \<le> length bs \<Longrightarrow> bit (un32 bs) 24 = bit (bs ! 3) 0"
  by (cases bs rule: un32.cases) (auto simp: bit_simps nth_Cons' dest: bit_imp_le_length)

lemma short_datagram_stack:
  assumes "length (dg_bytes g) < 16" and "length junk = UDP_BUF_SIZE"
  shows "bit (msg_sequence (dec_data (drop 8 (recv_into junk g)))) 24 = bit (junk ! 15) 0"
proof -
  let ?bs = "drop 12 (recv_into junk g)"
  have len: "length (recv_into junk g) = 1024" using assms by (simp add: recv_into_def)
  have "?bs ! 3 = recv_into junk g ! 15" using len by simp
  also have "\<dots> = junk ! 15" using assms unfolding recv_into_def by (simp add: nth_append)
  finally have "?bs ! 3 = junk ! 15" .
  with len un32_top_byte [of ?bs] show ?thesis by (simp add: dec_data_def)
qed

text \<open>C37: A datagram of less than 16 bytes, too short for header and data block, is not rejected: the handler
  commits exactly one record for it, and there are two contents of the stack for which the
  user id or the sequence number of that record differ. The two NB_ASSERTs before the record do not
  prevent it: a build without assertions always commits the record, and a datagram that holds a
  whole header, with \<open>msg_id\<close> 1 and the length it has, fails none of them.\<close>

theorem udp_upstream_short_datagram:
  assumes "0 < dg_ret g" and "length (dg_bytes g) < 16"
  shows "\<exists>junk1 junk2 es1 es2 uid1 seq1 uid2 seq2. length junk1 = UDP_BUF_SIZE \<and> length junk2 = UDP_BUF_SIZE \<and>
    trace (udp_upstream_on_message en junk1 g w) = trace w @ es1 \<and>
    trace (udp_upstream_on_message en junk2 g w) = trace w @ es2 \<and>
    map rec_key (committed es1) = [(uid1, seq1, word_of_int (dg_ret g), ''upstream.rcv'')] \<and>
    map rec_key (committed es2) = [(uid2, seq2, word_of_int (dg_ret g), ''upstream.rcv'')] \<and>
    (uid1, seq1) \<noteq> (uid2, seq2) \<and>
    (8 \<le> length (dg_bytes g) \<and> msg_id (dec_hdr (dg_bytes g)) = 1 \<and>
       to_int (8 + payload_len (dec_hdr (dg_bytes g))) = dg_ret g \<longrightarrow> asserts_ok es1 \<and> asserts_ok es2)"
proof -
  let ?junk = "\<lambda>b :: u8. replicate UDP_BUF_SIZE b"
  let ?m = "\<lambda>b. dec_data (drop 8 (recv_into (?junk b) g))"
  have run: "\<exists>es. trace (udp_upstream_on_message en junk g w) = trace w @ es \<and>
      map rec_key (committed es) = [(msg_user_id (dec_data (drop 8 (recv_into junk g))),
        msg_sequence (dec_data (drop 8 (recv_into junk g))), word_of_int (dg_ret g), ''upstream.rcv'')] \<and>
      (8 \<le> length (dg_bytes g) \<and> msg_id (dec_hdr (dg_bytes g)) = 1 \<and>
         to_int (8 + payload_len (dec_hdr (dg_bytes g))) = dg_ret g \<longrightarrow> asserts_ok es)" for junk
    using assms(1)
    by (auto simp: udp_upstream_on_message_def Let_def rec_key_def rec_at_def recv_into_def dec_hdr_append)
  have "bit (msg_sequence (?m b)) 24 = bit b 0" for b
    using short_datagram_stack [OF assms(2), of "?junk b"] by simp
  then have "msg_sequence (?m 0) \<noteq> msg_sequence (?m 1)" by (metis bit_0_eq bit_1_0 bot_apply bot_bool_def)
  with run [of "?junk 0"] run [of "?junk 1"] show ?thesis
    by (intro exI [of _ "?junk 0"] exI [of _ "?junk 1"]) auto
qed

theorem udp_upstream_short_datagram_witness:
  "\<exists>junk1 junk2 es1 es2. asserts_ok es1 \<and> asserts_ok es2 \<and>
    trace (udp_upstream_on_message demo_env junk1 \<lparr>dg_ret = 12, dg_bytes = [1, 0, 0, 0, 4, 0, 0, 0, 7, 0, 0, 0],
      dg_from = SockaddrIn 80 1\<rparr> world0) = es1 \<and>
    trace (udp_upstream_on_message demo_env junk2 \<lparr>dg_ret = 12, dg_bytes = [1, 0, 0, 0, 4, 0, 0, 0, 7, 0, 0, 0],
      dg_from = SockaddrIn 80 1\<rparr> world0) = es2 \<and>
    map rec_key (committed es1) \<noteq> map rec_key (committed es2)"
proof -
  let ?g = "\<lparr>dg_ret = 12, dg_bytes = [1, 0, 0, 0, 4, 0, 0, 0, 7, 0, 0, 0], dg_from = SockaddrIn 80 1\<rparr>"
  have "msg_id (dec_hdr (dg_bytes ?g)) = 1" "to_int (8 + payload_len (dec_hdr (dg_bytes ?g))) = 12" by code_simp+
  with udp_upstream_short_datagram [of ?g demo_env world0] show ?thesis by fastforce
qed

end
