(* ===== verification/UdpSystem.thy ===== *)
theory UdpSystem
  imports "HOL-Library.Multiset" UdpClientRun UdpServer ClientMessages
begin

text \<open>
  The UDP client, server and upstream together, over a network that loses, repeats and reorders.
\<close>

section \<open>The three UDP programs\<close>

lemma delivered_whole:
  assumes "config_ok a" and "datas_ok a mem" and "n \<le> n_msgs a"
    and "set (delivered gs) \<subseteq> slot a mem ` {0..<n}"
    and "\<And>junk g. (junk, g) \<in> set gs \<Longrightarrow> datagram_ok junk g \<and> 0 < dg_ret g"
    and "(junk, g) \<in> set gs"
  shows "whole_datagram junk g"
proof -
  have "dg_bytes g \<in> slot a mem ` {0..<n}" using assms(4,6) by force
  then obtain i where i: "i < n" "dg_bytes g = slot a mem i" by auto
  then have "i < n_msgs a" using assms(3) by simp
  with i slot_msg_id [OF assms(1,2), of i] assms(5) [OF assms(6)] show ?thesis
    by (simp add: whole_datagram_def)
qed

text \<open>What the client has sent, whatever failed.\<close>

lemma udp_sent_slots:
  assumes l: "udp_logged en a mem sa d w"
  shows "set (all_sent (trace w)) \<subseteq>
      slot a mem ` {0..<min (n_msgs a) (Suc (unat (uc_round_index d)) * unat (num_per_round a))}"
    and "(\<And>j. wr en j = to_int (msg_size a)) \<Longrightarrow>
      all_sent (trace w) = map (slot a mem) [0..<unat (uc_round_index d) * unat (num_per_round a)]"
    and "unat (uc_round_index d) * unat (num_per_round a) \<le> n_msgs a"
proof -
  let ?l = "answered en 0 (all_sent (trace w))"
  have a: "config_ok a" and r: "unat (uc_round_index d) \<le> unat (round_num a)"
    using l by (auto simp: udp_logged_def udp_client_ok_def word_le_nat_alt)
  have rl: "round_log (to_int (msg_size a)) (round_slots a mem) (unat (round_num a)) (unat (uc_round_index d)) ?l"
    using l by (simp add: udp_logged_def)
  show "set (all_sent (trace w)) \<subseteq>
      slot a mem ` {0..<min (n_msgs a) (Suc (unat (uc_round_index d)) * unat (num_per_round a))}"
  proof
    fix m assume "m \<in> set (all_sent (trace w))"
    then have "m \<in> fst ` set ?l" by (metis answered_fst set_map)
    then obtain x where "(m, x) \<in> set ?l" by auto
    from round_log_ahead [OF a rl this]
    show "m \<in> slot a mem ` {0..<min (n_msgs a) (Suc (unat (uc_round_index d)) * unat (num_per_round a))}" by auto
  qed
  show "all_sent (trace w) = map (slot a mem) [0..<unat (uc_round_index d) * unat (num_per_round a)]"
    if "\<And>j. wr en j = to_int (msg_size a)"
  proof -
    have "?l = map (\<lambda>m. (m, to_int (msg_size a))) (all_sent (trace w))"
      by (rule answered_good) (rule that)
    then have "\<forall>(m, x) \<in> set ?l. x = to_int (msg_size a)" by auto
    from round_log_good [OF rl this] show ?thesis by (simp add: concat_round_slots)
  qed
  show "unat (uc_round_index d) * unat (num_per_round a) \<le> n_msgs a"
    using r by (simp add: config_n_msgs [OF a] mult.commute [of "unat (num_per_round a)"] mult_le_mono1)
qed

lemma udp_sent_seqs:
  assumes l: "udp_logged en a mem sa d w" and "datas_ok a mem" and "\<forall>j. wr en j = to_int (msg_size a)"
    and "mset H = mset (all_sent (trace w))"
  shows "mset (map seq_of H) = mset [0..<unat (uc_round_index d) * unat (num_per_round a)]"
proof -
  let ?n = "unat (uc_round_index d) * unat (num_per_round a)"
  have a: "config_ok a" using l by (simp add: udp_logged_def udp_client_ok_def)
  have "mset H = mset (map (slot a mem) [0..<?n])"
    using assms(3,4) udp_sent_slots(2) [OF l] by simp
  then have "mset (map seq_of H) = mset (map seq_of (map (slot a mem) [0..<?n]))" by (simp only: mset_map)
  also have "map seq_of (map (slot a mem) [0..<?n]) = [0..<?n]"
    using seq_of_slot [OF a assms(2)] udp_sent_slots(3) [OF l] by simp (rule map_idI, simp)
  finally show ?thesis .
qed


definition demo_server_data :: udp_server_evloop_data_t where
  "demo_server_data = \<lparr>uv_ctx = Some 4, uv_upstream_sa = SockaddrIn 81 2\<rparr>"

definition demo_delivery :: "bytes \<Rightarrow> delivery" where
  "demo_delivery b = (replicate 1024 0xAA, \<lparr>dg_ret = int (length b), dg_bytes = b, dg_from = SockaddrIn 99 3\<rparr>)"

lemma demo_server_ctx [simp]: "uv_ctx demo_server_data = Some 4"
  by (simp add: demo_server_data_def)

lemma demo_delivery_bytes [simp]: "(\<lambda>g. dg_bytes (snd g)) \<circ> demo_delivery = id"
  by (auto simp: demo_delivery_def)

lemma demo_delivered: "delivered (map demo_delivery bs) = bs"
  by simp

lemma demo_delivery_ok:
  assumes "(junk, g) \<in> set (map demo_delivery bs)" and "\<And>b. b \<in> set bs \<Longrightarrow> length b = 16"
  shows "datagram_ok junk g \<and> 0 < dg_ret g \<and> \<not> nb_sockaddr_equal (uv_upstream_sa demo_server_data) (dg_from g)"
  using assms by (auto simp: demo_delivery_def datagram_ok_def demo_server_data_def nb_sockaddr_equal_def)

lemma demo_udp_exits:
  "\<exists>d' w'. udp_reaches demo_env demo_fast
     \<lparr>uc_ctx = None, uc_dst_sa = demo_sa, uc_last_ts = t, uc_round_index = 0, uc_datas = demo_mem\<rparr> w d' w' \<and>
    EvloopExit \<in> set (trace w')"
proof -
  let ?d = "\<lparr>uc_ctx = None, uc_dst_sa = demo_sa, uc_last_ts = t, uc_round_index = 0, uc_datas = demo_mem\<rparr>"
  let ?w = "emit (Log L_INFO ''session add into evloop: local_addr=%s'') w"
  have "udp_reaches demo_env demo_fast ?d w (?d\<lparr>uc_ctx := Some 3\<rparr>) ?w"
    by (rule udp_reaches.add [OF udp_reaches.start]) (simp add: udp_client_on_add_ctx_def)
  moreover obtain k d' w' where "ticks (udp_tick demo_env demo_fast) k (?d\<lparr>uc_ctx := Some 3\<rparr>, ?w) = Some (d', w')"
    "EvloopExit \<in> set (trace w')"
    using udp_ticks_complete [OF demo_fast_config, of demo_mem ?w demo_env 3 demo_sa t] demo_udp_fair
    by (auto simp del: ticks.simps)
  ultimately show ?thesis using udp_reaches_ticks by blast
qed


end
