(* ===== verification/ThreadApp.thy ===== *)
theory ThreadApp
  imports "HOL-Library.Sublist" TcpServer
begin

text \<open>
  The thread benchmark (\<open>app/thread\<close>): a producer that walks through the message array
  and writes a copy of every message to a channel, and a consumer thread that records what it
  reads until it reads NULL. The channel and the memory pool belong to mugglec: what they
  promise is a hypothesis (\<open>channel_ok\<close>, \<open>pool\<close>).
\<close>

section \<open>The producer\<close>

text \<open>
  \<open>pool seq\<close>: the allocation for the message with this number succeeds.
  \<open>None\<close> is an access outside of an allocation, the NULL of the pool included.
\<close>

definition producer_one ::
  "env \<Rightarrow> nb_sys_args_t \<Rightarrow> (u32 \<Rightarrow> bool) \<Rightarrow> bytes \<Rightarrow> u32 \<Rightarrow> world \<Rightarrow> world option" where
  "producer_one en a pool mem seq w =
     (let off = unat (msg_size a * seq)
      in do { uid \<leftarrow> get_u32 mem (off + 8);
              dseq \<leftarrow> get_u32 mem (off + 12);
              let w = nb_assert (dseq = seq) ''data->sequence == seq''
                        (nb_assert (uid = user_id a) ''data->user_id == args->user_id'' w);
              let w = netbench_record en uid dseq (msg_size a) ''producer.prepare'' w;
              let w = emit (Call ''muggle_ts_memory_pool_alloc'' []) w;
              buf \<leftarrow> get_bytes mem off (unat (msg_size a));
              (if pool seq then Some () else None);
              let w = netbench_record en uid dseq (msg_size a) ''producer.push_begin'' w;
              let w = emit (ChanWrite (Some buf)) w;
              Some (netbench_record en uid dseq (msg_size a) ''producer.push_end'' w) })"

function producer_round ::
  "env \<Rightarrow> nb_sys_args_t \<Rightarrow> (u32 \<Rightarrow> bool) \<Rightarrow> bytes \<Rightarrow> u32 \<Rightarrow> u32 \<Rightarrow> world \<Rightarrow> world option" where
  "producer_round en a pool mem round i w =
     (if i < num_per_round a
      then Option.bind (producer_one en a pool mem (round * num_per_round a + i) w)
             (producer_round en a pool mem round (i + 1))
      else Some w)"
  by pat_completeness auto
termination
  by (relation "measure (\<lambda>(_, a, _, _, _, i, _). unat (num_per_round a) - unat i)")
     (auto simp: u32_succ_no_wrap word_less_nat_alt)

declare producer_round.simps [simp del]

function producer ::
  "env \<Rightarrow> nb_sys_args_t \<Rightarrow> (u32 \<Rightarrow> bool) \<Rightarrow> bytes \<Rightarrow> u32 \<Rightarrow> world \<Rightarrow> world option" where
  "producer en a pool mem round w =
     (if round < round_num a
      then Option.bind (producer_round en a pool mem round 0 w)
             (\<lambda>w. producer en a pool mem (round + 1)
                    (emit (Call ''muggle_msleep'' [ANat (unat (round_interval_ms a))]) w))
      else Some w)"
  by pat_completeness auto
termination
  by (relation "measure (\<lambda>(_, a, _, _, round, _). unat (round_num a) - unat round)")
     (auto simp: u32_succ_no_wrap word_less_nat_alt)

declare producer.simps [simp del]

section \<open>The consumer\<close>

text \<open>The body of its loop for a message \<open>p\<close>, a copy of \<open>msg_size\<close> bytes.\<close>

definition consumer_one :: "env \<Rightarrow> bytes \<Rightarrow> world \<Rightarrow> world option" where
  "consumer_one en p w =
     (if length p < sizeof_hdr + sizeof_data then None
      else
        let h = dec_hdr p;
            data = dec_data (drop sizeof_hdr p);
            msz = 8 + payload_len h;
            w = netbench_record en (msg_user_id data) (msg_sequence data) msz ''consumer.rcv'' w
        in Some (emit (Call ''muggle_ts_memory_pool_free'' []) w))"

text \<open>The consumer on what it reads from the channel, up to the NULL.\<close>

fun consumer :: "env \<Rightarrow> bytes option list \<Rightarrow> world \<Rightarrow> world option" where
  "consumer en (Some p # xs) w = Option.bind (consumer_one en p w) (consumer en xs)"
| "consumer en (None # xs) w = Some (nb_record_cleanup_thread_ctx w)"
| "consumer en [] w = Some w"

section \<open>The threads in steps\<close>

text \<open>
  The same code cut into steps, to interleave the two threads: where the first thread is in
  \<open>producer\<close> (the two loop counters) or in the rest of \<open>run\<close>, and one pass of its inner
  loop, the sleep at the end of a round, or the writing of NULL as one step. All of a pass but the
  write to the channel is local to the thread or a call of the pool, so the pass is one step.
\<close>

datatype main_pc = InRound u32 u32 | Joining | Finished | Crashed

fun main_step ::
  "env \<Rightarrow> nb_sys_args_t \<Rightarrow> (u32 \<Rightarrow> bool) \<Rightarrow> bytes \<Rightarrow> main_pc \<Rightarrow> world \<Rightarrow> main_pc \<times> world" where
  "main_step en a pool mem (InRound round i) w =
     (if round < round_num a
      then
        if i < num_per_round a
        then case producer_one en a pool mem (round * num_per_round a + i) w of
               None \<Rightarrow> (Crashed, w)
             | Some w \<Rightarrow> (InRound round (i + 1), w)
        else (InRound (round + 1) 0,
              emit (Call ''muggle_msleep'' [ANat (unat (round_interval_ms a))]) w)
      else (Joining, emit (ChanWrite None) w))"
| "main_step en a pool mem pc w = (pc, w)"

text \<open>The consumer on one result of \<open>muggle_channel_read\<close>.\<close>

datatype consumer_pc = Reading | Exited | ConsumerCrashed

fun consumer_step :: "env \<Rightarrow> bytes option \<Rightarrow> world \<Rightarrow> consumer_pc \<times> world" where
  "consumer_step en (Some p) w =
     (case consumer_one en p w of None \<Rightarrow> (ConsumerCrashed, w) | Some w \<Rightarrow> (Reading, w))"
| "consumer_step en None w = (Exited, nb_record_cleanup_thread_ctx w)"

section \<open>run and main\<close>

definition thread_setup :: "nb_sys_args_t \<Rightarrow> effect list" where
  "thread_setup a =
     [Call ''muggle_ts_memory_pool_init'' [ANat (unat (num_per_round a * 16)), ANat (unat (msg_size a))],
      Call ''muggle_channel_init'' [ANat (unat (num_per_round a * 8))],
      Call ''muggle_thread_create'' [], Call ''muggle_msleep'' [ANat 500]]"

definition thread_finish :: "effect list" where
  "thread_finish =
     [ChanWrite None, Call ''muggle_thread_join'' [], Call ''muggle_channel_destroy'' [],
      Call ''muggle_ts_memory_pool_destroy'' [], Call ''free'' []]"

definition thread_run ::
  "env \<Rightarrow> (nat \<Rightarrow> u8) \<Rightarrow> (u32 \<Rightarrow> bool) \<Rightarrow> nb_sys_args_t \<Rightarrow> world \<Rightarrow> run_result" where
  "thread_run en fill pool a w =
     (if unat (msg_size a) < sizeof_hdr + sizeof_data
      then Ran (emit (Log L_ERROR ''message size is too small (< %lu)'') w)
      else
        let w = emit (Call ''malloc'' [ANat (unat (datas_size a))]) w
        in case prepare_datas a fill of
             None \<Rightarrow> OutOfBoundsRun
           | Some mem \<Rightarrow>
               case producer en a pool mem 0 (emits (thread_setup a) w) of
                 None \<Rightarrow> OutOfBoundsRun
               | Some w \<Rightarrow> Ran (emits thread_finish w))"

definition thread_main ::
  "env \<Rightarrow> (nat \<Rightarrow> u8) \<Rightarrow> (u32 \<Rightarrow> bool) \<Rightarrow> init_result \<times> world \<Rightarrow> run_result" where
  "thread_main en fill pool = app_main (thread_run en fill pool)"

text \<open>The smallest program (\<open>app/hello\<close>): sixteen records.\<close>

definition hello_record :: "env \<Rightarrow> u32 \<Rightarrow> world \<Rightarrow> world" where
  "hello_record en i w =
     (let w = nb_record_prepare w;
          (t, w) = read_clock en w;
          w = w\<lparr>ring_slot := (ring_slot w)\<lparr>r_ts := t, r_user_id := 0, r_id := i, r_msg_size := 0,
                                          r_action := ''test''\<rparr>\<rparr>
      in nb_record_commit w)"

definition hello_main :: "env \<Rightarrow> init_result \<times> world \<Rightarrow> run_result" where
  "hello_main en = app_main (\<lambda>a w.
     Ran (fold (hello_record en) (map word_of_nat [0..<16]) (emit (Log L_INFO ''hello world'') w)))"

section \<open>What the producer does\<close>

fun chan_written :: "effect list \<Rightarrow> bytes option list" where
  "chan_written [] = []"
| "chan_written (ChanWrite x # es) = x # chan_written es"
| "chan_written (_ # es) = chan_written es"

lemma chan_written_append [simp]: "chan_written (xs @ ys) = chan_written xs @ chan_written ys"
  by (induction xs rule: chan_written.induct) auto

lemma chan_written_record [simp]: "chan_written (record_effects r) = []"
  by (simp add: record_effects_def)

lemma slot_uid:
  assumes "datas_ok a mem" and "k < n_msgs a"
  shows "get_u32 mem (k * unat (msg_size a) + 8) = Some (user_id a)"
proof -
  have h: "get_bytes mem (k * unat (msg_size a)) 16 = Some (msg_head a (word_of_nat k))"
    using assms by (simp add: datas_ok_def head_ok_def)
  show ?thesis
    using get_bytes_sub [OF h, of 8 4]
    by (simp add: get_u32_def msg_head_def enc_hdr_def enc_data_def)
qed

lemma producer_one_ok:
  assumes cfg: "config_ok a" and mem: "datas_ok a mem" and k: "k < n_msgs a" and pool: "pool (word_of_nat k)"
  shows "\<exists>w' es. producer_one en a pool mem (word_of_nat k) w = Some w' \<and> trace w' = trace w @ es \<and>
    chan_written es = [Some (slot a mem k)] \<and> asserts_ok es \<and>
    map rec_key (committed es) = map (\<lambda>act. (user_id a, word_of_nat k, msg_size a, act))
      [''producer.prepare'', ''producer.push_begin'', ''producer.push_end'']"
proof -
  have "k * unat (msg_size a) < n_msgs a * unat (msg_size a)"
    using k cfg by (simp add: config_ok_def)
  also have "\<dots> < 4294967296" by (rule config_bytes [OF cfg])
  finally have b: "unat (msg_size a) * k < 4294967296" by (simp add: mult.commute)
  have "k < 4294967296" using k unat_u32_lt [of "num_per_round a * round_num a"] by (simp add: n_msgs_def)
  then have "unat (word_of_nat k :: u32) = k" by (simp add: unat_of_nat_u32)
  then have off: "unat (msg_size a * word_of_nat k) = k * unat (msg_size a)"
    using b by (simp add: unat_mult_no_wrap mult.commute)
  show ?thesis
    by (simp add: producer_one_def off slot_uid [OF mem k] slot_fields [OF mem k]
        slot_in_bounds [OF mem k] pool rec_key_def rec_at_def)
qed

text \<open>What a run of the producer shows: the messages in the channel, and the records.\<close>

definition produced ::
  "nb_sys_args_t \<Rightarrow> bytes \<Rightarrow> nat list \<Rightarrow> effect list \<Rightarrow> bool" where
  "produced a mem ks es \<longleftrightarrow>
     chan_written es = map (\<lambda>k. Some (slot a mem k)) ks \<and> asserts_ok es \<and>
     map rec_key (committed es) = concat (map (\<lambda>k. map (\<lambda>act. (user_id a, word_of_nat k, msg_size a, act))
       [''producer.prepare'', ''producer.push_begin'', ''producer.push_end'']) ks)"

lemma produced_append: "produced a mem ks es \<Longrightarrow> produced a mem ls fs \<Longrightarrow> produced a mem (ks @ ls) (es @ fs)"
  by (simp add: produced_def)

lemma produced_Nil [simp]: "produced a mem [] []"
  by (simp add: produced_def)

lemma producer_one_produced:
  assumes "config_ok a" and "datas_ok a mem" and "k < n_msgs a" and "pool (word_of_nat k)"
  shows "\<exists>w' es. producer_one en a pool mem (word_of_nat k) w = Some w' \<and> trace w' = trace w @ es \<and>
    produced a mem [k] es"
  using producer_one_ok [where pool = pool, OF assms, of en w] by (fastforce simp: produced_def)

lemma producer_round_produced:
  assumes cfg: "config_ok a" and mem: "datas_ok a mem" and r: "unat round < unat (round_num a)"
    and pool: "\<And>k. k < n_msgs a \<Longrightarrow> pool (word_of_nat k)"
  shows "unat i \<le> unat (num_per_round a) \<Longrightarrow>
    \<exists>w' es. producer_round en a pool mem round i w = Some w' \<and> trace w' = trace w @ es \<and>
      produced a mem [unat round * unat (num_per_round a) + unat i ..<
        Suc (unat round) * unat (num_per_round a)] es"
proof (induction "unat (num_per_round a) - unat i" arbitrary: i w)
  case 0
  then have "producer_round en a pool mem round i w = Some w"
    by (subst producer_round.simps) (simp add: word_less_nat_alt)
  with 0 show ?case by simp
next
  case (Suc x)
  let ?n = "unat (num_per_round a)" and ?k = "unat round * unat (num_per_round a) + unat i"
  have i: "i < num_per_round a" "unat i < ?n" using Suc.hyps(2) by (simp_all add: word_less_nat_alt)
  have succ: "unat (i + 1) = Suc (unat i)" using u32_succ_no_wrap [OF i(1)] by simp
  have kend: "?k < Suc (unat round) * ?n" using i(2) by simp
  have x: "x = ?n - unat (i + 1)" using Suc.hyps(2) succ by simp
  have "Suc (unat round) * ?n \<le> unat (round_num a) * ?n" using r by (intro mult_le_mono1) simp
  then have k: "?k < n_msgs a" using kend by (simp add: config_n_msgs [OF cfg] mult.commute)
  have seq: "round * num_per_round a + i = word_of_nat ?k"
    by (simp add: of_nat_add of_nat_mult)
  obtain w1 es1 where w1: "producer_one en a pool mem (word_of_nat ?k) w = Some w1"
    "trace w1 = trace w @ es1" "produced a mem [?k] es1"
    using producer_one_produced [where pool = pool, OF cfg mem k pool [OF k]] by blast
  obtain w2 es2 where w2: "producer_round en a pool mem round (i + 1) w1 = Some w2"
    "trace w2 = trace w1 @ es2" "produced a mem [Suc ?k ..< Suc (unat round) * ?n] es2"
    using Suc.hyps(1) [of "i + 1" w1] x i(2) succ by (auto simp del: mult_Suc)
  have "[?k ..< Suc (unat round) * ?n] = [?k] @ [Suc ?k ..< Suc (unat round) * ?n]"
    using kend by (simp add: upt_conv_Cons)
  then have "produced a mem [?k ..< Suc (unat round) * ?n] (es1 @ es2)"
    using produced_append [OF w1(3) w2(3)] by (simp only:)
  moreover have "producer_round en a pool mem round i w = Some w2"
    by (subst producer_round.simps) (simp add: i seq w1(1) w2(1) del: of_nat_add of_nat_mult)
  ultimately show ?case using w1(2) w2(2) by (intro exI [of _ w2] exI [of _ "es1 @ es2"]) simp
qed

lemma producer_produced:
  assumes cfg: "config_ok a" and mem: "datas_ok a mem" and pool: "\<And>k. k < n_msgs a \<Longrightarrow> pool (word_of_nat k)"
  shows "unat round \<le> unat (round_num a) \<Longrightarrow>
    \<exists>w' es. producer en a pool mem round w = Some w' \<and> trace w' = trace w @ es \<and>
      produced a mem [unat round * unat (num_per_round a) ..< n_msgs a] es"
proof (induction "unat (round_num a) - unat round" arbitrary: round w)
  case 0
  then have "producer en a pool mem round w = Some w"
    by (subst producer.simps) (simp add: word_less_nat_alt)
  with 0 show ?case by (simp add: config_n_msgs [OF cfg] mult.commute)
next
  case (Suc x)
  let ?n = "unat (num_per_round a)" and ?r = "unat round"
  have r: "round < round_num a" "?r < unat (round_num a)"
    using Suc.hyps(2) by (simp_all add: word_less_nat_alt)
  have succ: "unat (round + 1) = Suc ?r" using u32_succ_no_wrap [OF r(1)] by simp
  have x: "x = unat (round_num a) - unat (round + 1)" using Suc.hyps(2) succ by simp
  obtain w1 es1 where w1: "producer_round en a pool mem round 0 w = Some w1"
    "trace w1 = trace w @ es1" "produced a mem [?r * ?n ..< Suc ?r * ?n] es1"
    using producer_round_produced [where pool = pool and i = 0 and en = en and w = w,
        OF cfg mem r(2) pool] by (auto simp del: mult_Suc)
  let ?w = "emit (Call ''muggle_msleep'' [ANat (unat (round_interval_ms a))]) w1"
  obtain w2 es2 where w2: "producer en a pool mem (round + 1) ?w = Some w2"
    "trace w2 = trace ?w @ es2" "produced a mem [Suc ?r * ?n ..< n_msgs a] es2"
    using Suc.hyps(1) [of "round + 1" ?w] x r(2) succ by auto
  have "Suc ?r * ?n \<le> n_msgs a"
    using r(2) by (simp add: config_n_msgs [OF cfg] mult.commute [of ?n] Suc_leI mult_le_mono1 del: mult_Suc)
  then have sp: "[?r * ?n ..< n_msgs a] = [?r * ?n ..< Suc ?r * ?n] @ [] @ [Suc ?r * ?n ..< n_msgs a]"
    using upt_add_eq_append [of "?r * ?n" "Suc ?r * ?n" "n_msgs a - Suc ?r * ?n"] by simp
  have sl: "produced a mem [] [Call ''muggle_msleep'' [ANat (unat (round_interval_ms a))]]"
    by (simp add: produced_def)
  have "produced a mem [?r * ?n ..< n_msgs a]
      (es1 @ [Call ''muggle_msleep'' [ANat (unat (round_interval_ms a))]] @ es2)"
    unfolding sp by (intro produced_append w1(3) sl w2(3))
  moreover have "producer en a pool mem round w = Some w2"
    by (subst producer.simps) (simp add: r w1(1) w2(1))
  ultimately show ?case
    using w1(2) w2(2)
    by (intro exI [of _ w2] exI [of _ "es1 @ [Call ''muggle_msleep'' [ANat (unat (round_interval_ms a))]] @ es2"])
       simp
qed

text \<open>A failed allocation of the pool is an access to NULL.\<close>

lemma producer_one_pool: "producer_one en a pool mem q w = Some w' \<Longrightarrow> pool q"
  by (auto simp: producer_one_def bind_eq_Some_conv Let_def split: if_splits)

lemma producer_round_pool:
  "producer_round en a pool mem round i w = Some w' \<Longrightarrow> unat i \<le> j \<Longrightarrow> j < unat (num_per_round a) \<Longrightarrow>
   pool (round * num_per_round a + word_of_nat j)"
proof (induction "unat (num_per_round a) - unat i" arbitrary: i w)
  case 0
  then show ?case by simp
next
  case (Suc x)
  have i: "i < num_per_round a" using Suc.hyps(2) by (simp add: word_less_nat_alt)
  have succ: "unat (i + 1) = Suc (unat i)" using u32_succ_no_wrap [OF i] by simp
  obtain w1 where w1: "producer_one en a pool mem (round * num_per_round a + i) w = Some w1"
    "producer_round en a pool mem round (i + 1) w1 = Some w'"
    using Suc.prems(1) i by (subst (asm) producer_round.simps) (auto simp: bind_eq_Some_conv)
  show ?case
  proof (cases "j = unat i")
    case True
    with producer_one_pool [OF w1(1)] show ?thesis by simp
  next
    case False
    with Suc.hyps(1) [OF _ w1(2)] Suc.hyps(2) Suc.prems(2,3) succ show ?thesis by simp
  qed
qed

lemma producer_pool:
  "producer en a pool mem round w = Some w' \<Longrightarrow> unat round \<le> r \<Longrightarrow> r < unat (round_num a) \<Longrightarrow>
   j < unat (num_per_round a) \<Longrightarrow> pool (word_of_nat (r * unat (num_per_round a) + j))"
proof (induction "unat (round_num a) - unat round" arbitrary: round w)
  case 0
  then show ?case by simp
next
  case (Suc x)
  have lt: "round < round_num a" using Suc.hyps(2) by (simp add: word_less_nat_alt)
  have succ: "unat (round + 1) = Suc (unat round)" using u32_succ_no_wrap [OF lt] by simp
  obtain w1 where w1: "producer_round en a pool mem round 0 w = Some w1"
    "producer en a pool mem (round + 1)
       (emit (Call ''muggle_msleep'' [ANat (unat (round_interval_ms a))]) w1) = Some w'"
    using Suc.prems(1) lt by (subst (asm) producer.simps) (auto simp: bind_eq_Some_conv)
  show ?case
  proof (cases "r = unat round")
    case True
    with producer_round_pool [OF w1(1), of j] Suc.prems(4) show ?thesis by simp
  next
    case False
    with Suc.hyps(1) [OF _ w1(2)] Suc.hyps(2) Suc.prems(2-4) succ show ?thesis by simp
  qed
qed

lemma producer_needs_pool:
  assumes "config_ok a" and "producer en a pool mem 0 w = Some w'" and "k < n_msgs a"
  shows "pool (word_of_nat k)"
proof -
  let ?n = "unat (num_per_round a)"
  have k: "k < ?n * unat (round_num a)" using assms(3) by (simp add: config_n_msgs [OF assms(1)])
  then have n: "0 < ?n" by (cases "?n = 0") simp_all
  have "k div ?n < unat (round_num a)" using k by (simp add: less_mult_imp_div_less mult.commute)
  moreover have "k mod ?n < ?n" using n by simp
  ultimately have "pool (word_of_nat (k div ?n * ?n + k mod ?n))"
    using producer_pool [OF assms(2), of "k div ?n" "k mod ?n"] by simp
  then show ?thesis by simp
qed

text \<open>The records of the producer, and the whole of \<open>run\<close>.\<close>

abbreviation producer_keys :: "nb_sys_args_t \<Rightarrow> nat list \<Rightarrow> (u32 \<times> u32 \<times> u32 \<times> string) list" where
  "producer_keys a ks \<equiv> concat (map (\<lambda>k. map (\<lambda>act. (user_id a, word_of_nat k, msg_size a, act))
     [''producer.prepare'', ''producer.push_begin'', ''producer.push_end'']) ks)"

lemma thread_run_ok:
  assumes cfg: "config_ok a" and mem: "prepare_datas a fill = Some mem"
    and pool: "\<And>k. k < n_msgs a \<Longrightarrow> pool (word_of_nat k)"
  shows "\<exists>w' es. thread_run en fill pool a w = Ran w' \<and> trace w' = trace w @ es \<and> asserts_ok es \<and>
    chan_written es = map Some (map (slot a mem) [0..<n_msgs a]) @ [None] \<and>
    map rec_key (committed es) = producer_keys a [0..<n_msgs a]"
proof -
  have M: "\<not> unat (msg_size a) < 16" using cfg by (simp add: config_ok_def)
  let ?w = "emits (thread_setup a) (emit (Call ''malloc'' [ANat (unat (datas_size a))]) w)"
  obtain w1 es where w1: "producer en a pool mem 0 ?w = Some w1" "trace w1 = trace ?w @ es"
    "produced a mem [0..<n_msgs a] es"
    using producer_produced [where pool = pool and round = 0 and en = en and w = ?w,
        OF cfg prepare_datas_datas_ok [OF cfg mem] pool] by auto
  have run: "thread_run en fill pool a w = Ran (emits thread_finish w1)"
    using M w1(1) by (simp add: thread_run_def mem)
  let ?es = "Call ''malloc'' [ANat (unat (datas_size a))] # thread_setup a @ es @ thread_finish"
  have "trace (emits thread_finish w1) = trace w @ ?es" using w1(2) by simp
  moreover have "asserts_ok ?es \<and>
      chan_written ?es = map Some (map (slot a mem) [0..<n_msgs a]) @ [None] \<and>
      map rec_key (committed ?es) = producer_keys a [0..<n_msgs a]"
    using w1(3) by (simp add: produced_def thread_setup_def thread_finish_def o_def)
  ultimately show ?thesis using run by blast
qed

end
