(* ===== verification/ThreadChannel.thy ===== *)
theory ThreadChannel
  imports ThreadApp
begin

text \<open>
  Producer and consumer of the thread benchmark running at the same time: one transition relation,
  whose steps are the steps of the code in \<open>ThreadApp\<close> (a pass of the producer's loops, a message of
  the consumer, the join). The channel is a parameter, with the contract that it hands out what it took in
  order, takes an element while it holds fewer than its capacity, and otherwise either takes it or,
  as the ignored result of \<open>muggle_channel_write\<close> allows, does not. The two threads have a world
  and an environment of their own: clock and record ring are read and written per thread.
\<close>

section \<open>The channel\<close>

record 'q channel =
  ch_write :: "'q \<Rightarrow> bytes option \<Rightarrow> 'q"
  ch_read :: "'q \<Rightarrow> (bytes option \<times> 'q) option"

definition channel_ok :: "'q channel \<Rightarrow> ('q \<Rightarrow> bytes option list) \<Rightarrow> nat \<Rightarrow> bool" where
  "channel_ok ops contents cap \<longleftrightarrow>
     (\<forall>q x. (length (contents q) < cap \<longrightarrow> contents (ch_write ops q x) = contents q @ [x]) \<and>
            contents (ch_write ops q x) \<in> {contents q, contents q @ [x]}) \<and>
     (\<forall>q. contents q = [] \<longrightarrow> ch_read ops q = None) \<and>
     (\<forall>q x xs. contents q = x # xs \<longrightarrow> (\<exists>q'. ch_read ops q = Some (x, q') \<and> contents q' = xs))"

lemma channel_write:
  assumes "channel_ok ops contents cap"
  shows "length (contents q) < cap \<Longrightarrow> contents (ch_write ops q x) = contents q @ [x]"
    and "contents (ch_write ops q x) = contents q \<or> contents (ch_write ops q x) = contents q @ [x]"
  using assms unfolding channel_ok_def by blast+

lemma channel_read_Some:
  assumes "channel_ok ops contents cap" and "ch_read ops q = Some (x, q')"
  shows "contents q = x # contents q'"
proof (cases "contents q")
  case Nil
  with assms show ?thesis unfolding channel_ok_def by (metis option.distinct(1))
next
  case (Cons y ys)
  with assms obtain q'' where "ch_read ops q = Some (y, q'')" "contents q'' = ys"
    unfolding channel_ok_def by blast
  with assms(2) Cons show ?thesis by simp
qed

lemma channel_read_None:
  assumes "channel_ok ops contents cap" and "ch_read ops q = None"
  shows "contents q = []"
proof (cases "contents q")
  case (Cons y ys)
  with assms obtain q'' where "ch_read ops q = Some (y, q'')"
    unfolding channel_ok_def by blast
  with assms(2) show ?thesis by simp
qed

lemma channel_writes:
  assumes ch: "channel_ok ops contents cap" and sub: "subseq (rd @ contents q) ws"
    and eq: "length ws \<le> cap \<Longrightarrow> rd @ contents q = ws"
  shows "subseq (rd @ contents (foldl (ch_write ops) q xs)) (ws @ xs) \<and>
    (length (ws @ xs) \<le> cap \<longrightarrow> rd @ contents (foldl (ch_write ops) q xs) = ws @ xs)"
  using sub eq
proof (induction xs arbitrary: q ws)
  case Nil
  then show ?case by simp
next
  case (Cons x xs)
  let ?q = "ch_write ops q x"
  have "subseq (rd @ contents ?q) (ws @ [x])"
    using channel_write(2) [OF ch, of q x] list_emb_append_mono [OF Cons.prems(1), of "[x]" "[x]"]
      list_emb_append_mono [OF Cons.prems(1), of "[]" "[x]"]
    by auto
  moreover have "rd @ contents ?q = ws @ [x]" if le: "length (ws @ [x]) \<le> cap"
  proof -
    have e: "rd @ contents q = ws" using Cons.prems(2) le by simp
    then have "length (contents q) < cap" using le by auto
    with e show ?thesis by (simp add: channel_write(1) [OF ch] flip: append_assoc)
  qed
  ultimately show ?case using Cons.IH [of ?q "ws @ [x]"] by simp
qed

lemma subseq_set: "subseq xs ys \<Longrightarrow> set xs \<subseteq> set ys"
  by (blast elim: list_emb_set)

section \<open>The two threads\<close>

record 'q threads =
  th_main :: main_pc
  th_main_world :: world
  th_cons :: consumer_pc
  th_cons_world :: world
  th_chan :: 'q

text \<open>
  A step of the first thread writes what it writes to the channel; the consumer reads while the channel
  gives something; the join waits for the consumer's exit.
\<close>

inductive thread_step ::
  "'q channel \<Rightarrow> env \<Rightarrow> env \<Rightarrow> nb_sys_args_t \<Rightarrow> (u32 \<Rightarrow> bool) \<Rightarrow> bytes \<Rightarrow> 'q threads \<Rightarrow> 'q threads \<Rightarrow> bool"
  for ops en1 en2 a pool mem where
  main: "th_main s = InRound round i \<Longrightarrow>
    main_step en1 a pool mem (th_main s) (th_main_world s) = (pc', w') \<Longrightarrow>
    trace w' = trace (th_main_world s) @ es \<Longrightarrow>
    thread_step ops en1 en2 a pool mem s (s\<lparr>th_main := pc', th_main_world := w',
      th_chan := foldl (ch_write ops) (th_chan s) (chan_written es)\<rparr>)"
| consume: "th_cons s = Reading \<Longrightarrow> ch_read ops (th_chan s) = Some (x, q') \<Longrightarrow>
    consumer_step en2 x (th_cons_world s) = (pc', w') \<Longrightarrow>
    thread_step ops en1 en2 a pool mem s (s\<lparr>th_cons := pc', th_cons_world := w', th_chan := q'\<rparr>)"
| join: "th_main s = Joining \<Longrightarrow> th_cons s = Exited \<Longrightarrow>
    thread_step ops en1 en2 a pool mem s
      (s\<lparr>th_main := Finished, th_main_world := emits (tl thread_finish) (th_main_world s)\<rparr>)"

inductive_cases thread_stepE [elim]: "thread_step ops en1 en2 a pool mem s s'"

inductive thread_reach ::
  "'q channel \<Rightarrow> env \<Rightarrow> env \<Rightarrow> nb_sys_args_t \<Rightarrow> (u32 \<Rightarrow> bool) \<Rightarrow> bytes \<Rightarrow> 'q threads \<Rightarrow> 'q threads \<Rightarrow> bool"
  for ops en1 en2 a pool mem s0 where
  start: "thread_reach ops en1 en2 a pool mem s0 s0"
| step: "thread_reach ops en1 en2 a pool mem s0 s \<Longrightarrow> thread_step ops en1 en2 a pool mem s s' \<Longrightarrow>
    thread_reach ops en1 en2 a pool mem s0 s'"

text \<open>Before the producer: array, pool and channel are set up and the consumer is created.\<close>

definition main_start :: "nb_sys_args_t \<Rightarrow> world \<Rightarrow> world" where
  "main_start a w = emits (thread_setup a) (emit (Call ''malloc'' [ANat (unat (datas_size a))]) w)"

definition thread_start :: "nb_sys_args_t \<Rightarrow> 'q \<Rightarrow> world \<Rightarrow> world \<Rightarrow> 'q threads" where
  "thread_start a q w wc = \<lparr>th_main = InRound 0 0, th_main_world = main_start a w,
     th_cons = Reading, th_cons_world = wc, th_chan = q\<rparr>"

section \<open>The first thread alone\<close>

lemma producer_one_trace:
  "producer_one en a pool mem q w = Some w' \<Longrightarrow>
   \<exists>es buf. trace w' = trace w @ es \<and> chan_written es = [Some buf]"
  by (auto simp: producer_one_def bind_eq_Some_conv Let_def split: if_splits)

lemma main_step_trace:
  assumes "main_step en a pool mem (InRound round i) w = (pc', w')"
  shows "\<exists>es. trace w' = trace w @ es \<and> length (chan_written es) \<le> 1"
  using assms producer_one_trace
  by (fastforce split: if_splits option.splits)

text \<open>What is left of the producer in a state, as the value the rest of its loops gives.\<close>

definition main_result ::
  "env \<Rightarrow> nb_sys_args_t \<Rightarrow> (u32 \<Rightarrow> bool) \<Rightarrow> bytes \<Rightarrow> u32 \<Rightarrow> u32 \<Rightarrow> world \<Rightarrow> world option" where
  "main_result en a pool mem round i w =
     (if round < round_num a
      then Option.bind (producer_round en a pool mem round i w)
             (\<lambda>w. producer en a pool mem (round + 1)
                    (emit (Call ''muggle_msleep'' [ANat (unat (round_interval_ms a))]) w))
      else Some w)"

lemma main_result_start: "main_result en a pool mem round 0 w = producer en a pool mem round w"
  by (subst producer.simps) (simp add: main_result_def)

lemma main_result_message:
  "round < round_num a \<Longrightarrow> i < num_per_round a \<Longrightarrow>
   main_result en a pool mem round i w =
     Option.bind (producer_one en a pool mem (round * num_per_round a + i) w) (main_result en a pool mem round (i + 1))"
  unfolding main_result_def by (subst producer_round.simps) (auto simp: main_result_def split: bind_split)

lemma main_result_sleep:
  "round < round_num a \<Longrightarrow> \<not> i < num_per_round a \<Longrightarrow>
   main_result en a pool mem round i w = main_result en a pool mem (round + 1) 0
     (emit (Call ''muggle_msleep'' [ANat (unat (round_interval_ms a))]) w)"
  unfolding main_result_start unfolding main_result_def by (subst producer_round.simps) simp

text \<open>What the first thread has written to the channel after \<open>m\<close> messages.\<close>

definition wrote :: "nb_sys_args_t \<Rightarrow> bytes \<Rightarrow> main_pc \<Rightarrow> nat \<Rightarrow> bytes option list" where
  "wrote a mem pc m = map (\<lambda>k. Some (slot a mem k)) [0..<m] @ (if pc = Joining \<or> pc = Finished then [None] else [])"

definition main_at ::
  "env \<Rightarrow> nb_sys_args_t \<Rightarrow> (u32 \<Rightarrow> bool) \<Rightarrow> bytes \<Rightarrow> world \<Rightarrow> main_pc \<Rightarrow> world \<Rightarrow> nat \<Rightarrow> bool" where
  "main_at en a pool mem w0 pc w m \<longleftrightarrow> m \<le> n_msgs a \<and>
     (\<exists>es. trace w = trace w0 @ es \<and> asserts_ok es \<and> chan_written es = wrote a mem pc m) \<and>
     (case pc of
        InRound round i \<Rightarrow> unat i \<le> unat (num_per_round a) \<and> unat round \<le> unat (round_num a) \<and>
          m = unat round * unat (num_per_round a) + unat i \<and>
          main_result en a pool mem round i w = producer en a pool mem 0 w0
      | Joining \<Rightarrow> m = n_msgs a \<and> (\<exists>w1. producer en a pool mem 0 w0 = Some w1 \<and> w = emit (ChanWrite None) w1)
      | Finished \<Rightarrow> m = n_msgs a \<and> (\<exists>w1. producer en a pool mem 0 w0 = Some w1 \<and> w = emits thread_finish w1)
      | Crashed \<Rightarrow> m < n_msgs a \<and> \<not> pool (word_of_nat m))"

lemma main_at_start: "main_at en a pool mem w0 (InRound 0 0) w0 0"
  by (simp add: main_at_def wrote_def main_result_start)

lemma main_at_step:
  assumes cfg: "config_ok a" and mem: "datas_ok a mem"
    and at: "main_at en a pool mem w0 (InRound round i) w m"
    and st: "main_step en a pool mem (InRound round i) w = (pc', w')"
  shows "\<exists>m'. main_at en a pool mem w0 pc' w' m'"
proof -
  let ?n = "unat (num_per_round a)" and ?R = "unat (round_num a)"
  obtain es where m: "m \<le> n_msgs a" "unat i \<le> ?n" "unat round \<le> ?R" "m = unat round * ?n + unat i"
    and res: "main_result en a pool mem round i w = producer en a pool mem 0 w0"
    and es: "trace w = trace w0 @ es" "asserts_ok es" "chan_written es = map (\<lambda>k. Some (slot a mem k)) [0..<m]"
    using at by (auto simp: main_at_def wrote_def)
  consider (message) "round < round_num a" "i < num_per_round a"
    | (sleep) "round < round_num a" "\<not> i < num_per_round a" | (null) "\<not> round < round_num a" by blast
  then show ?thesis
  proof cases
    case message
    have i: "unat i < ?n" "unat (i + 1) = Suc (unat i)"
      using message(2) u32_succ_no_wrap [OF message(2)] by (simp_all add: word_less_nat_alt)
    have r: "unat round < ?R" using message(1) by (simp add: word_less_nat_alt)
    have "m < Suc (unat round) * ?n" using i(1) m(4) by simp
    also have "\<dots> \<le> ?R * ?n" using r by (intro mult_le_mono1) simp
    finally have k: "m < n_msgs a" by (simp add: config_n_msgs [OF cfg] mult.commute)
    have seq: "round * num_per_round a + i = word_of_nat m" by (simp add: m(4))
    show ?thesis
    proof (cases "pool (word_of_nat m)")
      case True
      obtain w1 es1 where w1: "producer_one en a pool mem (word_of_nat m) w = Some w1" "trace w1 = trace w @ es1"
        "produced a mem [m] es1"
        using producer_one_produced [where pool = pool, OF cfg mem k True] by blast
      have eq: "pc' = InRound round (i + 1)" "w' = w1" using st message by (simp_all add: seq w1(1) del: of_nat_add of_nat_mult)
      have "main_result en a pool mem round (i + 1) w1 = producer en a pool mem 0 w0"
        using res main_result_message [OF message, of en pool mem w] by (simp add: seq w1(1))
      then show ?thesis
        using es w1(2,3) i k m(3,4)
        by (intro exI [of _ "Suc m"]) (simp add: main_at_def eq wrote_def produced_def)
    next
      case False
      then have "producer_one en a pool mem (word_of_nat m) w = None"
        using producer_one_pool [of en a pool mem "word_of_nat m" w] by (cases "producer_one en a pool mem (word_of_nat m) w") auto
      then have "pc' = Crashed" "w' = w" using st message by (simp_all add: seq del: of_nat_add of_nat_mult)
      with es k False show ?thesis by (intro exI [of _ m]) (simp add: main_at_def wrote_def)
    qed
  next
    case sleep
    let ?w = "emit (Call ''muggle_msleep'' [ANat (unat (round_interval_ms a))]) w"
    have eq: "pc' = InRound (round + 1) 0" "w' = ?w" using st sleep by simp_all
    have r: "unat (round + 1) = Suc (unat round)" "unat round < ?R"
      using sleep(1) u32_succ_no_wrap [OF sleep(1)] by (simp_all add: word_less_nat_alt)
    have "unat i = ?n" using sleep(2) m(2) by (simp add: word_less_nat_alt)
    with es m res r show ?thesis
      by (intro exI [of _ m]) (simp add: main_at_def eq wrote_def main_result_sleep [OF sleep])
  next
    case null
    have eq: "pc' = Joining" "w' = emit (ChanWrite None) w" using st null by simp_all
    have "unat round = ?R" using null m(3) by (simp add: word_less_nat_alt)
    then have "m = n_msgs a" using m(1,4) by (simp add: config_n_msgs [OF cfg] mult.commute)
    moreover have "producer en a pool mem 0 w0 = Some w" using res null by (simp add: main_result_def)
    ultimately show ?thesis
      using es by (intro exI [of _ m]) (simp add: main_at_def eq wrote_def)
  qed
qed

lemma main_at_join:
  assumes "main_at en a pool mem w0 Joining w m"
  shows "main_at en a pool mem w0 Finished (emits (tl thread_finish) w) m"
proof -
  have "thread_finish = ChanWrite None # tl thread_finish" by (simp add: thread_finish_def)
  then have "emits (tl thread_finish) (emit (ChanWrite None) w1) = emits thread_finish w1" for w1
    by (simp add: emit_emits)
  moreover have "asserts_ok (tl thread_finish)" "chan_written (tl thread_finish) = []"
    by (simp_all add: thread_finish_def)
  ultimately show ?thesis using assms by (auto simp: main_at_def wrote_def)
qed

section \<open>The consumer\<close>

text \<open>What the consumer has done after reading the messages \<open>ps\<close>, and after the NULL behind them.\<close>

definition consumed :: "env \<Rightarrow> world \<Rightarrow> consumer_pc \<Rightarrow> world \<Rightarrow> bytes list \<Rightarrow> bool" where
  "consumed en wc pc w ps \<longleftrightarrow>
     map rec_key (committed (trace w)) = map rec_key (committed (trace wc)) @
       map (\<lambda>p. frame_key p ''consumer.rcv'') ps \<and>
     (case pc of
        Reading \<Rightarrow> \<forall>xs. consumer en (map Some ps @ xs) wc = consumer en xs w
      | Exited \<Rightarrow> consumer en (map Some ps @ [None]) wc = Some w
      | ConsumerCrashed \<Rightarrow> False)"

definition read_from :: "consumer_pc \<Rightarrow> bytes list \<Rightarrow> bytes option list" where
  "read_from pc ps = map Some ps @ (if pc = Exited then [None] else [])"

lemma consumed_start: "consumed en wc Reading wc []"
  by (simp add: consumed_def)

lemma consumer_one_records:
  assumes "16 \<le> length p"
  shows "\<exists>w'. consumer_one en p w = Some w' \<and>
    map rec_key (committed (trace w')) = map rec_key (committed (trace w)) @ [frame_key p ''consumer.rcv'']"
  using assms by (simp add: consumer_one_def Let_def rec_key_def rec_at_def frame_key_def)

lemma consumed_step:
  assumes c: "consumed en wc Reading w ps" and st: "consumer_step en x w = (pc', w')"
    and len: "\<And>p. x = Some p \<Longrightarrow> 16 \<le> length p"
  shows "\<exists>ps'. consumed en wc pc' w' ps' \<and> read_from pc' ps' = read_from Reading ps @ [x]"
proof (cases x)
  case None
  then have "pc' = Exited" "w' = nb_record_cleanup_thread_ctx w" using st by simp_all
  with c None show ?thesis
    by (intro exI [of _ ps]) (simp add: consumed_def read_from_def nb_record_cleanup_thread_ctx_def)
next
  case (Some p)
  obtain w1 where w1: "consumer_one en p w = Some w1"
    "map rec_key (committed (trace w1)) = map rec_key (committed (trace w)) @ [frame_key p ''consumer.rcv'']"
    using consumer_one_records len [OF Some] by blast
  then have "pc' = Reading" "w' = w1" using st Some by simp_all
  with c w1 Some show ?thesis
    by (intro exI [of _ "ps @ [p]"]) (simp add: consumed_def read_from_def)
qed

section \<open>Both together\<close>

text \<open>
  The invariant: what the consumer has read and what is in the channel is what the first thread has
  written with elements missing, and none is missing as long as the channel has room for all of it.
\<close>

definition threads_ok ::
  "('q \<Rightarrow> bytes option list) \<Rightarrow> nat \<Rightarrow> env \<Rightarrow> env \<Rightarrow> nb_sys_args_t \<Rightarrow> (u32 \<Rightarrow> bool) \<Rightarrow> bytes \<Rightarrow> world \<Rightarrow> world \<Rightarrow>
   'q threads \<Rightarrow> nat \<Rightarrow> bytes list \<Rightarrow> bool" where
  "threads_ok contents cap en1 en2 a pool mem w0 wc s m ps \<longleftrightarrow>
     main_at en1 a pool mem w0 (th_main s) (th_main_world s) m \<and>
     consumed en2 wc (th_cons s) (th_cons_world s) ps \<and>
     subseq (read_from (th_cons s) ps @ contents (th_chan s)) (wrote a mem (th_main s) m) \<and>
     (length (wrote a mem (th_main s) m) \<le> cap \<longrightarrow>
        read_from (th_cons s) ps @ contents (th_chan s) = wrote a mem (th_main s) m) \<and>
     (th_main s = Finished \<longrightarrow> th_cons s = Exited)"

lemma main_step_not_finished: "main_step en a pool mem (InRound round i) w = (pc', w') \<Longrightarrow> pc' \<noteq> Finished"
  by (auto split: if_splits option.splits)

lemma wrote_length: "length (wrote a mem pc m) \<le> m + 1"
  by (simp add: wrote_def)

lemma main_at_wrote:
  "main_at en a pool mem w0 pc w m \<Longrightarrow> main_at en a pool mem w0 pc' w' m' \<Longrightarrow> trace w' = trace w @ es \<Longrightarrow>
   wrote a mem pc' m' = wrote a mem pc m @ chan_written es"
  by (auto simp: main_at_def)

lemma threads_ok_step:
  assumes cfg: "config_ok a" and mem: "datas_ok a mem" and ch: "channel_ok ops contents cap"
    and inv: "threads_ok contents cap en1 en2 a pool mem w0 wc s m ps"
    and st: "thread_step ops en1 en2 a pool mem s s'"
  shows "\<exists>m' ps'. threads_ok contents cap en1 en2 a pool mem w0 wc s' m' ps'"
  using st
proof cases
  case (main round i pc' w' es)
  have at: "main_at en1 a pool mem w0 (th_main s) (th_main_world s) m"
    and sub: "subseq (read_from (th_cons s) ps @ contents (th_chan s)) (wrote a mem (th_main s) m)"
    and eq: "length (wrote a mem (th_main s) m) \<le> cap \<Longrightarrow>
      read_from (th_cons s) ps @ contents (th_chan s) = wrote a mem (th_main s) m"
    using inv by (simp_all add: threads_ok_def)
  obtain m' where at': "main_at en1 a pool mem w0 pc' w' m'"
    using main_at_step [OF cfg mem] at main(2,3) by metis
  have "wrote a mem pc' m' = wrote a mem (th_main s) m @ chan_written es"
    by (rule main_at_wrote [OF at at' main(4)])
  moreover have "pc' \<noteq> Finished" using main_step_not_finished main(2,3) by metis
  ultimately show ?thesis
    using channel_writes [OF ch sub eq, of "chan_written es"] at' inv main(1)
    by (intro exI [of _ m'] exI [of _ ps]) (simp add: threads_ok_def)
next
  case (consume x q' pc' w')
  have c: "contents (th_chan s) = x # contents q'" by (rule channel_read_Some [OF ch consume(3)])
  have "set (contents (th_chan s)) \<subseteq> set (wrote a mem (th_main s) m)"
    using inv subseq_set [of "read_from (th_cons s) ps @ contents (th_chan s)"] by (auto simp: threads_ok_def)
  then have x: "x \<in> set (wrote a mem (th_main s) m)" using c by simp
  have m: "m \<le> n_msgs a" using inv by (simp add: threads_ok_def main_at_def)
  have "16 \<le> length p" if "x = Some p" for p
    using x that m cfg slot_dec(1) [OF cfg mem]
    by (auto simp: wrote_def config_ok_def split: if_splits)
  then obtain ps' where ps': "consumed en2 wc pc' w' ps'" "read_from pc' ps' = read_from Reading ps @ [x]"
    using consumed_step [OF _ consume(4)] inv consume(2) by (metis threads_ok_def)
  then have "read_from pc' ps' @ contents q' = read_from (th_cons s) ps @ contents (th_chan s)"
    using c consume(2) by simp
  with inv ps'(1) consume(1,2) show ?thesis
    by (intro exI [of _ m] exI [of _ ps']) (simp add: threads_ok_def)
next
  case join
  with inv main_at_join [of en1 a pool mem w0 "th_main_world s" m] show ?thesis
    by (intro exI [of _ m] exI [of _ ps]) (simp add: threads_ok_def wrote_def)
qed

lemma threads_ok_reach:
  assumes cfg: "config_ok a" and mem: "datas_ok a mem" and ch: "channel_ok ops contents cap"
    and q: "contents q = []"
    and r: "thread_reach ops en1 en2 a pool mem (thread_start a q w wc) s"
  shows "\<exists>m ps. threads_ok contents cap en1 en2 a pool mem (main_start a w) wc s m ps"
  using r
proof induction
  case start
  show ?case
    by (intro exI [of _ 0] exI [of _ "[]"])
       (simp add: threads_ok_def thread_start_def main_at_start consumed_start read_from_def wrote_def q)
next
  case (step s s')
  then show ?case using threads_ok_step [OF cfg mem ch] by blast
qed

text \<open>When nothing can move.\<close>

definition at_rest ::
  "'q channel \<Rightarrow> env \<Rightarrow> env \<Rightarrow> nb_sys_args_t \<Rightarrow> (u32 \<Rightarrow> bool) \<Rightarrow> bytes \<Rightarrow> 'q threads \<Rightarrow> bool" where
  "at_rest ops en1 en2 a pool mem s \<longleftrightarrow> (\<forall>s'. \<not> thread_step ops en1 en2 a pool mem s s')"

lemma rest_cases:
  assumes ch: "channel_ok ops contents cap" and rest: "at_rest ops en1 en2 a pool mem s"
  shows "th_main s = Joining \<or> th_main s = Finished \<or> th_main s = Crashed"
    and "th_cons s = Reading \<Longrightarrow> contents (th_chan s) = []"
    and "th_main s = Joining \<Longrightarrow> th_cons s \<noteq> Exited"
proof -
  have "th_main s \<noteq> InRound round i" for round i
  proof
    assume pc: "th_main s = InRound round i"
    obtain pc' w' where st: "main_step en1 a pool mem (th_main s) (th_main_world s) = (pc', w')"
      by (cases "main_step en1 a pool mem (th_main s) (th_main_world s)") blast
    with main_step_trace [of en1 a pool mem round i "th_main_world s" pc' w'] pc
    obtain es where "trace w' = trace (th_main_world s) @ es" by auto
    with thread_step.main [OF pc st] rest show False by (auto simp: at_rest_def)
  qed
  then show "th_main s = Joining \<or> th_main s = Finished \<or> th_main s = Crashed" by (cases "th_main s") auto
  show "th_main s = Joining \<Longrightarrow> th_cons s \<noteq> Exited"
    using rest thread_step.join [of s ops en1 en2 a pool mem] by (auto simp: at_rest_def)
  assume r: "th_cons s = Reading"
  show "contents (th_chan s) = []"
  proof (rule channel_read_None [OF ch], rule ccontr)
    assume "ch_read ops (th_chan s) \<noteq> None"
    then obtain x q' where read: "ch_read ops (th_chan s) = Some (x, q')" by auto
    obtain pc' w' where st: "consumer_step en2 x (th_cons_world s) = (pc', w')"
      by (cases "consumer_step en2 x (th_cons_world s)") blast
    from thread_step.consume [OF r read st, of en1 a pool mem] rest show False by (auto simp: at_rest_def)
  qed
qed

section \<open>Every step makes progress\<close>

fun main_left :: "nb_sys_args_t \<Rightarrow> main_pc \<Rightarrow> nat" where
  "main_left a (InRound round i) = 2 +
     (if round < round_num a
      then (unat (round_num a) - unat round - 1) * (unat (num_per_round a) + 1) +
        (unat (num_per_round a) - unat i) + 1
      else 0)"
| "main_left a Joining = 1"
| "main_left a _ = 0"

lemma main_left_step:
  assumes "main_step en a pool mem (InRound round i) w = (pc', w')"
  shows "main_left a pc' < main_left a (InRound round i)"
proof -
  let ?n = "unat (num_per_round a)" and ?R = "unat (round_num a)"
  consider (message) "round < round_num a" "i < num_per_round a"
    | (sleep) "round < round_num a" "\<not> i < num_per_round a" | (null) "\<not> round < round_num a" by blast
  then show ?thesis
  proof cases
    case message
    then have "unat (i + 1) = Suc (unat i)" "unat i < ?n"
      using u32_succ_no_wrap [OF message(2)] by (simp_all add: word_less_nat_alt)
    then show ?thesis using assms message by (auto split: option.splits)
  next
    case sleep
    have pc': "pc' = InRound (round + 1) 0" using assms sleep by simp
    have r: "unat (round + 1) = Suc (unat round)" "unat round < ?R"
      using sleep(1) u32_succ_no_wrap [OF sleep(1)] by (simp_all add: word_less_nat_alt)
    show ?thesis
    proof (cases "round + 1 < round_num a")
      case True
      then have "Suc (unat round) < ?R" using r(1) by (simp add: word_less_nat_alt)
      then obtain d where "?R - unat round - 1 = Suc d" "?R - unat (round + 1) - 1 = d"
        using r(1) by (cases "?R - unat round - 1") auto
      with sleep(1) True show ?thesis by (simp add: pc')
    next
      case False
      with sleep(1) show ?thesis by (simp add: pc')
    qed
  next
    case null
    with assms show ?thesis by auto
  qed
qed

definition thread_work :: "('q \<Rightarrow> bytes option list) \<Rightarrow> nb_sys_args_t \<Rightarrow> 'q threads \<Rightarrow> nat" where
  "thread_work contents a s = 2 * main_left a (th_main s) + length (contents (th_chan s))"

lemma channel_writes_length:
  assumes "channel_ok ops contents cap"
  shows "length (contents (foldl (ch_write ops) q xs)) \<le> length (contents q) + length xs"
proof (induction xs arbitrary: q)
  case (Cons x xs)
  have "length (contents (ch_write ops q x)) \<le> Suc (length (contents q))"
    using channel_write(2) [OF assms, of q x] by auto
  with Cons.IH [of "ch_write ops q x"] show ?case by simp
qed simp

lemma thread_step_work:
  assumes ch: "channel_ok ops contents cap" and st: "thread_step ops en1 en2 a pool mem s s'"
  shows "thread_work contents a s' < thread_work contents a s"
  using st
proof cases
  case (main round i pc' w' es)
  have "length (chan_written es) \<le> 1"
    using main_step_trace [of en1 a pool mem round i "th_main_world s" pc' w'] main(2-4) by auto
  moreover have "main_left a pc' < main_left a (th_main s)"
    using main_left_step [of en1 a pool mem round i "th_main_world s" pc' w'] main(2,3) by simp
  ultimately show ?thesis
    using channel_writes_length [OF ch, of "th_chan s" "chan_written es"] main(1)
    by (simp add: thread_work_def)
next
  case (consume x q' pc' w')
  then show ?thesis
    using channel_read_Some [OF ch consume(3)] by (simp add: thread_work_def)
next
  case join
  then show ?thesis by (simp add: thread_work_def)
qed

lemma thread_reaches_rest:
  assumes ch: "channel_ok ops contents cap"
  shows "thread_reach ops en1 en2 a pool mem s0 s \<Longrightarrow>
    \<exists>s'. thread_reach ops en1 en2 a pool mem s0 s' \<and> at_rest ops en1 en2 a pool mem s'"
proof (induction "thread_work contents a s" arbitrary: s rule: less_induct)
  case less
  show ?case
  proof (cases "at_rest ops en1 en2 a pool mem s")
    case True
    with less.prems show ?thesis by blast
  next
    case False
    then obtain s' where st: "thread_step ops en1 en2 a pool mem s s'" by (auto simp: at_rest_def)
    show ?thesis
      by (rule less.hyps [OF thread_step_work [OF ch st] thread_reach.step [OF less.prems st]])
  qed
qed

end
