(* ===== verification/ThreadSystem.thy ===== *)
theory ThreadSystem
  imports ThreadChannel
begin

text \<open>
  What the interleavings of \<open>ThreadChannel\<close> give: how the thread benchmark can end, what it has
  recorded at any time and when it has ended, and the \<open>run\<close> function of its first thread alone.
\<close>

section \<open>How it ends\<close>

text \<open>What the invariant says of a program that has ended.\<close>

lemma finished_run:
  assumes cfg: "config_ok a" and mem: "prepare_datas a fill = Some mem"
    and at: "main_at en a pool mem (main_start a w) Finished w' m"
  shows "thread_run en fill pool a w = Ran w'"
proof -
  have "\<not> unat (msg_size a) < 16" using cfg by (simp add: config_ok_def)
  with at mem show ?thesis by (auto simp: main_at_def thread_run_def main_start_def)
qed

lemma failed_pool_run:
  assumes cfg: "config_ok a" and mem: "prepare_datas a fill = Some mem"
    and k: "k < n_msgs a" "\<not> pool (word_of_nat k)"
  shows "thread_run en fill pool a w = OutOfBoundsRun"
proof -
  have "\<not> unat (msg_size a) < 16" using cfg by (simp add: config_ok_def)
  moreover have "producer en a pool mem 0 w1 = None" for w1
    using producer_needs_pool [OF cfg _ k(1), of en pool mem w1] k(2)
    by (cases "producer en a pool mem 0 w1") auto
  ultimately show ?thesis by (simp add: thread_run_def mem)
qed

text \<open>The messages in a part of what was written.\<close>

lemma subseq_messages:
  assumes "subseq (map Some ps @ xs) (wrote a mem pc m)"
  shows "\<exists>ks. subseq ks [0..<m] \<and> ps = map (slot a mem) ks"
proof -
  have "subseq (map Some ps) (wrote a mem pc m)"
    by (rule subseq_order.trans [OF _ assms]) (simp add: prefix_imp_subseq)
  then have "subseq (filter (\<lambda>x. x \<noteq> None) (map Some ps)) (filter (\<lambda>x. x \<noteq> None) (wrote a mem pc m))"
    by (rule subseq_filter)
  then have "subseq (map Some ps) (map (\<lambda>k. Some (slot a mem k)) [0..<m])"
    by (simp add: wrote_def filter_map o_def split: if_splits)
  then obtain N where "map Some ps = map (\<lambda>k. Some (slot a mem k)) (nths [0..<m] N)"
    by (auto simp: subseq_conv_nths nths_map)
  then have "map the (map Some ps) = map the (map (\<lambda>k. Some (slot a mem k)) (nths [0..<m] N))" by simp
  then have "ps = map (slot a mem) (nths [0..<m] N)" by (simp add: o_def)
  then show ?thesis by (intro exI [of _ "nths [0..<m] N"]) (auto simp: subseq_conv_nths)
qed

lemma slot_keys:
  assumes "config_ok a" and "datas_ok a mem" and "subseq ks [0..<m]" and "m \<le> n_msgs a"
  shows "map (\<lambda>p. frame_key p act) (map (slot a mem) ks) = map (\<lambda>k. (user_id a, word_of_nat k, msg_size a, act)) ks"
proof -
  have "set ks \<subseteq> {0..<m}" using subseq_set [OF assms(3)] by simp
  then have "k < n_msgs a" if "k \<in> set ks" for k using that assms(4) by auto
  then show ?thesis using slot_dec [OF assms(1,2)] by (simp add: frame_key_def)
qed

lemma none_is_last: "as @ None # ys = map Some ps @ [None] \<Longrightarrow> ys = []"
proof (induction ps arbitrary: as)
  case Nil
  then show ?case by (cases as) auto
next
  case (Cons p ps)
  show ?case
  proof (cases as)
    case Nil
    then show ?thesis using Cons.prems by simp
  next
    case (Cons y bs)
    then show ?thesis using Cons.IH [of bs] Cons.prems by simp
  qed
qed

text \<open>How the program can end.\<close>

lemma rest_outcome:
  assumes cfg: "config_ok a" and mem: "prepare_datas a fill = Some mem"
    and ch: "channel_ok ops contents cap" and q: "contents q = []"
    and r: "thread_reach ops en1 en2 a pool mem (thread_start a q w wc) s"
    and rest: "at_rest ops en1 en2 a pool mem s"
  shows "th_main s = Finished \<and> th_cons s = Exited \<and> thread_run en1 fill pool a w = Ran (th_main_world s) \<or>
    th_main s = Crashed \<and> (\<exists>k < n_msgs a. \<not> pool (word_of_nat k)) \<and>
      thread_run en1 fill pool a w = OutOfBoundsRun \<or>
    th_main s = Joining \<and> th_cons s = Reading \<and> contents (th_chan s) = [] \<and> cap < n_msgs a + 1"
proof -
  obtain m ps where inv: "threads_ok contents cap en1 en2 a pool mem (main_start a w) wc s m ps"
    using threads_ok_reach [OF cfg prepare_datas_datas_ok [OF cfg mem] ch q r] by blast
  then have at: "main_at en1 a pool mem (main_start a w) (th_main s) (th_main_world s) m"
    and c: "th_cons s \<noteq> ConsumerCrashed"
    and full: "length (wrote a mem (th_main s) m) \<le> cap \<Longrightarrow>
      read_from (th_cons s) ps @ contents (th_chan s) = wrote a mem (th_main s) m"
    by (auto simp: threads_ok_def consumed_def)
  consider (joining) "th_main s = Joining" | (finished) "th_main s = Finished" | (crashed) "th_main s = Crashed"
    using rest_cases(1) [OF ch rest] by blast
  then show ?thesis
  proof cases
    case joining
    then have rd: "th_cons s = Reading" using rest_cases(3) [OF ch rest] c by (cases "th_cons s") auto
    then have e: "contents (th_chan s) = []" by (rule rest_cases(2) [OF ch rest])
    have "map Some ps \<noteq> wrote a mem (th_main s) m"
      using joining by (auto simp: wrote_def map_eq_append_conv)
    then have "cap < length (wrote a mem (th_main s) m)"
      using full rd e by (force simp: read_from_def not_le)
    also have "\<dots> \<le> n_msgs a + 1" using wrote_length [of a mem "th_main s" m] at by (simp add: main_at_def)
    finally show ?thesis using joining rd e by simp
  next
    case finished
    with finished_run [OF cfg mem, of en1 pool w "th_main_world s" m] at inv show ?thesis by (simp add: threads_ok_def)
  next
    case crashed
    with at failed_pool_run [OF cfg mem, of m pool en1 w] show ?thesis by (auto simp: main_at_def)
  qed
qed

text \<open>The capacities the program asks for hold a run of at most seven rounds.\<close>

lemma setup_capacities:
  assumes cfg: "config_ok a" and "num_per_round a \<noteq> 0" and "0 < round_num a" and "round_num a < 8"
  shows "n_msgs a + 1 \<le> unat (num_per_round a * 8)" and "n_msgs a \<le> unat (num_per_round a * 16)"
proof -
  let ?n = "unat (num_per_round a)" and ?R = "unat (round_num a)" and ?M = "unat (msg_size a)"
  have n: "0 < ?n" using assms(2) by (simp add: unat_gt_0)
  have R: "0 < ?R" "?R < 8" using assms(3,4) by (simp_all add: word_less_nat_alt)
  have "?n \<le> ?n * ?R" using R(1) by simp
  moreover have "16 \<le> ?M" using cfg by (simp add: config_ok_def)
  ultimately have "?n * 16 \<le> ?n * ?R * ?M" by (rule mult_le_mono)
  also have "\<dots> < 4294967296" using config_bytes [OF cfg] by (simp add: config_n_msgs [OF cfg])
  finally have b: "?n * 16 < 4294967296" .
  then have u: "unat (num_per_round a * 16) = ?n * 16" "unat (num_per_round a * 8) = ?n * 8"
    using unat_mult_no_wrap [of "num_per_round a" 16] unat_mult_no_wrap [of "num_per_round a" 8] by simp_all
  have "?n * ?R \<le> ?n * 7" using R(2) by (intro mult_le_mono2) simp
  then have le: "n_msgs a \<le> ?n * 7" by (simp add: config_n_msgs [OF cfg])
  show "n_msgs a + 1 \<le> unat (num_per_round a * 8)" "n_msgs a \<le> unat (num_per_round a * 16)"
    unfolding u using le n by linarith+
qed

section \<open>Properties\<close>



text \<open>C22: At any time of any interleaving of the two threads, whatever the capacity of the channel and whatever
  allocations fail: the first thread has written the first \<open>m\<close> messages of the run to the channel,
  in order, and NULL only after the last; it stops earlier only at an allocation that failed. The
  consumer has recorded some of these messages, each with its user id, number and
  size, in order and none twice, and never reads outside of a message.\<close>

theorem thread_keeps_order:
  assumes "config_ok a" and "prepare_datas a fill = Some mem"
    and "channel_ok ops contents cap" and "contents q = []"
    and "thread_reach ops en1 en2 a pool mem (thread_start a q w wc) s"
  shows "\<exists>m es ks. m \<le> n_msgs a \<and> trace (th_main_world s) = trace (main_start a w) @ es \<and> asserts_ok es \<and>
    chan_written es = map (\<lambda>k. Some (slot a mem k)) [0..<m] @
      (if th_main s = Joining \<or> th_main s = Finished then [None] else []) \<and>
    (th_main s = Joining \<or> th_main s = Finished \<longrightarrow> m = n_msgs a) \<and>
    (th_main s = Crashed \<longrightarrow> m < n_msgs a \<and> \<not> pool (word_of_nat m)) \<and>
    subseq ks [0..<m] \<and> th_cons s \<noteq> ConsumerCrashed \<and>
    map rec_key (committed (trace (th_cons_world s))) = map rec_key (committed (trace wc)) @
      map (\<lambda>k. (user_id a, word_of_nat k, msg_size a, ''consumer.rcv'')) ks"
proof -
  note mem = prepare_datas_datas_ok [OF assms(1,2)]
  obtain m ps where inv: "threads_ok contents cap en1 en2 a pool mem (main_start a w) wc s m ps"
    using threads_ok_reach [OF assms(1) mem assms(3-5)] by blast
  then have at: "main_at en1 a pool mem (main_start a w) (th_main s) (th_main_world s) m"
    and c: "consumed en2 wc (th_cons s) (th_cons_world s) ps"
    and sub: "subseq (map Some ps @ (if th_cons s = Exited then [None] else []) @ contents (th_chan s))
      (wrote a mem (th_main s) m)"
    by (simp_all add: threads_ok_def read_from_def)
  obtain ks where ks: "subseq ks [0..<m]" "ps = map (slot a mem) ks"
    using subseq_messages [OF sub] by blast
  have m: "m \<le> n_msgs a" using at by (simp add: main_at_def)
  obtain es where es: "trace (th_main_world s) = trace (main_start a w) @ es" "asserts_ok es"
    "chan_written es = wrote a mem (th_main s) m" using at by (auto simp: main_at_def)
  have keys: "map rec_key (committed (trace (th_cons_world s))) = map rec_key (committed (trace wc)) @
      map (\<lambda>k. (user_id a, word_of_nat k, msg_size a, ''consumer.rcv'')) ks"
    using c slot_keys [OF assms(1) mem ks(1) m, of "''consumer.rcv''"] ks(2) by (simp add: consumed_def)
  have "th_cons s \<noteq> ConsumerCrashed" using c by (auto simp: consumed_def)
  moreover have "th_main s = Joining \<or> th_main s = Finished \<Longrightarrow> m = n_msgs a"
    "th_main s = Crashed \<Longrightarrow> m < n_msgs a \<and> \<not> pool (word_of_nat m)"
    using at by (auto simp: main_at_def)
  ultimately show ?thesis
    using m es keys ks(1) unfolding wrote_def by (intro exI [of _ m] exI [of _ es] exI [of _ ks]) blast
qed

text \<open>A run with a single message, and a channel of two elements.\<close>

definition demo_one :: nb_sys_args_t where
  "demo_one = demo_args\<lparr>num_per_round := 1, round_num := 1\<rparr>"

lemma demo_one_simps [simp]:
  "config_ok demo_one" "n_msgs demo_one = 1" "num_per_round demo_one = 1" "round_num demo_one = 1"
  "user_id demo_one = 7" "msg_size demo_one = 16"
  by (simp_all add: demo_one_def config_ok_def n_msgs_def)

lemma demo_one_prepare [simp]: "prepare_datas demo_one (\<lambda>_. 0) = Some (msg_head demo_args 0)"
  by code_simp

definition demo_channel :: "nat \<Rightarrow> bytes option list channel" where
  "demo_channel cap = \<lparr>ch_write = (\<lambda>q x. if length q < cap then q @ [x] else q),
     ch_read = (\<lambda>q. case q of [] \<Rightarrow> None | x # xs \<Rightarrow> Some (x, xs))\<rparr>"

lemma demo_channel_ok: "channel_ok (demo_channel cap) (\<lambda>q. q) cap"
  by (simp add: channel_ok_def demo_channel_def)

theorem thread_keeps_order_witness:
  "\<exists>s m ks. thread_reach (demo_channel 2) demo_env demo_env demo_one (\<lambda>_. True) (msg_head demo_args 0)
      (thread_start demo_one [] world0 world0) s \<and> th_main s \<noteq> Crashed \<and> m \<le> 1 \<and> subseq ks [0..<m] \<and>
    map rec_key (committed (trace (th_cons_world s))) = map (\<lambda>k. (7, word_of_nat k, 16, ''consumer.rcv'')) ks"
proof -
  let ?reach = "thread_reach (demo_channel 2) demo_env demo_env demo_one (\<lambda>_. True) (msg_head demo_args 0)
      (thread_start demo_one [] world0 world0)"
  have "?reach (thread_start demo_one [] world0 world0)" by (rule thread_reach.start)
  then obtain s where s: "?reach s" using thread_reaches_rest [OF demo_channel_ok] by blast
  show ?thesis
    using thread_keeps_order [OF _ _ demo_channel_ok _ s, of "\<lambda>_. 0"] s by (force simp del: upt_rec_numeral)
qed

text \<open>C24: Every interleaving of the two threads ends, with sizes and counts that fit 32 bits and any channel that
  keeps its contract. It ends in one of three ways: the program has returned from \<open>run\<close> and the
  consumer has left; an allocation of the pool failed and the first thread has copied to
  NULL; or, only if the channel cannot hold the whole run and the NULL, the first thread waits for a consumer
  that waits for ever on the empty channel.\<close>

theorem thread_terminates:
  assumes "config_ok a" and "prepare_datas a fill = Some mem"
    and "channel_ok ops contents cap" and "contents q = []"
  shows "(\<forall>f. \<not> (\<forall>i :: nat. thread_step ops en1 en2 a pool mem (f i) (f (Suc i)))) \<and>
    (\<forall>s. thread_reach ops en1 en2 a pool mem (thread_start a q w wc) s \<and>
         (\<forall>s'. \<not> thread_step ops en1 en2 a pool mem s s') \<longrightarrow>
       th_main s = Finished \<and> th_cons s = Exited \<and> thread_run en1 fill pool a w = Ran (th_main_world s) \<or>
       th_main s = Crashed \<and> (\<exists>k < n_msgs a. \<not> pool (word_of_nat k)) \<and>
         thread_run en1 fill pool a w = OutOfBoundsRun \<or>
       th_main s = Joining \<and> th_cons s = Reading \<and> contents (th_chan s) = [] \<and> cap < n_msgs a + 1)"
proof (intro conjI allI impI)
  fix f
  show "\<not> (\<forall>i :: nat. thread_step ops en1 en2 a pool mem (f i) (f (Suc i)))"
  proof
    assume "\<forall>i. thread_step ops en1 en2 a pool mem (f i) (f (Suc i))"
    then have "\<forall>i. (f (Suc i), f i) \<in> measure (thread_work contents a)"
      using thread_step_work [OF assms(3), of en1 en2 a pool mem] by simp
    then show False using wf_iff_no_infinite_down_chain [of "measure (thread_work contents a)"] by blast
  qed
next
  fix s
  assume s: "thread_reach ops en1 en2 a pool mem (thread_start a q w wc) s \<and>
    (\<forall>s'. \<not> thread_step ops en1 en2 a pool mem s s')"
  then show "th_main s = Finished \<and> th_cons s = Exited \<and> thread_run en1 fill pool a w = Ran (th_main_world s) \<or>
       th_main s = Crashed \<and> (\<exists>k < n_msgs a. \<not> pool (word_of_nat k)) \<and>
         thread_run en1 fill pool a w = OutOfBoundsRun \<or>
       th_main s = Joining \<and> th_cons s = Reading \<and> contents (th_chan s) = [] \<and> cap < n_msgs a + 1"
    using rest_outcome [OF assms, of en1 en2 pool w wc s] unfolding at_rest_def by blast
qed

text \<open>A channel that drops everything, the NULL included: the program ends waiting for its consumer.\<close>

theorem thread_terminates_witness:
  "\<exists>s. thread_reach (demo_channel 0) demo_env demo_env demo_one (\<lambda>_. True) (msg_head demo_args 0)
      (thread_start demo_one [] world0 world0) s \<and>
    at_rest (demo_channel 0) demo_env demo_env demo_one (\<lambda>_. True) (msg_head demo_args 0) s \<and>
    th_main s = Joining \<and> th_cons s = Reading"
proof -
  let ?reach = "thread_reach (demo_channel 0) demo_env demo_env demo_one (\<lambda>_. True) (msg_head demo_args 0)
      (thread_start demo_one [] world0 world0)"
  have w: "foldl (ch_write (demo_channel 0)) [] xs = []" for xs
    by (induction xs) (simp_all add: demo_channel_def)
  have r: "ch_read (demo_channel 0) [] = None" by (simp add: demo_channel_def)
  have reads: "th_cons s = Reading \<and> th_chan s = []" if "?reach s" for s
    using that by induction (auto simp: thread_start_def w r)
  have "?reach (thread_start demo_one [] world0 world0)" by (rule thread_reach.start)
  then obtain s where s: "?reach s"
    "at_rest (demo_channel 0) demo_env demo_env demo_one (\<lambda>_. True) (msg_head demo_args 0) s"
    using thread_reaches_rest [OF demo_channel_ok] by blast
  moreover have "th_main s = Joining"
    using thread_terminates [OF demo_one_simps(1) demo_one_prepare demo_channel_ok, of "[]" 0 demo_env demo_env
        "\<lambda>_. True" world0 world0] s reads [OF s(1)] by (auto simp: at_rest_def)
  ultimately show ?thesis using reads [OF s(1)] by blast
qed

text \<open>C21: With sizes and counts that fit 32 bits and one to seven rounds of at least one message, on a channel and
  a pool of the capacities the program asks for: every interleaving of the two threads that has come
  to rest has returned from \<open>run\<close> with all messages and NULL written, and the consumer has left after
  reading all of them, with exactly one record for every message, in order.\<close>

theorem thread_delivers_all:
  assumes "config_ok a" and "prepare_datas a fill = Some mem"
    and "num_per_round a \<noteq> 0" and "0 < round_num a" and "round_num a < 8"
    and "Call ''muggle_channel_init'' [ANat cap] \<in> set (thread_setup a)"
    and "channel_ok ops contents cap" and "contents q = []"
    and "Call ''muggle_ts_memory_pool_init'' [ANat blocks, ANat block_size] \<in> set (thread_setup a)"
    and "\<And>k. k < blocks \<Longrightarrow> pool (word_of_nat k)"
    and "thread_reach ops en1 en2 a pool mem (thread_start a q w wc) s"
    and "\<And>s'. \<not> thread_step ops en1 en2 a pool mem s s'"
  shows "th_main s = Finished \<and> th_cons s = Exited \<and>
    thread_run en1 fill pool a w = Ran (th_main_world s) \<and>
    (\<exists>es. trace (th_main_world s) = trace w @ es \<and> asserts_ok es \<and>
      chan_written es = map Some (map (slot a mem) [0..<n_msgs a]) @ [None] \<and>
      map rec_key (committed es) = concat (map (\<lambda>k. map (\<lambda>act. (user_id a, word_of_nat k, msg_size a, act))
        [''producer.prepare'', ''producer.push_begin'', ''producer.push_end'']) [0..<n_msgs a])) \<and>
    consumer en2 (map Some (map (slot a mem) [0..<n_msgs a]) @ [None]) wc = Some (th_cons_world s) \<and>
    map rec_key (committed (trace (th_cons_world s))) = map rec_key (committed (trace wc)) @
      map (\<lambda>k. (user_id a, word_of_nat k, msg_size a, ''consumer.rcv'')) [0..<n_msgs a]"
proof -
  note mem = prepare_datas_datas_ok [OF assms(1,2)]
  have rest: "at_rest ops en1 en2 a pool mem s" using assms(12) by (simp add: at_rest_def)
  have cap: "n_msgs a + 1 \<le> cap" and blocks: "n_msgs a \<le> blocks"
    using setup_capacities [OF assms(1,3-5)] assms(6,9) by (simp_all add: thread_setup_def)
  have pool: "pool (word_of_nat k)" if "k < n_msgs a" for k
    using assms(10) that blocks by simp
  have fin: "th_main s = Finished \<and> th_cons s = Exited \<and> thread_run en1 fill pool a w = Ran (th_main_world s)"
    using rest_outcome [OF assms(1,2,7,8,11) rest] pool cap by auto
  obtain m ps where inv: "threads_ok contents cap en1 en2 a pool mem (main_start a w) wc s m ps"
    using threads_ok_reach [OF assms(1) mem assms(7,8,11)] by blast
  have m: "m = n_msgs a" using inv fin by (simp add: threads_ok_def main_at_def)
  have "length (wrote a mem (th_main s) m) \<le> cap" using wrote_length [of a mem "th_main s" m] cap m by simp
  then have "map Some ps @ None # contents (th_chan s) = map Some (map (slot a mem) [0..<n_msgs a]) @ [None]"
    using inv fin m by (simp add: threads_ok_def read_from_def wrote_def o_def)
  from none_is_last [OF this] this have ps: "ps = map (slot a mem) [0..<n_msgs a]"
    by (simp del: map_map)
  have c: "consumed en2 wc Exited (th_cons_world s) ps" using inv fin by (simp add: threads_ok_def)
  have keys: "map (\<lambda>p. frame_key p ''consumer.rcv'') (map (slot a mem) [0..<n_msgs a]) =
      map (\<lambda>k. (user_id a, word_of_nat k, msg_size a, ''consumer.rcv'')) [0..<n_msgs a]"
    by (rule slot_keys [OF assms(1) mem, where m = "n_msgs a"]) simp_all
  obtain w' es where "thread_run en1 fill pool a w = Ran w'" "trace w' = trace w @ es" "asserts_ok es"
    "chan_written es = map Some (map (slot a mem) [0..<n_msgs a]) @ [None]"
    "map rec_key (committed es) = producer_keys a [0..<n_msgs a]"
    using thread_run_ok [OF assms(1,2), of pool en1 w] pool by blast
  then have run: "\<exists>es. trace (th_main_world s) = trace w @ es \<and> asserts_ok es \<and>
      chan_written es = map Some (map (slot a mem) [0..<n_msgs a]) @ [None] \<and>
      map rec_key (committed es) = producer_keys a [0..<n_msgs a]" using fin by auto
  show ?thesis
    using fin run c keys unfolding consumed_def ps by simp
qed

theorem thread_delivers_all_witness:
  "\<exists>s. thread_reach (demo_channel 8) demo_env demo_env demo_one (\<lambda>_. True) (msg_head demo_args 0)
      (thread_start demo_one [] world0 world0) s \<and>
    thread_run demo_env (\<lambda>_. 0) (\<lambda>_. True) demo_one world0 = Ran (th_main_world s) \<and>
    map rec_key (committed (trace (th_cons_world s))) = [(7, 0, 16, ''consumer.rcv'')]"
proof -
  let ?reach = "thread_reach (demo_channel 8) demo_env demo_env demo_one (\<lambda>_. True) (msg_head demo_args 0)
      (thread_start demo_one [] world0 world0)"
  have "?reach (thread_start demo_one [] world0 world0)" by (rule thread_reach.start)
  then obtain s where s: "?reach s"
    "at_rest (demo_channel 8) demo_env demo_env demo_one (\<lambda>_. True) (msg_head demo_args 0) s"
    using thread_reaches_rest [OF demo_channel_ok] by blast
  have "map rec_key (committed (trace (th_cons_world s))) = map rec_key (committed (trace world0)) @
      map (\<lambda>k. (user_id demo_one, word_of_nat k, msg_size demo_one, ''consumer.rcv'')) [0..<n_msgs demo_one] \<and>
    thread_run demo_env (\<lambda>_. 0) (\<lambda>_. True) demo_one world0 = Ran (th_main_world s)"
    using thread_delivers_all [OF demo_one_simps(1) demo_one_prepare _ _ _ _ demo_channel_ok [of 8] refl _ _ s(1),
        of 16 16] s(2)
    by (simp add: thread_setup_def at_rest_def)
  with s(1) show ?thesis by (intro exI [of _ s]) simp
qed

end
