(* ===== verification/Spec2Isabelle.thy ===== *)
theory Spec2Isabelle
  imports NbInit RecordFile MessageSpec TcpClientRun TcpSystem TcpSystemLife UdpSystem TcpClientLog TcpServerLife TcpServerClients UdpClient UdpServer ClientMessages ThreadSystem
begin

text \<open>
  A model of the network benchmark programs: a library (\<open>src/src/network_benchmark\<close>) and the
  programs built on it (\<open>src/app\<close>). A client sends rounds of messages to a server, the
  server sends them on to an upstream, over TCP or UDP; a thread benchmark does the same over a
  channel. Every program writes timestamp records of what it does with each message to a file,
  from which scripts compute latencies. What has to be right is therefore that every message
  of the configured run is sent once and in order with the right header, that the receivers cut
  the stream into the same messages, and that the records name the message they are about.

  \<^bold>\<open>How C is modelled.\<close> Structs are records with the fields of the code, \<open>uint32_t\<close> is
  \<open>32 word\<close> (its arithmetic wraps), \<open>int\<close> values that come from outside are
  \<open>int\<close>, pointers into an allocation are offsets into a list of bytes, and every access
  outside of the allocation is \<open>None\<close> (or \<open>OutOfBoundsRun\<close>, \<open>Some None\<close> under a
  loop). Loops that end by construction are \<open>function\<close>s with their termination proof,
  the two that may not (opening a socket, cutting messages) are \<open>partial_function\<close>s whose
  \<open>None\<close> is not returning; no fuel is used. A call into another library is an
  \<open>effect\<close> on the trace of the \<open>world\<close>, in the order of the calls; what comes back is an
  argument or a field of \<open>env\<close>, indexed by how often it was asked, so every result holds for
  every behaviour of clock, sockets, file system and allocator. \<open>NB_ASSERT\<close> leaves an
  \<open>AssertFailed\<close> on the trace.

  \<^bold>\<open>Theories and what they model.\<close>
  \<^item> \<open>Prelude\<close>, \<open>Codec\<close>, \<open>Cformat\<close>: machine words, checked memory, C strings, the
    interface of a fixed-width wire format, decimal printing and reading.
  \<^item> \<open>MsgStruct\<close>: \<open>msg_struct.h\<close>, \<open>macro.h\<close>. \<open>World\<close>: effects, clock, sockets.
  \<^item> \<open>NbLog\<close> (\<open>log.c\<close>), \<open>NbRecord\<close> (\<open>record.c\<close>, the macro of \<open>record.h\<close>),
    \<open>SysArgs\<close> (\<open>sys_args.c\<close>), \<open>NbInit\<close> (\<open>init.c\<close>). \<open>RecordFile\<close>: the record
    file over a run of the backend thread, and a reader of it.
  \<^item> \<open>Framing\<close>: the abstract specification of the byte stream, a list of frames and a rest.
    \<open>Session\<close>: the session part of \<open>session.c\<close> over the interface of a receive buffer
    (\<open>bytes_buffer_ok\<close>, what mugglec documents); \<open>RefBuffer\<close> is a buffer that keeps it.
    \<open>Receiver\<close>: the interface of a program that acts on every message once.
  \<^item> \<open>Connect\<close>: the openers and the address comparison of \<open>session.c\<close>. \<open>Evloop\<close>: what
    the \<open>run\<close> and \<open>main\<close> functions share.
  \<^item> \<open>RoundData\<close>, \<open>SendRound\<close>: the message array of the senders and the send loop;
    \<open>RoundClient\<close>, \<open>RoundTimer\<close>: the interface of a client that works in rounds, and
    the timer both clients are instances of.
  \<^item> \<open>TcpClient\<close>, \<open>UdpClient\<close>, \<open>TcpServer\<close>, \<open>TcpUpstream\<close>, \<open>UdpServer\<close> (with
    the UDP upstream), \<open>ThreadApp\<close> (with the hello program): the directories of \<open>app\<close>, each
    callback, \<open>run\<close> and \<open>main\<close>.
  \<^item> \<open>Lifecycle\<close>: the states an event loop can reach with a connection that is made again
    when it closes; \<open>TcpClientLife\<close> and \<open>TcpServerLife\<close> show the invariant of both
    programs. \<open>RoundLog\<close> is an abstract machine for the writes of such a client and the answers of
    the socket, \<open>TcpClientLog\<close> shows that the TCP client refines it over its whole life.
    \<open>TcpServerClients\<close>: any number of clients of one server, their events in any
    order. \<open>TcpServerLog\<close>: the server over its whole life, with clients that come and go and an
    upstream that does too, refines a history of the bytes it read and the messages it sent on.
    \<open>ThreadChannel\<close>: all interleavings of the steps of producer and consumer over a channel with a
    contract, their invariant and measure; \<open>ThreadSystem\<close>: how the benchmark can end, and what is recorded.
  \<^item> \<open>Quiet\<close>: what is done without writing. \<open>TcpClientRun\<close>, \<open>UdpClientRun\<close>: the
    \<open>run\<close> functions of the clients as a whole, over an event loop of which only its contract is
    used: it makes only calls of the callbacks and does not return before \<open>muggle_evloop_exit\<close>.
    \<open>TcpSystem\<close>: any number of TCP clients over their whole lives, the server and the upstream;
    \<open>TcpSystemLife\<close>: the same with the server over its whole life.
    \<open>UdpSystem\<close>: the three UDP programs over a network that loses, repeats and reorders.
  \<^item> \<open>MessageSpec\<close>: what the message layer promises. \<open>Demo\<close>: the configuration the
    witnesses run on. \<open>ClientMessages\<close>: the messages of the array as the receivers see them. This
    theory: the three TCP programs together while their connections hold.

  \<^bold>\<open>Interfaces.\<close> The locales are \<open>codec\<close> and \<open>codec_pair\<close>, \<open>framer\<close>,
  \<open>sender\<close> and \<open>observed_sender\<close> (one message, and what is seen of it),
  \<open>round_sender\<close> and \<open>round_client\<close> (a timer that sends rounds), \<open>receiver\<close>
  (events that take messages), \<open>reconnecting\<close> (a connection over its life)
  and \<open>session_frame\<close> (what the session layer and the send loop leave alone). Each is
  interpreted on the definitions of the programs, and the properties rest on its facts.

  \<^bold>\<open>Results.\<close> The message array is inside its allocation exactly when sizes and counts fit
  32 bits; the send loop refines the sending of a list; at every tick the clients have written
  exactly the completed rounds, and all of them in the end, with any clock of which some reading is
  always due; a failed write stops the round, which is repeated later, so over reconnects every
  message of a completed round was taken at least once, and whenever \<open>run\<close> returns, every message of
  the run; that the event loop returns is not assumed, but from every state with an open connection that
  takes what it is given, timers lead to the exit. After a connect nothing is written before \<open>cli_wait\<close> seconds have passed.
  The session refines the framing for every chunking, so server and upstream act
  on exactly the messages that were sent, also with many clients and connections that break; the
  server's upstream pointer is always the open connection, and over the server's whole life each
  message goes to the connection that was open when it came, is recorded once, and is dropped only
  when none was open. The thread benchmark ends on every interleaving, with one record
  of the consumer for every message up to seven rounds; on a channel too small for the run it may lose messages
  and wait for ever. No record names a message that no client's run has. Options, logging, records and initialisation behave as documented on every branch, and the
  record file reads back as what was recorded.
  Where the code is wrong the theorem says when: a wrapped length that never returns or reads past an empty copy, short
  messages read past their end or recorded with what the stack held, arrays that are too small, an assertion that fails, a connecting
  thread that outlives its event loop.

  \<^bold>\<open>Bounds.\<close> Hypotheses on sizes are those the code needs: \<open>config_ok\<close> says that a
  message has its 16 bytes of header and data and that the array fits 32 bits; \<open>reads_ok\<close> that
  one read gives at most the 65536 bytes asked for; \<open>valid_frame\<close> that a message has room for
  its data block and a length that fits 32 bits.

  \<^bold>\<open>Not modelled.\<close> mugglec and haclog (event loop, sockets, buffers, channel, pool, ring, log
  backend), \<open>getopt_long\<close> and the system calls are parameters; the Python scripts and the
  build files are left out; what becomes of a message whose write to the upstream fails is left to the
  network (it may be lost, the connection is shut down); allocation never fails, and freeing is a
  call on the trace, not a state of memory; concurrency is modelled
  where the programs have it (the channel and the connecting threads), not inside of the libraries.
  Byte order is little-endian on both ends. Log calls keep their format string and not their
  arguments, texts printed with \<open>fprintf\<close> to \<open>stderr\<close> lose a final newline.
\<close>

section \<open>The three TCP programs\<close>

text \<open>The server forwards and records the same messages, those that are complete.\<close>

lemma server_drain:
  assumes "server_receives ops ok data s d st" and "reads_ok rds" and "server_pend data s st = []"
    and valid: "\<And>f. f \<in> set fs \<Longrightarrow> valid_frame f" and "concat fs = concat rds @ e"
    and "sv_conn_ctx d = Some u" and "committed (trace (ss_world st)) = []"
    and "drain (tcp_server_on_message ens ops s) n rds st = Some (Some (rest, st'))"
  shows "\<exists>j. written_to u (trace (ss_world st')) = written_to u (trace (ss_world st)) @ take j fs \<and>
    map rec_key (committed (trace (ss_world st'))) =
      concat (map (\<lambda>f. [frame_key f ''server.rcv'', frame_key f ''server.snd_begin'']) (take j fs)) \<and>
    (concat rest = [] \<and> e = [] \<longrightarrow> take j fs = fs)"
proof -
  have ne: "f \<noteq> []" if "f \<in> set fs" for f
    using valid [OF that] by (auto simp: valid_frame_def)
  obtain j0 where j0: "written_to u (trace (ss_world st')) = written_to u (trace (ss_world st)) @ take j0 fs"
    "concat (take j0 fs) @ server_pend data s st' @ concat rest @ e = concat fs"
    "concat rest = [] \<and> e = [] \<longrightarrow> take j0 fs = fs"
    using server_fwd.drain_messages [OF assms(1-5), where n = n and en = ens and u = u]
      assms(6,8) unfolding concat_if by auto
  obtain j1 where j1: "map rec_key (committed (trace (ss_world st'))) =
      concat (map (\<lambda>f. [frame_key f ''server.rcv'', frame_key f ''server.snd_begin'']) (take j1 fs))"
    "concat (take j1 fs) @ server_pend data s st' @ concat rest @ e = concat fs"
    using server_log.drain_messages [OF assms(1-5), where n = n and en = ens] assms(6-8) by auto
  have "take j1 fs = take j0 fs"
    using j0(2) j1(2) ne by (intro take_concat_unique) (simp_all, metis append_same_eq)
  with j0 j1(1) show ?thesis by (intro exI [of _ j0]) simp
qed

text \<open>C1: The three programs together. The client has ticked any number of times, the server and the upstream
  have handled any number of events, and the network has delivered any part of the streams in any
  pieces. Then the upstream has recorded the messages 0, 1, 2, ... of the run up to some number,
  each once and in order, with the user id, sequence number and size of the client's
  options; the server has recorded at least those, each as received and as sent on; and both only
  what the client has sent. When no byte is under way or waiting, all have seen all.\<close>

theorem tcp_pipeline:
  assumes "config_ok a" and "prepare_datas a fill = Some mem"
    and "\<And>j. n_wr w \<le> j \<Longrightarrow> wr enc j = to_int (msg_size a)" and "written_to c (trace w) = []"
    and "ticks (tcp_tick enc a) k
      (\<lparr>tc_ctx = Some c, tc_last_ts = t, tc_round_index = 0, tc_datas = mem\<rparr>, w) = Some (d', w')"
    and "server_receives ops ok data s d st" and "server_pend data s st = []" and "sv_conn_ctx d = Some u"
    and "written_to u (trace (ss_world st)) = []" and "committed (trace (ss_world st)) = []"
    and "reads_ok srds" and "concat (written_to c (trace w')) = concat srds @ ea"
    and "drain (tcp_server_on_message ens ops s) n srds st = Some (Some (srest, st'))"
    and "upstream_receives ops2 ok2 data2 v us" and "upstream_pend data2 v us = []"
    and "committed (trace (us_world us)) = []"
    and "reads_ok urds" and "concat (written_to u (trace (ss_world st'))) = concat urds @ eb"
    and "drain (tcp_upstream_on_message enu ops2 v) m urds us = Some (Some (urest, us'))"
  shows "\<exists>i j. i \<le> j \<and> j \<le> unat (tc_round_index d') * unat (num_per_round a) \<and>
    map rec_key (committed (trace (us_world us'))) =
      map (\<lambda>q. (user_id a, word_of_nat q, msg_size a, ''upstream.rcv'')) [0..<i] \<and>
    map rec_key (committed (trace (ss_world st'))) =
      concat (map (\<lambda>q. [(user_id a, word_of_nat q, msg_size a, ''server.rcv''),
                        (user_id a, word_of_nat q, msg_size a, ''server.snd_begin'')]) [0..<j]) \<and>
    (concat srest = [] \<and> ea = [] \<and> concat urest = [] \<and> eb = [] \<longrightarrow>
      i = unat (tc_round_index d') * unat (num_per_round a))"
proof -
  note mem = prepare_datas_datas_ok [OF assms(1,2)]
  let ?n = "unat (tc_round_index d') * unat (num_per_round a)"
  let ?fs = "map (slot a mem) [0..<?n]"
  have n: "?n \<le> n_msgs a"
    using tcp_ticks_in_order(2) [OF assms(1) mem assms(3,5)]
    by (simp add: config_n_msgs [OF assms(1)] mult.commute)
  have sent: "written_to c (trace w') = ?fs"
    using tcp_ticks_in_order(1) [OF assms(1) mem assms(3,5)] assms(4) by simp
  have valid: "valid_frame f" if "f \<in> set ?fs" for f
    using that n slot_valid_frame [OF assms(1) mem] by auto
  have stream: "concat ?fs = concat srds @ ea" using assms(12) sent by simp
  obtain j0 where j0: "written_to u (trace (ss_world st')) = take j0 ?fs"
    "map rec_key (committed (trace (ss_world st'))) =
      concat (map (\<lambda>f. [frame_key f ''server.rcv'', frame_key f ''server.snd_begin'']) (take j0 ?fs))"
    "concat srest = [] \<and> ea = [] \<longrightarrow> take j0 ?fs = ?fs"
    using server_drain [OF assms(6,11,7) valid stream assms(8,10,13)] assms(9) by auto
  let ?j = "min j0 ?n"
  have gs: "take j0 ?fs = map (slot a mem) [0..<?j]" by (rule take_map_upt)
  have vg: "valid_frame f" if "f \<in> set (map (slot a mem) [0..<?j])" for f
    using that valid by auto
  have stream2: "concat (map (slot a mem) [0..<?j]) = concat urds @ eb"
    using assms(18) j0(1) gs by simp
  obtain i0 where i0: "map rec_key (committed (trace (us_world us'))) =
      map (\<lambda>f. frame_key f ''upstream.rcv'') (take i0 (map (slot a mem) [0..<?j]))"
    "concat urest = [] \<and> eb = [] \<longrightarrow>
       take i0 (map (slot a mem) [0..<?j]) = map (slot a mem) [0..<?j]"
    using upstream_log.drain_messages [OF assms(14,17,15) vg stream2, where n = m and en = enu]
      assms(16,19) unfolding concat_map_singleton by auto
  let ?i = "min i0 ?j"
  have "?i = ?j" if "concat urest = []" "eb = []"
    using i0(2) that unfolding take_map_upt by (auto dest: map_eq_imp_length_eq)
  moreover have "?j = ?n" if "concat srest = []" "ea = []"
    using j0(3) that unfolding gs by (auto dest: map_eq_imp_length_eq)
  moreover have "map rec_key (committed (trace (us_world us'))) =
      map (\<lambda>q. (user_id a, word_of_nat q, msg_size a, ''upstream.rcv'')) [0..<?i]"
    unfolding i0(1) take_map_upt using n by (intro map_keys [OF assms(1) mem]) simp
  moreover have "map rec_key (committed (trace (ss_world st'))) =
      concat (map (\<lambda>q. [(user_id a, word_of_nat q, msg_size a, ''server.rcv''),
                        (user_id a, word_of_nat q, msg_size a, ''server.snd_begin'')]) [0..<?j])"
    unfolding j0(2) gs
    using n by (intro concat_keys [OF assms(1) mem]) simp
  ultimately show ?thesis
    by (intro exI [of _ ?i] exI [of _ ?j]) auto
qed

lemma demo_client_runs:
  "\<exists>d' w'. ticks (tcp_tick demo_env demo_args) 3
     (\<lparr>tc_ctx = Some 3, tc_last_ts = \<lparr>tv_sec = -5, tv_nsec = 0\<rparr>, tc_round_index = 0, tc_datas = demo_mem\<rparr>, world0) =
     Some (d', w')"
proof -
  let ?s = "(\<lparr>rs_ctx = Some 3, rs_last_ts = \<lparr>tv_sec = -5, tv_nsec = 0\<rparr>, rs_index = 0, rs_datas = demo_mem\<rparr>, world0)"
  have "round_state_ok demo_args (fst ?s) \<and> rs_datas (fst ?s) = demo_mem"
    by (simp add: round_state_ok_def)
  from tcp_round.rounds.ticks_good [OF this, of demo_env 3] tcp_ticks_rounds [of demo_env demo_args 3 ?s]
  show ?thesis by (auto simp: tcp_of_def simp del: ticks.simps)
qed

theorem tcp_pipeline_witness:
  "\<exists>d' w' srest st' urest us' i.
    ticks (tcp_tick demo_env demo_args) 3
      (\<lparr>tc_ctx = Some 3, tc_last_ts = \<lparr>tv_sec = -5, tv_nsec = 0\<rparr>, tc_round_index = 0, tc_datas = demo_mem\<rparr>, world0) =
      Some (d', w') \<and>
    drain (tcp_server_on_message demo_env (list_bb True) 4) 2 (written_to 3 (trace w')) (demo_server (Some 3)) =
      Some (Some (srest, st')) \<and>
    drain (tcp_upstream_on_message demo_env (list_bb False) 4) 2 (written_to 3 (trace (ss_world st'))) demo_upstream =
      Some (Some (urest, us')) \<and>
    map rec_key (committed (trace (us_world us'))) =
      map (\<lambda>q. (7, word_of_nat q, 16, ''upstream.rcv'')) [0..<i]"
proof -
  obtain d' w' where run: "ticks (tcp_tick demo_env demo_args) 3
      (\<lparr>tc_ctx = Some 3, tc_last_ts = \<lparr>tv_sec = -5, tv_nsec = 0\<rparr>, tc_round_index = 0, tc_datas = demo_mem\<rparr>, world0) =
      Some (d', w')"
    using demo_client_runs by blast
  let ?n = "unat (tc_round_index d') * 2"
  have sent: "written_to 3 (trace w') = map (slot demo_args demo_mem) [0..<?n]" and n: "?n \<le> 4"
    using tcp_ticks_in_order [OF demo_config demo_datas _ run] by simp_all
  have len: "length f = 16 \<and> valid_frame f" if "f \<in> set (written_to 3 (trace w'))" for f
    using that n slot_valid_frame [OF demo_config demo_datas] slot_length [OF demo_datas]
    by (auto simp: sent)
  have srds: "reads_ok (written_to 3 (trace w'))" using len by (simp add: reads_ok_def)
  obtain k srest st' where srv: "drain (tcp_server_on_message demo_env (list_bb True) 4) 2
      (written_to 3 (trace w')) (demo_server (Some 3)) = Some (Some (srest, st'))"
    "written_to 3 (trace (ss_world st')) = take k (written_to 3 (trace w'))"
    using server_fwd.drain_messages [OF demo_server_receives [of True "Some 3"] srds, where u = 3 and n = 2
        and en = demo_env and fs = "written_to 3 (trace w')" and e = "[]"] len
    unfolding concat_if by auto
  have len2: "length f = 16 \<and> valid_frame f" if "f \<in> set (written_to 3 (trace (ss_world st')))" for f
    using that len srv(2) in_set_takeD by metis
  have urds: "reads_ok (written_to 3 (trace (ss_world st')))" using len2 by (simp add: reads_ok_def)
  obtain urest us' where up: "drain (tcp_upstream_on_message demo_env (list_bb False) 4) 2
      (written_to 3 (trace (ss_world st'))) demo_upstream = Some (Some (urest, us'))"
    using upstream_log.drain_messages [OF demo_upstream_simps(1) [of False] urds, where n = 2
        and en = demo_env and fs = "written_to 3 (trace (ss_world st'))" and e = "[]"] len2
    by auto
  have "\<exists>i. map rec_key (committed (trace (us_world us'))) =
      map (\<lambda>q. (7, word_of_nat q, 16, ''upstream.rcv'')) [0..<i]"
    using tcp_pipeline [OF demo_config demo_prepare _ _ run demo_server_receives [of True "Some 3"] _ _ _ _ srds
        _ srv(1) demo_upstream_simps(1,2) _ urds _ up, where u = 3 and ea = "[]" and eb = "[]"]
    by auto
  with run srv(1) up show ?thesis by blast
qed

end
